(* ===== verification/Prelude.thy ===== *)
theory Prelude
  imports Main "HOL-Library.Word" "HOL-Library.Signed_Division" "HOL-Library.Monad_Syntax"
begin

text \<open>
  Shared vocabulary of the development: the machine integers of the Rust code, the two ways a
  Rust function can fail to produce an ordinary value (an error value, or a panic), the pieces
  of the standard library the sources use (\<^verbatim>\<open>clamp\<close>, \<^verbatim>\<open>saturating_sub\<close>, \<^verbatim>\<open>max_by_key\<close>,
  \<^verbatim>\<open>trim\<close>, \<^verbatim>\<open>to_ascii_lowercase\<close>), and generic lemmas about lists and maps.

  Conventions: \<^verbatim>\<open>Result<T, E>\<close> is the sum type with \<^verbatim>\<open>Inl\<close> for \<^verbatim>\<open>Err\<close> and \<^verbatim>\<open>Inr\<close> for
  \<^verbatim>\<open>Ok\<close>.  Code that may panic is a function into an option, where \<^verbatim>\<open>None\<close> is the panic.
  A Rust \<^verbatim>\<open>String\<close> is its UTF-8 encoding, a \<^typ>\<open>string\<close> whose characters are the bytes, so
  its length is what \<^verbatim>\<open>str::len\<close> returns.
\<close>

section \<open>Collections for automation\<close>

named_theorems bound_simps "range facts about the machine integers of the code"
named_theorems inv_intros "preservation of a component's invariant by its operations"

section \<open>Machine integers\<close>

type_synonym u8 = "8 word"
type_synonym u16 = "16 word"
type_synonym u32 = "32 word"
type_synonym u64 = "64 word"
type_synonym u128 = "128 word"

text \<open>\<^verbatim>\<open>i32\<close> is a 32-bit word read with \<^const>\<open>sint\<close>.\<close>
type_synonym i32 = "32 word"

abbreviation i32_min :: int where "i32_min \<equiv> - 2147483648"
abbreviation i32_max :: int where "i32_max \<equiv> 2147483647"

text \<open>An intermediate result of \<^verbatim>\<open>i64\<close> arithmetic is an integer; the code is free of
  overflow exactly when every one of them satisfies this.\<close>
definition fits_i64 :: "int \<Rightarrow> bool" where
  "fits_i64 k \<longleftrightarrow> - (2 ^ 63) \<le> k \<and> k < 2 ^ 63"

lemma sint_i32_lower [bound_simps, simp]: "i32_min \<le> sint (w :: i32)"
  using sint_ge [of w] by simp

lemma sint_i32_upper [bound_simps, simp]: "sint (w :: i32) \<le> i32_max"
  using sint_lt [of w] by simp

lemma uint_u32_upper [bound_simps, simp]: "uint (w :: u32) \<le> 4294967295"
  using uint_lt2p [of w] by simp

lemma uint_u32_less [bound_simps]: "uint (w :: u32) < 4294967296"
  using uint_lt2p [of w] by simp

lemma unat_u8_less [bound_simps]: "unat (b :: u8) < 256"
  by (rule less_le_trans [OF unsigned_less]) simp

lemma unat_u32_less [bound_simps]: "unat (w :: u32) < 4294967296"
  by (rule less_le_trans [OF unsigned_less]) simp

lemma uint_word_of_int_u32:
  assumes "0 \<le> k" "k < 4294967296"
  shows "uint (word_of_int k :: u32) = k"
  using assms by (simp add: uint_word_of_int)

lemma sint_word_of_int_i32:
  assumes "i32_min \<le> k" "k \<le> i32_max"
  shows "sint (word_of_int k :: i32) = k"
  using assms by (simp add: signed_of_int signed_take_bit_int_eq_self)

lemma u32_nonzero_uint: "(w :: u32) \<noteq> 0 \<longleftrightarrow> 0 < uint w"
  by (metis less_le uint_0_iff uint_ge_0)

text \<open>\<^verbatim>\<open>u32::saturating_sub\<close>.\<close>
definition saturating_sub :: "u32 \<Rightarrow> u32 \<Rightarrow> u32" where
  "saturating_sub a b = (if b \<le> a then a - b else 0)"

lemma uint_saturating_sub_1:
  "uint (saturating_sub w 1) = (if w = 0 then 0 else uint w - 1)"
proof (cases "w = 0")
  case True
  then show ?thesis by (simp add: saturating_sub_def)
next
  case False
  then have "1 \<le> w" by (simp add: word_le_def u32_nonzero_uint)
  with False show ?thesis by (simp add: saturating_sub_def uint_minus_simple_alt word_le_def)
qed

text \<open>\<^verbatim>\<open>Ord::clamp\<close> panics when the bounds are the wrong way round.\<close>
definition clamp :: "int \<Rightarrow> int \<Rightarrow> int \<Rightarrow> int option" where
  "clamp k lo hi = (if lo \<le> hi then Some (max lo (min hi k)) else None)"

lemma clamp_eq_None_iff [simp]: "clamp k lo hi = None \<longleftrightarrow> hi < lo"
  by (auto simp: clamp_def)

lemma clamp_Some_bounds:
  "clamp k lo hi = Some r \<Longrightarrow> lo \<le> r \<and> r \<le> hi"
  by (auto simp: clamp_def split: if_splits)

lemma clamp_Some_idem:
  "lo \<le> k \<Longrightarrow> k \<le> hi \<Longrightarrow> clamp k lo hi = Some k"
  by (auto simp: clamp_def)

section \<open>Truncating division\<close>

text \<open>Rust's \<^verbatim>\<open>/\<close> on signed integers truncates towards zero; HOL's \<^verbatim>\<open>sdiv\<close> on
  \<^typ>\<open>int\<close> is the same operation.\<close>

lemma sdiv_nonneg: "0 \<le> a \<Longrightarrow> 0 < b \<Longrightarrow> a sdiv b = a div (b :: int)"
  by (simp add: signed_divide_int_def sgn_if)

lemma sdiv_neg: "a < 0 \<Longrightarrow> 0 < b \<Longrightarrow> a sdiv b = - ((- a) div (b :: int))"
  by (simp add: signed_divide_int_def sgn_if)

lemma sdiv_minus_left: "(- a) sdiv b = - (a sdiv (b :: int))"
  by (simp add: signed_divide_int_def)

lemma abs_sdiv: "0 < b \<Longrightarrow> \<bar>a sdiv b\<bar> = \<bar>a\<bar> div (b :: int)"
  by (cases "0 \<le> a") (simp_all add: sdiv_nonneg sdiv_neg pos_imp_zdiv_nonneg_iff)

lemma sdiv_rem_bound:
  assumes "0 < (b :: int)"
  shows "\<bar>a - (a sdiv b) * b\<bar> < b"
proof (cases "0 \<le> a")
  case True
  have "a - (a div b) * b = a mod b" by (simp add: minus_div_mult_eq_mod)
  with True assms show ?thesis by (simp add: sdiv_nonneg)
next
  case False
  have "- a - ((- a) div b) * b = (- a) mod b" by (simp add: minus_div_mult_eq_mod)
  then have "a - (a sdiv b) * b = - ((- a) mod b)" using False assms by (simp add: sdiv_neg)
  with assms show ?thesis by simp
qed

lemma zdiv_less: "0 < (b :: int) \<Longrightarrow> a < k * b \<Longrightarrow> a div b < k"
  by (metis linorder_not_less mult.commute pos_imp_zdiv_nonneg_iff zdiv_mono1
      nonzero_mult_div_cancel_left less_irrefl div_mult_mod_eq mult_le_cancel_right_pos order.trans
      pos_mod_sign add_increasing2 le_add_same_cancel1)

section \<open>Choosing the largest element\<close>

text \<open>\<^verbatim>\<open>Iterator::max_by_key\<close>: of several largest elements the last one is returned.\<close>
fun max_by_key :: "('a \<Rightarrow> int) \<Rightarrow> 'a list \<Rightarrow> 'a option" where
  "max_by_key f [] = None"
| "max_by_key f (x # xs) = Some (foldl (\<lambda>best y. if f best \<le> f y then y else best) x xs)"

lemma max_by_key_None_iff [simp]: "max_by_key f xs = None \<longleftrightarrow> xs = []"
  by (cases xs) auto

lemma foldl_max_mem:
  "foldl (\<lambda>best y. if f best \<le> (f y :: int) then y else best) x xs \<in> insert x (set xs)"
  by (induction xs arbitrary: x) (auto split: if_splits)

lemma foldl_max_ge_start:
  "f x \<le> f (foldl (\<lambda>best y. if f best \<le> (f y :: int) then y else best) x xs)"
proof (induction xs arbitrary: x)
  case Nil
  then show ?case by simp
next
  case (Cons z xs)
  have "f x \<le> f (if f x \<le> f z then z else x)" by simp
  also have "\<dots> \<le> f (foldl (\<lambda>best y. if f best \<le> f y then y else best)
                    (if f x \<le> f z then z else x) xs)" by (rule Cons.IH)
  finally show ?case by simp
qed

lemma foldl_max_ge:
  "y \<in> insert x (set xs) \<Longrightarrow>
   f y \<le> f (foldl (\<lambda>best y. if f best \<le> (f y :: int) then y else best) x xs)"
proof (induction xs arbitrary: x)
  case Nil
  then show ?case by simp
next
  case (Cons z xs)
  define b where "b = (if f x \<le> f z then z else x)"
  have "f y \<le> f b \<or> y \<in> set xs" using Cons.prems by (auto simp: b_def)
  then have "f y \<le> f (foldl (\<lambda>best y. if f best \<le> f y then y else best) b xs)"
    using Cons.IH [of b] foldl_max_ge_start [of f b xs] by auto
  then show ?case by (simp add: b_def)
qed

lemma max_by_key_mem: "max_by_key f xs = Some x \<Longrightarrow> x \<in> set xs"
  using foldl_max_mem by (cases xs) fastforce+

lemma max_by_key_ge: "max_by_key f xs = Some x \<Longrightarrow> y \<in> set xs \<Longrightarrow> f y \<le> f x"
  using foldl_max_ge by (cases xs) fastforce+

section \<open>Strings\<close>

text \<open>The UTF-8 encodings of the characters \<^verbatim>\<open>char::is_whitespace\<close> accepts
  (Unicode's \<^verbatim>\<open>White_Space\<close>).\<close>
definition whitespace_encodings :: "string list" where
  "whitespace_encodings =
     [ [CHR 0x09], [CHR 0x0A], [CHR 0x0B], [CHR 0x0C], [CHR 0x0D], [CHR 0x20],
       [CHR 0xC2, CHR 0x85], [CHR 0xC2, CHR 0xA0], [CHR 0xE1, CHR 0x9A, CHR 0x80],
       [CHR 0xE2, CHR 0x80, CHR 0x80], [CHR 0xE2, CHR 0x80, CHR 0x81],
       [CHR 0xE2, CHR 0x80, CHR 0x82], [CHR 0xE2, CHR 0x80, CHR 0x83],
       [CHR 0xE2, CHR 0x80, CHR 0x84], [CHR 0xE2, CHR 0x80, CHR 0x85],
       [CHR 0xE2, CHR 0x80, CHR 0x86], [CHR 0xE2, CHR 0x80, CHR 0x87],
       [CHR 0xE2, CHR 0x80, CHR 0x88], [CHR 0xE2, CHR 0x80, CHR 0x89],
       [CHR 0xE2, CHR 0x80, CHR 0x8A], [CHR 0xE2, CHR 0x80, CHR 0xA8],
       [CHR 0xE2, CHR 0x80, CHR 0xA9], [CHR 0xE2, CHR 0x80, CHR 0xAF],
       [CHR 0xE2, CHR 0x81, CHR 0x9F], [CHR 0xE3, CHR 0x80, CHR 0x80] ]"

fun strip_prefix :: "'a list \<Rightarrow> 'a list \<Rightarrow> 'a list option" where
  "strip_prefix [] ys = Some ys"
| "strip_prefix (x # xs) [] = None"
| "strip_prefix (x # xs) (y # ys) = (if x = y then strip_prefix xs ys else None)"

lemma strip_prefix_Some: "strip_prefix xs ys = Some zs \<longleftrightarrow> ys = xs @ zs"
  by (induction xs ys rule: strip_prefix.induct) auto

fun strip_any :: "'a list list \<Rightarrow> 'a list \<Rightarrow> 'a list option" where
  "strip_any [] ys = None"
| "strip_any (p # ps) ys = (case strip_prefix p ys of Some zs \<Rightarrow> Some zs | None \<Rightarrow> strip_any ps ys)"

lemma strip_any_shorter:
  "strip_any ps ys = Some zs \<Longrightarrow> [] \<notin> set ps \<Longrightarrow> length zs < length ys"
  by (induction ps) (auto simp: strip_prefix_Some split: option.splits)

text \<open>Drops a listed prefix as long as there is one.  The empty word is never listed, so every
  round makes the string shorter.\<close>
function trim_front :: "string list \<Rightarrow> string \<Rightarrow> string" where
  "trim_front ps s = (if [] \<in> set ps then s
     else case strip_any ps s of None \<Rightarrow> s | Some r \<Rightarrow> trim_front ps r)"
  by pat_completeness auto
termination by (relation "measure (length \<circ> snd)") (auto dest: strip_any_shorter)

declare trim_front.simps [simp del]

text \<open>\<^verbatim>\<open>str::trim\<close>: whitespace is removed from both ends.\<close>
definition trim :: "string \<Rightarrow> string" where
  "trim s = rev (trim_front (map rev whitespace_encodings)
                   (rev (trim_front whitespace_encodings s)))"

text \<open>Characters that neither begin nor end the encoding of a whitespace character.\<close>
definition graphic :: "char \<Rightarrow> bool" where
  "graphic c \<longleftrightarrow> 33 \<le> (of_char c :: nat) \<and> (of_char c :: nat) < 127"

lemma strip_any_blank: "strip_any whitespace_encodings (CHR 0x20 # s) = Some s"
  by (simp add: whitespace_encodings_def)

lemma strip_any_blank_rev: "strip_any (map rev whitespace_encodings) (CHR 0x20 # s) = Some s"
  by (simp add: whitespace_encodings_def)

lemma strip_any_None:
  "(\<And>p. p \<in> set ps \<Longrightarrow> p \<noteq> [] \<and> hd p \<noteq> c) \<Longrightarrow> strip_any ps (c # s) = None"
proof (induction ps)
  case (Cons p ps)
  then obtain d q where "p = d # q" "d \<noteq> c" by (cases p) force+
  with Cons show ?case by simp
qed simp

lemma encodings_not_graphic:
  "list_all (\<lambda>p. p \<noteq> [] \<and> \<not> graphic (hd p)) whitespace_encodings"
  "list_all (\<lambda>p. p \<noteq> [] \<and> \<not> graphic (hd p)) (map rev whitespace_encodings)"
  by (simp_all add: whitespace_encodings_def graphic_def)

lemma strip_any_graphic:
  assumes "graphic c"
  shows "strip_any whitespace_encodings (c # s) = None"
    "strip_any (map rev whitespace_encodings) (c # s) = None"
  using encodings_not_graphic assms by (auto simp only: list_all_iff intro!: strip_any_None)

lemma Nil_notin_encodings:
  "[] \<notin> set whitespace_encodings" "[] \<notin> set (map rev whitespace_encodings)"
  by (simp_all add: whitespace_encodings_def)

lemma trim_front_blanks:
  assumes "[] \<notin> set ps" "\<And>s. strip_any ps (CHR 0x20 # s) = Some s"
    and "\<And>c s. graphic c \<Longrightarrow> strip_any ps (c # s) = None" "graphic c"
  shows "trim_front ps (replicate n CHR 0x20 @ c # s) = c # s"
proof (induction n)
  case 0
  show ?case using assms(1) assms(3) [OF assms(4)] by (simp add: trim_front.simps [of ps "c # s"])
next
  case (Suc n)
  then show ?case
    using assms(1,2) by (simp add: trim_front.simps [of ps "CHR 0x20 # t" for t])
qed

lemma trim_blanks:
  assumes "graphic (hd w)" "graphic (last w)" "w \<noteq> []"
  shows "trim (replicate m CHR 0x20 @ w @ replicate n CHR 0x20) = w"
proof -
  note tf = trim_front_blanks [OF Nil_notin_encodings(1) strip_any_blank strip_any_graphic(1)]
    and tb = trim_front_blanks [OF Nil_notin_encodings(2) strip_any_blank_rev strip_any_graphic(2)]
  obtain c s where w: "w = c # s" using assms(3) by (cases w) auto
  obtain d t where rw: "rev w = d # t" using assms(3) by (cases "rev w") auto
  have "graphic c" using assms(1) w by simp
  then have front: "trim_front whitespace_encodings (replicate m CHR 0x20 @ w @ replicate n CHR 0x20)
      = w @ replicate n CHR 0x20"
    using tf [of c m "s @ replicate n CHR 0x20"] w by simp
  have "last w = d" using rw by (metis hd_rev list.sel(1))
  then have "trim_front (map rev whitespace_encodings) (replicate n CHR 0x20 @ rev w) = rev w"
    using tb [of d n t] assms(2) rw by simp
  then show ?thesis by (simp add: trim_def front)
qed

text \<open>\<^verbatim>\<open>str::to_ascii_lowercase\<close>: only the bytes \<^verbatim>\<open>A\<close> to \<^verbatim>\<open>Z\<close> change.\<close>
definition ascii_lower :: "char \<Rightarrow> char" where
  "ascii_lower c = (if 65 \<le> (of_char c :: nat) \<and> (of_char c :: nat) \<le> 90
                    then char_of (of_char c + 32 :: nat) else c)"

definition to_ascii_lowercase :: "string \<Rightarrow> string" where
  "to_ascii_lowercase = map ascii_lower"

lemma graphic_ascii_lower:
  "graphic (ascii_lower c) \<Longrightarrow> graphic c"
  by (auto simp: graphic_def ascii_lower_def split: if_splits)

section \<open>Maps and lists\<close>

lemma ran_upd_subset: "ran (m(k \<mapsto> v)) \<subseteq> insert v (ran m)"
  by (auto simp: ran_def)

section \<open>Operations that cannot fail\<close>

text \<open>\<^verbatim>\<open>Infallible\<close> has no values in Rust; every type of HOL has one, and this one is never used.\<close>
datatype infallible = Infallible

section \<open>Repeated sending and receiving\<close>

text \<open>Sending one item after another, stopping at the first error; receiving \<open>n\<close> times.\<close>
fun send_each :: "('m \<Rightarrow> 'c \<Rightarrow> ('x + unit) \<times> 'c) \<Rightarrow> 'm list \<Rightarrow> 'c \<Rightarrow> ('x + unit) \<times> 'c" where
  "send_each send [] c = (Inr (), c)"
| "send_each send (m # ms) c =
     (case send m c of (Inl e, c) \<Rightarrow> (Inl e, c) | (Inr _, c) \<Rightarrow> send_each send ms c)"

fun recv_times :: "('c \<Rightarrow> 'r \<times> 'c) \<Rightarrow> nat \<Rightarrow> 'c \<Rightarrow> 'r list \<times> 'c" where
  "recv_times recv 0 c = ([], c)"
| "recv_times recv (Suc n) c =
     (let (r, c) = recv c; (rs, c) = recv_times recv n c in (r # rs, c))"

end
