(* ===== verification/Protocol.thy ===== *)
theory Protocol
  imports Prelude
begin

text \<open>
  The shared kernel \<^verbatim>\<open>crates/omni-protocol\<close>: identifiers (\<^verbatim>\<open>ids.rs\<close>), input events and modifier
  sets (\<^verbatim>\<open>input.rs\<close>), the modifier swap (\<^verbatim>\<open>remap.rs\<close>), clipboard payloads
  (\<^verbatim>\<open>clipboard.rs\<close>), control messages (\<^verbatim>\<open>control.rs\<close>) and the wire message (\<^verbatim>\<open>wire.rs\<close>).
  Newtypes of the source are single-constructor datatypes, so that a session id cannot stand for
  a machine id here either.  The postcard encoder and decoder are a third-party crate and appear
  as two arguments of \<open>encode\<close> and \<open>decode\<close>.
\<close>

unbundle bit_operations_syntax

section \<open>Identifiers\<close>

datatype machine_id = MachineId (machine_value: u64)
datatype peer_id = PeerId (peer_value: u64)
datatype session_id = SessionId (session_value: u128)
datatype fingerprint = Fingerprint (as_bytes: "u8 list")

text \<open>The source's type is \<^verbatim>\<open>[u8; 32]\<close>: every fingerprint has 32 bytes.\<close>
definition fingerprint_ok :: "fingerprint \<Rightarrow> bool" where
  "fingerprint_ok f \<longleftrightarrow> length (as_bytes f) = 32"

text \<open>\<^verbatim>\<open>impl Display for Fingerprint\<close>: two lowercase hexadecimal digits for every byte.\<close>
definition hex_digit :: "nat \<Rightarrow> char" where
  "hex_digit n = (if n < 10 then char_of (48 + n) else char_of (87 + n))"

definition hex_byte :: "u8 \<Rightarrow> string" where
  "hex_byte b = [hex_digit (unat b div 16), hex_digit (unat b mod 16)]"

definition fingerprint_display :: "fingerprint \<Rightarrow> string" where
  "fingerprint_display f = concat (map hex_byte (as_bytes f))"

lemma length_fingerprint_display: "length (fingerprint_display f) = 2 * length (as_bytes f)"
  by (cases f) (simp add: fingerprint_display_def hex_byte_def length_concat comp_def sum_list_triv)

section \<open>Input events\<close>

datatype action = Press | Release
datatype key_code = KeyCode (key_value: u32)
datatype modifiers = Modifiers (modifier_bits: u8)
datatype mouse_button = MouseLeft | MouseRight | MouseMiddle | MouseBack | MouseForward
  | MouseOther u8

record mouse_delta =
  dx :: i32
  dy :: i32

record scroll_delta =
  scroll_dx :: i32
  scroll_dy :: i32

datatype input_event =
    Key key_code action modifiers
  | Motion mouse_delta
  | Pointer i32 i32
  | Button mouse_button action
  | Scroll scroll_delta

definition KEY_RETURN :: key_code where "KEY_RETURN = KeyCode 0x28"
definition CAPS_LOCK :: key_code where "CAPS_LOCK = KeyCode 0x39"
definition KEYPAD_ENTER :: key_code where "KEYPAD_ENTER = KeyCode 0x58"

definition MILLILINES_PER_LINE :: int where "MILLILINES_PER_LINE = 1000"

subsection \<open>Modifier sets\<close>

definition MOD_NONE :: modifiers where "MOD_NONE = Modifiers 0"
definition SHIFT :: modifiers where "SHIFT = Modifiers (push_bit 0 1)"
definition CONTROL :: modifiers where "CONTROL = Modifiers (push_bit 1 1)"
definition ALT :: modifiers where "ALT = Modifiers (push_bit 2 1)"
definition META :: modifiers where "META = Modifiers (push_bit 3 1)"

definition mods_contains :: "modifiers \<Rightarrow> modifiers \<Rightarrow> bool" where
  "mods_contains m other \<longleftrightarrow> modifier_bits m AND modifier_bits other = modifier_bits other"

definition mods_with :: "modifiers \<Rightarrow> modifiers \<Rightarrow> modifiers" where
  "mods_with m other = Modifiers (modifier_bits m OR modifier_bits other)"

definition mods_without :: "modifiers \<Rightarrow> modifiers \<Rightarrow> modifiers" where
  "mods_without m other = Modifiers (modifier_bits m AND NOT (modifier_bits other))"

definition mods_difference :: "modifiers \<Rightarrow> modifiers \<Rightarrow> modifiers" where
  "mods_difference m other = Modifiers (modifier_bits m AND NOT (modifier_bits other))"

definition mods_is_empty :: "modifiers \<Rightarrow> bool" where
  "mods_is_empty m \<longleftrightarrow> modifier_bits m = 0"

definition MODS_ALL :: "modifiers list" where
  "MODS_ALL = [SHIFT, CONTROL, ALT, META]"

lemmas mods_defs = mods_contains_def mods_with_def mods_without_def mods_difference_def
  mods_is_empty_def MOD_NONE_def SHIFT_def CONTROL_def ALT_def META_def

text \<open>Modifier sets are ordered by \<^const>\<open>mods_contains\<close>; adding modifiers is the join.\<close>

lemma bit_u8_less: "bit (w :: u8) i \<Longrightarrow> i < 8"
  using bit_imp_le_length [of w i] by simp

lemma bit_u8_push_1: "bit (push_bit n 1 :: u8) i \<longleftrightarrow> i = n \<and> n < 8"
  by (auto simp only: bit_push_bit_iff bit_1_iff word_size possible_bit_word dest: bit_u8_less)
    simp_all

lemma bits_of_modifier:
  "bit (modifier_bits SHIFT) i \<longleftrightarrow> i = 0"
  "bit (modifier_bits CONTROL) i \<longleftrightarrow> i = 1"
  "bit (modifier_bits ALT) i \<longleftrightarrow> i = 2"
  "bit (modifier_bits META) i \<longleftrightarrow> i = 3"
  unfolding SHIFT_def CONTROL_def ALT_def META_def modifiers.sel bit_u8_push_1 by simp_all

lemma mods_contains_bits:
  "mods_contains m n \<longleftrightarrow> (\<forall>i. bit (modifier_bits n) i \<longrightarrow> bit (modifier_bits m) i)"
  unfolding mods_contains_def bit_eq_iff bit_and_iff
  by (auto dest: bit_u8_less)

lemma bits_of_mods:
  "bit (modifier_bits (mods_with m n)) i \<longleftrightarrow> bit (modifier_bits m) i \<or> bit (modifier_bits n) i"
  "bit (modifier_bits (mods_without m n)) i \<longleftrightarrow> bit (modifier_bits m) i \<and> \<not> bit (modifier_bits n) i"
  "bit (modifier_bits (mods_difference m n)) i \<longleftrightarrow> bit (modifier_bits m) i \<and> \<not> bit (modifier_bits n) i"
  "bit (modifier_bits MOD_NONE) i \<longleftrightarrow> False"
  by (auto simp: mods_with_def mods_without_def mods_difference_def MOD_NONE_def
      bit_and_iff bit_or_iff bit_not_iff dest: bit_u8_less)

lemma modifiers_eqI:
  "(\<And>i. bit (modifier_bits m) i = bit (modifier_bits n) i) \<Longrightarrow> m = n"
  by (cases m; cases n) (simp add: bit_eq_iff)

instantiation modifiers :: "{semilattice_sup, order_bot}"
begin

definition less_eq_modifiers :: "modifiers \<Rightarrow> modifiers \<Rightarrow> bool" where
  "m \<le> n \<longleftrightarrow> mods_contains n m"

definition less_modifiers :: "modifiers \<Rightarrow> modifiers \<Rightarrow> bool" where
  "(m :: modifiers) < n \<longleftrightarrow> m \<le> n \<and> \<not> n \<le> m"

definition sup_modifiers :: "modifiers \<Rightarrow> modifiers \<Rightarrow> modifiers" where
  "sup_modifiers = mods_with"

definition bot_modifiers :: modifiers where
  "bot_modifiers = MOD_NONE"

instance
  by standard
    (auto simp: less_eq_modifiers_def less_modifiers_def sup_modifiers_def bot_modifiers_def
      mods_contains_bits bits_of_mods intro!: modifiers_eqI)

end

lemma mods_is_empty_bits: "mods_is_empty m \<longleftrightarrow> (\<forall>i. \<not> bit (modifier_bits m) i)"
  unfolding mods_is_empty_def bit_eq_iff by (auto dest: bit_u8_less)

lemma mods_difference_empty_iff: "mods_is_empty (mods_difference m n) \<longleftrightarrow> mods_contains n m"
  by (auto simp: mods_is_empty_bits mods_contains_bits bits_of_mods)

subsection \<open>Modifier keys\<close>

definition key_modifier :: "key_code \<Rightarrow> modifiers option" where
  "key_modifier k = (let c = key_value k in
     if c = 0xE0 \<or> c = 0xE4 then Some CONTROL
     else if c = 0xE1 \<or> c = 0xE5 then Some SHIFT
     else if c = 0xE2 \<or> c = 0xE6 then Some ALT
     else if c = 0xE3 \<or> c = 0xE7 then Some META
     else None)"

definition is_modifier :: "key_code \<Rightarrow> bool" where
  "is_modifier k \<longleftrightarrow> key_modifier k \<noteq> None"

lemma is_modifier_iff:
  "is_modifier k \<longleftrightarrow> key_value k \<in> {0xE0, 0xE1, 0xE2, 0xE3, 0xE4, 0xE5, 0xE6, 0xE7}"
  by (auto simp: is_modifier_def key_modifier_def Let_def)

section \<open>The modifier swap\<close>

datatype modifier_swap = SwapNone | MetaAndControl

definition swap_parse :: "string \<Rightarrow> modifier_swap option" where
  "swap_parse name = (let word = to_ascii_lowercase (trim name) in
     if word \<in> {''none'', ''off''} then Some SwapNone
     else if word \<in> {''meta-control'', ''meta_control'', ''cmd-ctrl'', ''swap'', ''on''}
       then Some MetaAndControl
     else None)"

fun swap_name :: "modifier_swap \<Rightarrow> string" where
  "swap_name SwapNone = ''none''"
| "swap_name MetaAndControl = ''meta-control''"

definition swap_key :: "key_code \<Rightarrow> key_code" where
  "swap_key code = (let c = key_value code in
     if c = 0xE0 then KeyCode 0xE3
     else if c = 0xE3 then KeyCode 0xE0
     else if c = 0xE4 then KeyCode 0xE7
     else if c = 0xE7 then KeyCode 0xE4
     else code)"

definition swap_modifiers :: "modifiers \<Rightarrow> modifiers" where
  "swap_modifiers m =
     (let had_meta = mods_contains m META;
          had_control = mods_contains m CONTROL;
          swapped = mods_without (mods_without m META) CONTROL;
          swapped = (if had_meta then mods_with swapped CONTROL else swapped);
          swapped = (if had_control then mods_with swapped META else swapped)
      in swapped)"

fun swap_apply :: "modifier_swap \<Rightarrow> input_event \<Rightarrow> input_event" where
  "swap_apply s event = (if s = SwapNone then event else
     (case event of
        Key code action modifiers \<Rightarrow> Key (swap_key code) action (swap_modifiers modifiers)
      | other \<Rightarrow> other))"

declare swap_apply.simps [simp del]

lemma swap_key_involution: "swap_key (swap_key k) = k"
  by (cases k) (auto simp: swap_key_def Let_def)

text \<open>Bit by bit: bits 1 (Control) and 3 (Meta) change places, every other bit, also those no
  modifier uses, stays.\<close>
lemma mods_contains_META: "mods_contains m META \<longleftrightarrow> bit (modifier_bits m) 3"
  by (simp add: mods_contains_bits bits_of_modifier)

lemma mods_contains_CONTROL: "mods_contains m CONTROL \<longleftrightarrow> bit (modifier_bits m) 1"
  by (simp add: mods_contains_bits bits_of_modifier)

lemma bit_swap_modifiers:
  "bit (modifier_bits (swap_modifiers m)) i =
   bit (modifier_bits m) (if i = 1 then 3 else if i = 3 then 1 else i)"
  by (auto simp: swap_modifiers_def Let_def mods_contains_META mods_contains_CONTROL bits_of_mods
      bits_of_modifier)

lemma swap_modifiers_involution: "swap_modifiers (swap_modifiers m) = m"
  by (rule modifiers_eqI) (simp add: bit_swap_modifiers)

lemma swap_apply_involution: "swap_apply s (swap_apply s e) = e"
  by (cases e) (simp_all add: swap_apply.simps swap_key_involution swap_modifiers_involution)

text \<open>The key code and the modifier set move together: the modifier a swapped key controls is
  the swapped modifier of the key.\<close>
lemma key_modifier_swap_key:
  "key_modifier (swap_key k) = map_option swap_modifiers (key_modifier k)"
proof -
  have "swap_modifiers CONTROL = META" "swap_modifiers META = CONTROL"
    "swap_modifiers SHIFT = SHIFT" "swap_modifiers ALT = ALT"
    by (rule modifiers_eqI; simp add: bit_swap_modifiers bits_of_modifier)+
  then show ?thesis
    by (cases k) (auto simp: key_modifier_def swap_key_def Let_def)
qed

section \<open>Control messages\<close>

record screen_size =
  screen_width :: u32
  screen_height :: u32

datatype reject_reason = NotAllowedReason | FingerprintChanged | Declined | Busy

datatype control_message =
    ConnectRequest machine_id fingerprint screen_size
  | Accept session_id machine_id screen_size
  | Reject reject_reason
  | DisconnectMsg session_id
  | CursorWarp session_id i32 i32
  | Heartbeat session_id
  | CursorReturned session_id i32 i32

section \<open>Clipboard payloads\<close>

definition MAX_CLIPBOARD_BYTES :: nat where
  "MAX_CLIPBOARD_BYTES = 64 * 1024 * 1024"

record clipboard_image =
  image_width :: u32
  image_height :: u32
  image_bytes :: "u8 list"

datatype clipboard_data = Text string | Image clipboard_image

text \<open>The source's error is a formatted message; the constructors carry what is formatted.\<close>
datatype clipboard_validation_error =
    ImageSizeMismatch "nat option" u32 u32 nat
  | ImageOverLimit nat
  | TextOverLimit nat

text \<open>\<^verbatim>\<open>usize::checked_mul\<close> on a machine whose \<^verbatim>\<open>usize\<close> has \<open>bits\<close> bits.\<close>
definition checked_mul :: "nat \<Rightarrow> nat \<Rightarrow> nat \<Rightarrow> nat option" where
  "checked_mul bits a b = (if a * b < 2 ^ bits then Some (a * b) else None)"

definition image_validate ::
  "nat \<Rightarrow> clipboard_image \<Rightarrow> clipboard_validation_error + unit" where
  "image_validate bits img =
     (let expected = Option.bind
            (checked_mul bits (unat (image_width img)) (unat (image_height img)))
            (\<lambda>len. checked_mul bits len 4)
      in if Some (length (image_bytes img)) \<noteq> expected
           then Inl (ImageSizeMismatch expected (image_width img) (image_height img)
                       (length (image_bytes img)))
         else if MAX_CLIPBOARD_BYTES < length (image_bytes img)
           then Inl (ImageOverLimit (length (image_bytes img)))
         else Inr ())"

fun data_validate :: "nat \<Rightarrow> clipboard_data \<Rightarrow> clipboard_validation_error + unit" where
  "data_validate bits (Text t) =
     (if MAX_CLIPBOARD_BYTES < length t then Inl (TextOverLimit (length t)) else Inr ())"
| "data_validate bits (Image img) = image_validate bits img"

text \<open>What validation is for, without the arithmetic of the code.\<close>
fun payload_ok :: "clipboard_data \<Rightarrow> bool" where
  "payload_ok (Text t) \<longleftrightarrow> length t \<le> MAX_CLIPBOARD_BYTES"
| "payload_ok (Image img) \<longleftrightarrow>
     length (image_bytes img) = unat (image_width img) * unat (image_height img) * 4 \<and>
     length (image_bytes img) \<le> MAX_CLIPBOARD_BYTES"

lemma checked_mul_Some: "checked_mul bits a b = Some c \<longleftrightarrow> c = a * b \<and> c < 2 ^ bits"
  by (auto simp: checked_mul_def)

text \<open>A product that overflows \<^verbatim>\<open>usize\<close> can never equal the length of a buffer in memory, so
  the checked arithmetic decides exactly the mathematical condition, on every word size.\<close>
lemma image_validate_iff:
  assumes "length (image_bytes img) < 2 ^ bits"
  shows "image_validate bits img = Inr () \<longleftrightarrow> payload_ok (Image img)"
proof -
  let ?wh = "unat (image_width img) * unat (image_height img)"
  have "Option.bind (checked_mul bits (unat (image_width img)) (unat (image_height img)))
          (\<lambda>len. checked_mul bits len 4) = Some (length (image_bytes img))
        \<longleftrightarrow> length (image_bytes img) = ?wh * 4"
    using assms by (auto simp: bind_eq_Some_conv checked_mul_Some)
  then show ?thesis
    unfolding image_validate_def Let_def by (auto simp: eq_commute)
qed

section \<open>The wire message\<close>

datatype wire_message =
    Input session_id input_event
  | Control control_message
  | Clipboard clipboard_data

datatype codec_error = Malformed

text \<open>\<^verbatim>\<open>postcard::to_allocvec\<close> and \<^verbatim>\<open>postcard::from_bytes\<close> are the arguments \<open>to_allocvec\<close> and
  \<open>from_bytes\<close>; \<^const>\<open>None\<close> stands for every error of theirs.\<close>
definition encode ::
  "(wire_message \<Rightarrow> u8 list option) \<Rightarrow> wire_message \<Rightarrow> codec_error + u8 list" where
  "encode to_allocvec m = (case to_allocvec m of Some bs \<Rightarrow> Inr bs | None \<Rightarrow> Inl Malformed)"

definition decode ::
  "(u8 list \<Rightarrow> wire_message option) \<Rightarrow> u8 list \<Rightarrow> codec_error + wire_message" where
  "decode from_bytes bs = (case from_bytes bs of Some m \<Rightarrow> Inr m | None \<Rightarrow> Inl Malformed)"

text \<open>The documented behaviour of postcard the code relies on: what was serialised
  deserialises to the same value.\<close>
definition postcard_law ::
  "(wire_message \<Rightarrow> u8 list option) \<Rightarrow> (u8 list \<Rightarrow> wire_message option) \<Rightarrow> bool" where
  "postcard_law to_allocvec from_bytes \<longleftrightarrow>
     (\<forall>m bs. to_allocvec m = Some bs \<longrightarrow> from_bytes bs = Some m)"

lemma decode_encode:
  "postcard_law ser des \<Longrightarrow> encode ser m = Inr bs \<Longrightarrow> decode des bs = Inr m"
  by (auto simp: encode_def decode_def postcard_law_def split: option.splits)

section \<open>Properties\<close>

text \<open>Relabelling modifier keys is its own inverse on every event, and it moves the key code
  and the carried modifier set together: the modifier a relabelled key controls is the relabelled
  modifier of the key, so the two never disagree.\<close>
theorem remap_involution_coherent:
  "swap_apply s (swap_apply s e) = e \<and>
   swap_apply MetaAndControl (Key k a m) = Key (swap_key k) a (swap_modifiers m) \<and>
   key_modifier (swap_key k) = map_option swap_modifiers (key_modifier k) \<and>
   (\<forall>i. bit (modifier_bits (swap_modifiers m)) i =
        bit (modifier_bits m) (if i = 1 then 3 else if i = 3 then 1 else i))"
  using swap_apply_involution key_modifier_swap_key bit_swap_modifiers
  by (simp add: swap_apply.simps)

text \<open>Every swap is parsed back from its own name, written in any mixture of cases and with
  any amount of ASCII blanks around it.\<close>
theorem swap_parse_name:
  assumes "to_ascii_lowercase word = swap_name s"
  shows "swap_parse (replicate m CHR 0x20 @ word @ replicate n CHR 0x20) = Some s"
proof -
  have ne: "word \<noteq> []" using assms by (cases s) (auto simp: to_ascii_lowercase_def)
  have "graphic c" if "c \<in> set word" for c
  proof (rule graphic_ascii_lower)
    have "ascii_lower c \<in> set (swap_name s)"
      using that assms unfolding to_ascii_lowercase_def by (metis image_eqI set_map)
    then show "graphic (ascii_lower c)" by (cases s) (auto simp: graphic_def)
  qed
  then have "trim (replicate m CHR 0x20 @ word @ replicate n CHR 0x20) = word"
    using ne by (intro trim_blanks) auto
  then show ?thesis using assms by (cases s) (simp_all add: swap_parse_def)
qed

lemma swap_parse_name_witness: "swap_parse ''  Meta-CONTROL '' = Some MetaAndControl"
proof -
  have "to_ascii_lowercase ''Meta-CONTROL'' = swap_name MetaAndControl" by code_simp
  from swap_parse_name [OF this, of 2 1] show ?thesis by (simp add: numeral_2_eq_2)
qed

text \<open>C0. Validation of a clipboard payload accepts exactly the payloads whose buffer has the size
  the dimensions imply and that stay within the cap, whatever the width of \<^verbatim>\<open>usize\<close>: a product
  that overflows cannot slip a mismatched buffer through.\<close>
theorem data_validate_exact:
  assumes "\<And>img. d = Image img \<Longrightarrow> length (image_bytes img) < 2 ^ bits"
  shows "data_validate bits d = Inr () \<longleftrightarrow> payload_ok d"
proof (cases d)
  case (Text t)
  then show ?thesis by simp
next
  case (Image img)
  then show ?thesis using image_validate_iff [OF assms [OF Image]] by simp
qed

lemma data_validate_exact_witness:
  "data_validate 32 (Image \<lparr> image_width = 4294967295, image_height = 4,
       image_bytes = replicate 16 0 \<rparr>) \<noteq> Inr ()"
  using data_validate_exact [of "Image \<lparr> image_width = 4294967295, image_height = 4,
       image_bytes = replicate 16 0 \<rparr>" 32] by simp

end
