(* ===== verification/Geometry.thy ===== *)
theory Geometry
  imports Protocol
begin

text \<open>
  \<^verbatim>\<open>crates/omni-topology/src/geometry.rs\<close>: screens, points, edges and the rescaling of a mouse
  movement between screens of different size.  \<^verbatim>\<open>i64\<close> intermediates are integers; the lemmas
  with \<^const>\<open>fits_i64\<close> show that none of them leaves the range of an \<^verbatim>\<open>i64\<close>.
\<close>

section \<open>Screens, points and edges\<close>

record screen =
  width :: u32
  height :: u32

record point =
  px :: u32
  py :: u32

datatype edge = LeftEdge | RightEdge | TopEdge | BottomEdge

fun opposite :: "edge \<Rightarrow> edge" where
  "opposite LeftEdge = RightEdge"
| "opposite RightEdge = LeftEdge"
| "opposite TopEdge = BottomEdge"
| "opposite BottomEdge = TopEdge"

definition is_horizontal :: "edge \<Rightarrow> bool" where
  "is_horizontal e \<longleftrightarrow> e \<in> {LeftEdge, RightEdge}"

lemma opposite_opposite [simp]: "opposite (opposite e) = e"
  by (cases e) auto

lemma opposite_neq [simp]: "opposite e \<noteq> e" "e \<noteq> opposite e"
  by (cases e; simp)+

lemma is_horizontal_opposite [simp]: "is_horizontal (opposite e) = is_horizontal e"
  by (cases e) (auto simp: is_horizontal_def)

section \<open>Rescaling a movement\<close>

text \<open>\<^verbatim>\<open>(delta as i64 * to as i64) / from as i64\<close>, with Rust's truncating division.\<close>
definition scaled_i64 :: "i32 \<Rightarrow> u32 \<Rightarrow> u32 \<Rightarrow> int" where
  "scaled_i64 delta src dst = (sint delta * uint dst) sdiv uint src"

definition signum :: "i32 \<Rightarrow> i32" where
  "signum d = (if 0 < sint d then 1 else if sint d = 0 then 0 else - 1)"

definition scale_axis :: "i32 \<Rightarrow> u32 \<Rightarrow> u32 \<Rightarrow> i32" where
  "scale_axis delta src dst =
     (if delta = 0 \<or> src = 0 \<or> dst = 0 \<or> src = dst then delta
      else let scaled = scaled_i64 delta src dst in
        if scaled = 0 then signum delta else word_of_int scaled)"

definition scale_delta :: "mouse_delta \<Rightarrow> screen \<Rightarrow> screen \<Rightarrow> mouse_delta" where
  "scale_delta delta src dst =
     \<lparr> dx = scale_axis (dx delta) (width src) (width dst),
       dy = scale_axis (dy delta) (height src) (height dst) \<rparr>"

lemma scale_product_fits_i64: "fits_i64 (sint (delta :: i32) * uint (dst :: u32))"
proof -
  have "\<bar>sint delta\<bar> \<le> 2147483648"
    using sint_i32_lower [of delta] sint_i32_upper [of delta] by linarith
  then have "\<bar>sint delta\<bar> * uint dst \<le> 2147483648 * 4294967295"
    by (intro mult_mono) auto
  then have "\<bar>sint delta * uint dst\<bar> \<le> 2147483648 * 4294967295"
    by (simp add: abs_mult)
  then show ?thesis
    unfolding fits_i64_def abs_le_iff by simp
qed

lemma sint_signum: "sint (signum d) = sgn (sint d)"
  by (auto simp: signum_def sgn_if)

text \<open>What the scaled movement is, as an integer, when the cast back to \<^verbatim>\<open>i32\<close> does not wrap.\<close>
lemma sint_scale_axis:
  assumes "src \<noteq> 0" "dst \<noteq> 0" "src \<noteq> dst"
    and "\<bar>sint delta\<bar> * uint dst < 2147483648 * uint src"
  shows "sint (scale_axis delta src dst) =
     (if scaled_i64 delta src dst = 0 then sgn (sint delta) else scaled_i64 delta src dst)"
proof -
  have pos: "0 < uint src" using assms(1) by (simp add: u32_nonzero_uint)
  have "\<bar>scaled_i64 delta src dst\<bar> = (\<bar>sint delta\<bar> * uint dst) div uint src"
    unfolding scaled_i64_def using pos by (simp add: abs_sdiv abs_mult)
  also have "\<dots> < 2147483648"
    using pos assms(4) by (rule zdiv_less)
  finally have "\<bar>scaled_i64 delta src dst\<bar> < 2147483648" .
  then have "sint (word_of_int (scaled_i64 delta src dst) :: i32) = scaled_i64 delta src dst"
    by (intro sint_word_of_int_i32) linarith+
  then show ?thesis
    using assms(1-3) by (auto simp: scale_axis_def Let_def sint_signum scaled_i64_def)
qed

lemma sgn_scaled_i64:
  assumes "src \<noteq> 0" "scaled_i64 delta src dst \<noteq> 0"
  shows "sgn (scaled_i64 delta src dst) = sgn (sint delta)"
proof -
  have pos: "0 < uint src" using assms(1) by (simp add: u32_nonzero_uint)
  show ?thesis
  proof (cases "0 \<le> sint delta")
    case True
    then have "0 \<le> scaled_i64 delta src dst"
      using pos by (simp add: scaled_i64_def sdiv_nonneg pos_imp_zdiv_nonneg_iff)
    moreover have "sint delta \<noteq> 0"
      using assms(2) by (auto simp: scaled_i64_def signed_divide_int_def)
    ultimately show ?thesis using True assms(2) by simp
  next
    case False
    then have "scaled_i64 delta src dst = - ((- sint delta) * uint dst sdiv uint src)"
      using sdiv_minus_left [of "sint delta * uint dst" "uint src"] by (simp add: scaled_i64_def)
    moreover have "0 \<le> (- sint delta) * uint dst sdiv uint src"
      using False pos by (subst sdiv_nonneg) (auto simp: pos_imp_zdiv_nonneg_iff mult_nonpos_nonneg)
    ultimately show ?thesis using False assms(2) by simp
  qed
qed

text \<open>The difference from the exact quotient is less than one unit.\<close>
lemma scaled_i64_error:
  assumes "src \<noteq> 0"
  shows "\<bar>sint delta * uint dst - scaled_i64 delta src dst * uint src\<bar> < uint src"
  using sdiv_rem_bound [of "uint src" "sint delta * uint dst"] assms
  by (simp add: scaled_i64_def u32_nonzero_uint)

section \<open>Properties\<close>

text \<open>A rescaled movement keeps its direction and never disappears, and it is the exact
  quotient up to less than one unit (or the smallest movement where the quotient vanishes), as
  long as the quotient fits the 32 bits it is cast to.\<close>
theorem scale_axis_faithful:
  assumes "src \<noteq> 0" "dst \<noteq> 0" "src \<noteq> dst" "delta \<noteq> 0"
    and "\<bar>sint delta\<bar> * uint dst < 2147483648 * uint src"
  shows "sgn (sint (scale_axis delta src dst)) = sgn (sint delta) \<and>
    scale_axis delta src dst \<noteq> 0 \<and>
    (\<bar>sint delta * uint dst - sint (scale_axis delta src dst) * uint src\<bar> < uint src \<or>
     (\<bar>sint delta\<bar> * uint dst < uint src \<and> sint (scale_axis delta src dst) = sgn (sint delta)))"
proof -
  note s = sint_scale_axis [OF assms(1-3,5)]
  have nz: "sint delta \<noteq> 0" using assms(4) by (metis signed_eq_0_iff)
  have sgn: "sgn (sint (scale_axis delta src dst)) = sgn (sint delta)"
    using s sgn_scaled_i64 [OF assms(1), of delta dst] by simp
  then have "scale_axis delta src dst \<noteq> 0" using nz by (metis sgn_eq_0_iff signed_0)
  moreover have "\<bar>sint delta * uint dst - sint (scale_axis delta src dst) * uint src\<bar> < uint src \<or>
        (\<bar>sint delta\<bar> * uint dst < uint src \<and> sint (scale_axis delta src dst) = sgn (sint delta))"
    using s scaled_i64_error [OF assms(1), of delta dst] by (auto simp: abs_mult)
  ultimately show ?thesis using sgn by blast
qed

lemma scale_axis_faithful_witness:
  "sgn (sint (scale_axis (- 3) 3840 1512)) = - 1"
  using scale_axis_faithful [of 3840 1512 "- 3"] by simp

text \<open>The comment on the rescaling promises rounding to nearest; the code truncates: a movement
  of nineteen tenths of a unit becomes one unit, not two.\<close>
theorem scale_axis_truncates:
  "sint (scale_axis 19 10 1) = 1 \<and> sint (scale_axis (- 19) 10 1) = - 1"
  by (simp add: scale_axis_def scaled_i64_def signed_divide_int_def)

end
