(* ===== verification/Layout.thy ===== *)
theory Layout
  imports Geometry
begin

text \<open>
  \<^verbatim>\<open>crates/omni-topology/src/layout.rs\<close> and \<^verbatim>\<open>store.rs\<close>: the virtual desktop, its construction
  by \<open>add_machine\<close> and \<open>link\<close>, and \<open>advance\<close>, which moves the cursor.  \<open>advance\<close> ends in
  \<^const>\<open>None\<close> where the Rust function panics (the bounds given to \<^verbatim>\<open>clamp\<close> are reversed).
  The last section gives \<open>advance\<close> a specification that does not follow the code.
\<close>

section \<open>The virtual desktop\<close>

record machine =
  machine_id :: machine_id
  machine_screen :: screen

datatype layout_error = UnknownMachine machine_id | DuplicateMachine machine_id

record cursor_state =
  cursor_machine :: machine_id
  cursor_position :: point

record crossing =
  crossing_peer :: machine_id
  crossing_entry :: point

record advance_result =
  advance_cursor_state :: cursor_state
  advance_crossing :: "crossing option"

record virtual_layout =
  screens :: "machine_id \<rightharpoonup> screen"
  links :: "machine_id \<times> edge \<rightharpoonup> machine_id"

definition layout_new :: virtual_layout where
  "layout_new = \<lparr> screens = Map.empty, links = Map.empty \<rparr>"

definition add_machine :: "virtual_layout \<Rightarrow> machine \<Rightarrow> layout_error + virtual_layout" where
  "add_machine l m =
     (if screens l (machine_id m) \<noteq> None then Inl (DuplicateMachine (machine_id m))
      else Inr (l \<lparr> screens := (screens l)(machine_id m \<mapsto> machine_screen m) \<rparr>))"

definition layout_screen :: "virtual_layout \<Rightarrow> machine_id \<Rightarrow> screen option" where
  "layout_screen l m = screens l m"

definition link ::
  "virtual_layout \<Rightarrow> machine_id \<Rightarrow> edge \<Rightarrow> machine_id \<Rightarrow> layout_error + virtual_layout" where
  "link l a e b =
     (if screens l a = None then Inl (UnknownMachine a)
      else if screens l b = None then Inl (UnknownMachine b)
      else Inr (l \<lparr> links := (links l)((a, e) \<mapsto> b, (b, opposite e) \<mapsto> a) \<rparr>))"

definition neighbor :: "virtual_layout \<Rightarrow> machine_id \<Rightarrow> edge \<Rightarrow> machine_id option" where
  "neighbor l m e = links l (m, e)"

section \<open>Moving the cursor\<close>

definition edge_overshoot :: "int \<Rightarrow> int \<Rightarrow> edge \<Rightarrow> edge \<Rightarrow> (edge \<times> int) option" where
  "edge_overshoot coord len low high =
     (if coord < 0 then Some (low, - coord)
      else if len \<le> coord then Some (high, coord - (len - 1))
      else None)"

definition project :: "int \<Rightarrow> u32 \<Rightarrow> u32 \<Rightarrow> u32" where
  "project coord src dst =
     (if src \<le> 1 \<or> dst = 0 then 0
      else let max_src = uint src - 1;
               clamped = max 0 (min max_src coord)
           in word_of_int (clamped * (uint dst - 1) div (uint src - 1)))"

definition entry_point :: "edge \<Rightarrow> screen \<Rightarrow> screen \<Rightarrow> int \<Rightarrow> int \<Rightarrow> point" where
  "entry_point e peer src cand_x cand_y =
     (if is_horizontal e then
        \<lparr> px = (if e = RightEdge then 0 else saturating_sub (width peer) 1),
          py = project cand_y (height src) (height peer) \<rparr>
      else
        \<lparr> px = project cand_x (width src) (width peer),
          py = (if e = BottomEdge then 0 else saturating_sub (height peer) 1) \<rparr>)"

text \<open>The overshot edges with a neighbour, in the order the code lists them, with the overshoot
  and the neighbour.\<close>
definition crossed_edges ::
  "virtual_layout \<Rightarrow> machine_id \<Rightarrow> screen \<Rightarrow> int \<Rightarrow> int \<Rightarrow> (edge \<times> int \<times> machine_id) list" where
  "crossed_edges l m scr cand_x cand_y =
     List.map_filter (\<lambda>c. case c of None \<Rightarrow> None
         | Some (e, over) \<Rightarrow> map_option (\<lambda>p. (e, over, p)) (neighbor l m e))
       [edge_overshoot cand_x (uint (width scr)) LeftEdge RightEdge,
        edge_overshoot cand_y (uint (height scr)) TopEdge BottomEdge]"

definition advance ::
  "virtual_layout \<Rightarrow> cursor_state \<Rightarrow> mouse_delta \<Rightarrow> (layout_error + advance_result) option" where
  "advance l cursor delta =
     (case layout_screen l (cursor_machine cursor) of
        None \<Rightarrow> Some (Inl (UnknownMachine (cursor_machine cursor)))
      | Some scr \<Rightarrow>
          let cand_x = uint (px (cursor_position cursor)) + sint (dx delta);
              cand_y = uint (py (cursor_position cursor)) + sint (dy delta);
              chosen = max_by_key (\<lambda>(_, over, _). over)
                         (crossed_edges l (cursor_machine cursor) scr cand_x cand_y)
          in case chosen of
               Some (e, _, peer) \<Rightarrow>
                 (case layout_screen l peer of
                    None \<Rightarrow> Some (Inl (UnknownMachine peer))
                  | Some peer_screen \<Rightarrow>
                      let entry = entry_point e peer_screen scr cand_x cand_y in
                      Some (Inr \<lparr> advance_cursor_state =
                                    \<lparr> cursor_machine = peer, cursor_position = entry \<rparr>,
                                  advance_crossing = Some \<lparr> crossing_peer = peer,
                                    crossing_entry = entry \<rparr> \<rparr>))
             | None \<Rightarrow> do {
                 x \<leftarrow> clamp cand_x 0 (uint (width scr) - 1);
                 y \<leftarrow> clamp cand_y 0 (uint (height scr) - 1);
                 Some (Inr \<lparr> advance_cursor_state =
                               \<lparr> cursor_machine = cursor_machine cursor,
                                 cursor_position = \<lparr> px = word_of_int x, py = word_of_int y \<rparr> \<rparr>,
                             advance_crossing = None \<rparr>)
               })"

section \<open>The invariant of a layout\<close>

text \<open>Every link starts and ends at a known machine.  The code's comment promises more, that
  links are symmetric; that is \<open>links_symmetric\<close>, which \<^const>\<open>link\<close> keeps only where it
  overwrites no other link.\<close>
definition layout_ok :: "virtual_layout \<Rightarrow> bool" where
  "layout_ok l \<longleftrightarrow>
     (\<forall>m e n. links l (m, e) = Some n \<longrightarrow> screens l m \<noteq> None \<and> screens l n \<noteq> None)"

definition links_symmetric :: "virtual_layout \<Rightarrow> bool" where
  "links_symmetric l \<longleftrightarrow>
     (\<forall>m e n. links l (m, e) = Some n \<longrightarrow> links l (n, opposite e) = Some m)"

definition screens_nonzero :: "virtual_layout \<Rightarrow> bool" where
  "screens_nonzero l \<longleftrightarrow> (\<forall>m s. screens l m = Some s \<longrightarrow> width s \<noteq> 0 \<and> height s \<noteq> 0)"

definition in_bounds :: "screen \<Rightarrow> point \<Rightarrow> bool" where
  "in_bounds s p \<longleftrightarrow> uint (px p) < uint (width s) \<and> uint (py p) < uint (height s)"

definition cursor_ok :: "virtual_layout \<Rightarrow> cursor_state \<Rightarrow> bool" where
  "cursor_ok l c \<longleftrightarrow> (\<exists>s. screens l (cursor_machine c) = Some s \<and> in_bounds s (cursor_position c))"

lemma layout_ok_new [inv_intros]: "layout_ok layout_new"
  by (simp add: layout_ok_def layout_new_def)

lemma layout_ok_add_machine [inv_intros]:
  "layout_ok l \<Longrightarrow> add_machine l m = Inr l' \<Longrightarrow> layout_ok l'"
  by (auto simp: layout_ok_def add_machine_def split: if_splits)

lemma layout_ok_link [inv_intros]: "layout_ok l \<Longrightarrow> link l a e b = Inr l' \<Longrightarrow> layout_ok l'"
  by (auto simp: layout_ok_def link_def split: if_splits)

lemma screens_link: "link l a e b = Inr l' \<Longrightarrow> screens l' = screens l"
  by (auto simp: link_def split: if_splits)

lemma neighbor_link:
  "link l a e b = Inr l' \<Longrightarrow>
   neighbor l' m e' = (if m = b \<and> e' = opposite e then Some a
                       else if m = a \<and> e' = e then Some b else neighbor l m e')"
  by (auto simp: link_def neighbor_def split: if_splits)

lemma links_symmetric_new [inv_intros]: "links_symmetric layout_new"
  by (simp add: links_symmetric_def layout_new_def)

lemma links_symmetric_add_machine [inv_intros]:
  "links_symmetric l \<Longrightarrow> add_machine l m = Inr l' \<Longrightarrow> links_symmetric l'"
  by (auto simp: links_symmetric_def add_machine_def split: if_splits)

lemma links_symmetric_link [inv_intros]:
  assumes "links_symmetric l" "link l a e b = Inr l'"
    and "neighbor l a e \<in> {None, Some b}" "neighbor l b (opposite e) \<in> {None, Some a}"
  shows "links_symmetric l'"
proof -
  have "neighbor l' n (opposite f) = Some m" if "neighbor l' m f = Some n" for m f n
  proof (cases "neighbor l m f = Some n")
    case True
    then have "neighbor l n (opposite f) = Some m"
      using assms(1) by (simp add: links_symmetric_def neighbor_def)
    then show ?thesis using assms(3,4) by (auto simp: neighbor_link [OF assms(2)])
  next
    case False
    then show ?thesis using that by (auto simp: neighbor_link [OF assms(2)] split: if_splits)
  qed
  then show ?thesis by (simp add: links_symmetric_def neighbor_def)
qed

section \<open>Projecting a coordinate\<close>

lemma u32_gt_1: "(w :: u32) > 1 \<longleftrightarrow> 1 < uint w"
  by (simp add: word_less_def)

lemma uint_project:
  assumes "1 < src" "dst \<noteq> 0"
  shows "uint (project c src dst) =
           max 0 (min (uint src - 1) c) * (uint dst - 1) div (uint src - 1)"
proof -
  have src: "0 < uint src - 1" and dst: "0 \<le> uint dst - 1"
    using assms by (simp_all add: u32_gt_1 u32_nonzero_uint int_one_le_iff_zero_less)
  let ?k = "max 0 (min (uint src - 1) c)"
  have k: "0 \<le> ?k" "?k \<le> uint src - 1" using src by auto
  have "?k * (uint dst - 1) div (uint src - 1) \<le> (uint src - 1) * (uint dst - 1) div (uint src - 1)"
    using k dst src by (intro zdiv_mono1 mult_right_mono) auto
  also have "\<dots> = uint dst - 1" using src by simp
  also have "\<dots> < 4294967296" using uint_u32_upper [of dst] by linarith
  finally have "?k * (uint dst - 1) div (uint src - 1) < 4294967296" .
  moreover have "0 \<le> ?k * (uint dst - 1) div (uint src - 1)"
    using k dst src by (simp add: pos_imp_zdiv_nonneg_iff)
  ultimately show ?thesis
    using assms by (simp add: project_def Let_def uint_word_of_int_u32 not_le)
qed

lemma project_less:
  assumes "dst \<noteq> 0"
  shows "uint (project c src dst) < uint dst"
proof (cases "1 < src")
  case True
  then have src: "0 < uint src - 1" and dst: "0 \<le> uint dst - 1"
    using assms by (simp_all add: u32_gt_1 u32_nonzero_uint int_one_le_iff_zero_less)
  let ?k = "max 0 (min (uint src - 1) c)"
  have "?k * (uint dst - 1) div (uint src - 1) \<le> (uint src - 1) * (uint dst - 1) div (uint src - 1)"
    using dst src by (intro zdiv_mono1 mult_right_mono) auto
  also have "\<dots> = uint dst - 1" using src by simp
  finally show ?thesis using True assms by (simp add: uint_project)
next
  case False
  then show ?thesis using assms by (simp add: project_def not_less u32_nonzero_uint)
qed

lemma project_mono:
  assumes "c \<le> d"
  shows "uint (project c src dst) \<le> uint (project d src dst)"
proof (cases "1 < src \<and> dst \<noteq> 0")
  case True
  then have src: "0 < uint src - 1" and dst: "0 \<le> uint dst - 1"
    by (simp_all add: u32_gt_1 u32_nonzero_uint int_one_le_iff_zero_less)
  have "max 0 (min (uint src - 1) c) \<le> max 0 (min (uint src - 1) d)" using assms by auto
  then show ?thesis
    using True src dst by (simp add: uint_project zdiv_mono1 mult_right_mono)
next
  case False
  then show ?thesis by (auto simp: project_def)
qed

lemma project_ends:
  assumes "1 < src" "dst \<noteq> 0"
  shows "uint (project 0 src dst) = 0" "uint (project (uint src - 1) src dst) = uint dst - 1"
  using assms by (auto simp: uint_project u32_gt_1)

section \<open>How far past each edge\<close>

text \<open>The signed distance past an edge: positive when the candidate position lies beyond it.\<close>
fun overshoot :: "screen \<Rightarrow> int \<Rightarrow> int \<Rightarrow> edge \<Rightarrow> int" where
  "overshoot s x y LeftEdge = - x"
| "overshoot s x y RightEdge = x - (uint (width s) - 1)"
| "overshoot s x y TopEdge = - y"
| "overshoot s x y BottomEdge = y - (uint (height s) - 1)"

lemma edge_overshoot_horizontal:
  "edge_overshoot x (uint (width s)) LeftEdge RightEdge = Some (e, k) \<longleftrightarrow>
   is_horizontal e \<and> k = overshoot s x y e \<and> 0 < k"
  by (cases e) (auto simp: edge_overshoot_def is_horizontal_def dest: order.trans [OF uint_ge_0])

lemma edge_overshoot_vertical:
  "edge_overshoot y (uint (height s)) TopEdge BottomEdge = Some (e, k) \<longleftrightarrow>
   \<not> is_horizontal e \<and> k = overshoot s x y e \<and> 0 < k"
  by (cases e) (auto simp: edge_overshoot_def is_horizontal_def dest: order.trans [OF uint_ge_0])

lemma in_set_crossed_edges:
  "(e, k, p) \<in> set (crossed_edges l m s x y) \<longleftrightarrow>
   k = overshoot s x y e \<and> 0 < k \<and> neighbor l m e = Some p"
proof -
  have "(e, k, p) \<in> set (crossed_edges l m s x y) \<longleftrightarrow>
        neighbor l m e = Some p \<and>
        (edge_overshoot x (uint (width s)) LeftEdge RightEdge = Some (e, k) \<or>
         edge_overshoot y (uint (height s)) TopEdge BottomEdge = Some (e, k))"
    by (auto simp: crossed_edges_def List.map_filter_def split: option.splits if_splits)
  then show ?thesis
    by (auto simp: edge_overshoot_horizontal [where y = y] edge_overshoot_vertical [where x = x])
qed

lemma crossed_edges_Nil_iff:
  "crossed_edges l m s x y = [] \<longleftrightarrow> (\<forall>e. 0 < overshoot s x y e \<longrightarrow> neighbor l m e = None)"
proof -
  have "crossed_edges l m s x y = [] \<longleftrightarrow> (\<forall>e k p. (e, k, p) \<notin> set (crossed_edges l m s x y))"
    by (metis list.set_intros(1) list.set(1) empty_iff neq_Nil_conv prod_cases3)
  then show ?thesis by (auto simp: in_set_crossed_edges)
qed

section \<open>A specification of the cursor's movement\<close>

text \<open>Where the candidate point lies, as a pair of integers.\<close>
definition candidate :: "cursor_state \<Rightarrow> mouse_delta \<Rightarrow> int \<times> int" where
  "candidate c d = (uint (px (cursor_position c)) + sint (dx d),
                    uint (py (cursor_position c)) + sint (dy d))"

text \<open>The movement leaves the screen of \<open>m\<close> across \<open>e\<close>, onto \<open>p\<close>: of the edges the
  candidate lies beyond and that have a neighbour, \<open>e\<close> is one it lies furthest beyond.\<close>
definition leaves_across ::
  "virtual_layout \<Rightarrow> machine_id \<Rightarrow> screen \<Rightarrow> int \<times> int \<Rightarrow> edge \<Rightarrow> machine_id \<Rightarrow> bool" where
  "leaves_across l m s xy e p \<longleftrightarrow>
     0 < overshoot s (fst xy) (snd xy) e \<and> neighbor l m e = Some p \<and>
     (\<forall>e'. 0 < overshoot s (fst xy) (snd xy) e' \<and> neighbor l m e' \<noteq> None \<longrightarrow>
           overshoot s (fst xy) (snd xy) e' \<le> overshoot s (fst xy) (snd xy) e)"

definition stays ::
  "virtual_layout \<Rightarrow> machine_id \<Rightarrow> screen \<Rightarrow> int \<times> int \<Rightarrow> bool" where
  "stays l m s xy \<longleftrightarrow> (\<forall>e. 0 < overshoot s (fst xy) (snd xy) e \<longrightarrow> neighbor l m e = None)"

text \<open>A point lies on an edge of a screen.\<close>
fun on_edge :: "screen \<Rightarrow> edge \<Rightarrow> point \<Rightarrow> bool" where
  "on_edge s LeftEdge p \<longleftrightarrow> uint (px p) = 0"
| "on_edge s RightEdge p \<longleftrightarrow> uint (px p) = uint (width s) - 1"
| "on_edge s TopEdge p \<longleftrightarrow> uint (py p) = 0"
| "on_edge s BottomEdge p \<longleftrightarrow> uint (py p) = uint (height s) - 1"

lemma chosen_Some:
  assumes "max_by_key (\<lambda>(_, over, _). over) (crossed_edges l m s x y) = Some (e, k, p)"
  shows "leaves_across l m s (x, y) e p" "k = overshoot s x y e"
proof -
  have mem: "(e, k, p) \<in> set (crossed_edges l m s x y)" by (rule max_by_key_mem [OF assms])
  then show k: "k = overshoot s x y e" by (simp add: in_set_crossed_edges)
  have "overshoot s x y e' \<le> k" if "0 < overshoot s x y e'" "neighbor l m e' = Some q" for e' q
    using max_by_key_ge [OF assms, of "(e', overshoot s x y e', q)"] that
    by (simp add: in_set_crossed_edges)
  with mem k show "leaves_across l m s (x, y) e p"
    by (auto simp: leaves_across_def in_set_crossed_edges)
qed

lemma chosen_None:
  "max_by_key (\<lambda>(_, over, _). over) (crossed_edges l m s x y) = None \<longleftrightarrow> stays l m s (x, y)"
  by (simp add: stays_def crossed_edges_Nil_iff)

lemma leaves_not_stays: "leaves_across l m s xy e p \<Longrightarrow> \<not> stays l m s xy"
  by (auto simp: leaves_across_def stays_def)

lemma entry_point_on_edge:
  assumes "width peer \<noteq> 0" "height peer \<noteq> 0"
  shows "in_bounds peer (entry_point e peer s x y)"
    "on_edge peer (opposite e) (entry_point e peer s x y)"
  using assms
  by (cases e; simp add: entry_point_def is_horizontal_def in_bounds_def project_less
      uint_saturating_sub_1 u32_nonzero_uint)+

section \<open>\<open>advance\<close> against the specification\<close>

lemma advance_unknown:
  "screens l (cursor_machine c) = None \<Longrightarrow>
   advance l c d = Some (Inl (UnknownMachine (cursor_machine c)))"
  by (simp add: advance_def layout_screen_def)

lemma advance_leaves:
  assumes "layout_ok l" "screens l (cursor_machine c) = Some s"
    and "\<not> stays l (cursor_machine c) s (candidate c d)"
  obtains e p ps where "leaves_across l (cursor_machine c) s (candidate c d) e p"
    "screens l p = Some ps"
    "advance l c d = Some (Inr \<lparr>
       advance_cursor_state = \<lparr> cursor_machine = p, cursor_position =
         entry_point e ps s (fst (candidate c d)) (snd (candidate c d)) \<rparr>,
       advance_crossing = Some \<lparr> crossing_peer = p, crossing_entry =
         entry_point e ps s (fst (candidate c d)) (snd (candidate c d)) \<rparr> \<rparr>)"
proof -
  obtain x y where xy: "candidate c d = (x, y)" by (cases "candidate c d")
  obtain e k p where ch:
    "max_by_key (\<lambda>(_, over, _). over) (crossed_edges l (cursor_machine c) s x y) = Some (e, k, p)"
    using assms(3) chosen_None [of l "cursor_machine c" s x y] xy
    by (metis not_Some_eq prod_cases3)
  have leaves: "leaves_across l (cursor_machine c) s (x, y) e p" by (rule chosen_Some(1) [OF ch])
  then have "screens l p \<noteq> None"
    using assms(1) unfolding leaves_across_def neighbor_def layout_ok_def by blast
  then obtain ps where ps: "screens l p = Some ps" by auto
  show thesis
  proof (rule that [of e p ps])
    show "leaves_across l (cursor_machine c) s (candidate c d) e p" using leaves xy by simp
    show "screens l p = Some ps" by (rule ps)
    show "advance l c d = Some (Inr \<lparr>
       advance_cursor_state = \<lparr> cursor_machine = p, cursor_position =
         entry_point e ps s (fst (candidate c d)) (snd (candidate c d)) \<rparr>,
       advance_crossing = Some \<lparr> crossing_peer = p, crossing_entry =
         entry_point e ps s (fst (candidate c d)) (snd (candidate c d)) \<rparr> \<rparr>)"
      using assms(2) xy ch ps by (simp add: advance_def layout_screen_def candidate_def Let_def)
  qed
qed

lemma advance_stays:
  assumes "screens l (cursor_machine c) = Some s"
    and "stays l (cursor_machine c) s (candidate c d)"
    and "width s \<noteq> 0" "height s \<noteq> 0"
  shows "advance l c d = Some (Inr \<lparr>
     advance_cursor_state = \<lparr> cursor_machine = cursor_machine c, cursor_position =
       \<lparr> px = word_of_int (max 0 (min (uint (width s) - 1) (fst (candidate c d)))),
         py = word_of_int (max 0 (min (uint (height s) - 1) (snd (candidate c d)))) \<rparr> \<rparr>,
     advance_crossing = None \<rparr>)"
proof -
  obtain x y where xy: "candidate c d = (x, y)" by (cases "candidate c d")
  have "max_by_key (\<lambda>(_, over, _). over) (crossed_edges l (cursor_machine c) s x y) = None"
    using assms(2) xy chosen_None by metis
  moreover have "0 \<le> uint (width s) - 1" "0 \<le> uint (height s) - 1"
    using assms(3,4) by (simp_all add: u32_nonzero_uint int_one_le_iff_zero_less)
  ultimately show ?thesis
    using assms(1) xy
    by (simp add: advance_def layout_screen_def candidate_def Let_def clamp_def)
qed

lemma advance_panics:
  assumes "screens l (cursor_machine c) = Some s"
    and "stays l (cursor_machine c) s (candidate c d)"
    and "width s = 0 \<or> height s = 0"
  shows "advance l c d = None"
proof -
  obtain x y where xy: "candidate c d = (x, y)" by (cases "candidate c d")
  have "max_by_key (\<lambda>(_, over, _). over) (crossed_edges l (cursor_machine c) s x y) = None"
    using assms(2) xy chosen_None by metis
  with assms(1,3) xy show ?thesis
    by (auto simp: advance_def layout_screen_def candidate_def Let_def clamp_def
        split: option.splits bind_splits)
qed

lemma clamped_in_bounds:
  assumes "width s \<noteq> 0" "height s \<noteq> 0"
  shows "in_bounds s \<lparr> px = word_of_int (max 0 (min (uint (width s) - 1) x)),
                       py = word_of_int (max 0 (min (uint (height s) - 1) y)) \<rparr>"
proof -
  have *: "uint (word_of_int (max 0 (min (uint w - 1) k)) :: u32) < uint w" if "w \<noteq> 0"
    for w :: u32 and k
  proof -
    have "0 \<le> uint w - 1" using that by (simp add: u32_nonzero_uint int_one_le_iff_zero_less)
    moreover have "uint w < 4294967296" by (rule uint_u32_less)
    ultimately show ?thesis by (subst uint_word_of_int_u32) auto
  qed
  show ?thesis using assms by (simp add: in_bounds_def *)
qed

text \<open>What a movement promises: the cursor stays within a screen of the layout; with no crossing it
  stays on its machine; a crossing enters the neighbour across an edge on the opposite edge.\<close>
definition moves_well :: "virtual_layout \<Rightarrow> cursor_state \<Rightarrow> advance_result \<Rightarrow> bool" where
  "moves_well l c a \<longleftrightarrow> cursor_ok l (advance_cursor_state a) \<and>
    (advance_crossing a = None \<longrightarrow> cursor_machine (advance_cursor_state a) = cursor_machine c) \<and>
    (\<forall>k. advance_crossing a = Some k \<longrightarrow>
       crossing_peer k = cursor_machine (advance_cursor_state a) \<and>
       crossing_entry k = cursor_position (advance_cursor_state a) \<and>
       (\<exists>e ps. neighbor l (cursor_machine c) e = Some (crossing_peer k) \<and>
          screens l (crossing_peer k) = Some ps \<and> on_edge ps (opposite e) (crossing_entry k)))"

lemma advance_ok:
  assumes "layout_ok l" "screens_nonzero l" "screens l (cursor_machine c) \<noteq> None"
  shows "\<exists>a. advance l c d = Some (Inr a) \<and> moves_well l c a"
proof -
  obtain s where s: "screens l (cursor_machine c) = Some s" using assms(3) by auto
  have nz: "width s \<noteq> 0" "height s \<noteq> 0" using assms(2) s by (auto simp: screens_nonzero_def)
  show ?thesis
  proof (cases "stays l (cursor_machine c) s (candidate c d)")
    case True
    show ?thesis
      by (rule exI, rule conjI, rule advance_stays [OF s True nz])
        (use s nz clamped_in_bounds in \<open>simp add: moves_well_def cursor_ok_def\<close>)
  next
    case False
    obtain e p ps where e: "leaves_across l (cursor_machine c) s (candidate c d) e p"
      and ps: "screens l p = Some ps" and a: "advance l c d = Some (Inr \<lparr>
       advance_cursor_state = \<lparr> cursor_machine = p, cursor_position =
         entry_point e ps s (fst (candidate c d)) (snd (candidate c d)) \<rparr>,
       advance_crossing = Some \<lparr> crossing_peer = p, crossing_entry =
         entry_point e ps s (fst (candidate c d)) (snd (candidate c d)) \<rparr> \<rparr>)"
      by (rule advance_leaves [OF assms(1) s False])
    have "width ps \<noteq> 0" "height ps \<noteq> 0" using assms(2) ps by (auto simp: screens_nonzero_def)
    note entry = entry_point_on_edge [OF this]
    have "neighbor l (cursor_machine c) e = Some p" using e by (simp add: leaves_across_def)
    then show ?thesis
      by - (rule exI, rule conjI, rule a,
        use ps entry in \<open>auto simp: moves_well_def cursor_ok_def\<close>)
  qed
qed

lemma advance_outcomes:
  assumes "layout_ok l" "screens l (cursor_machine c) \<noteq> None"
  obtains (panic) "advance l c d = None"
  | (moved) a s where "advance l c d = Some (Inr a)"
      "screens l (cursor_machine (advance_cursor_state a)) = Some s"
      "width s \<noteq> 0 \<Longrightarrow> height s \<noteq> 0 \<Longrightarrow> in_bounds s (cursor_position (advance_cursor_state a))"
      "case advance_crossing a of
         None \<Rightarrow> cursor_machine (advance_cursor_state a) = cursor_machine c
       | Some k \<Rightarrow> crossing_peer k = cursor_machine (advance_cursor_state a) \<and>
           crossing_entry k = cursor_position (advance_cursor_state a)"
proof -
  obtain s where s: "screens l (cursor_machine c) = Some s" using assms(2) by auto
  show thesis
  proof (cases "stays l (cursor_machine c) s (candidate c d)")
    case True
    show thesis
    proof (cases "width s = 0 \<or> height s = 0")
      case True
      show thesis
        by (rule panic, rule advance_panics [OF s \<open>stays l (cursor_machine c) s (candidate c d)\<close> True])
    next
      case False
      then have nz: "width s \<noteq> 0" "height s \<noteq> 0" by auto
      show thesis
        by (rule moved [OF advance_stays [OF s True nz], of s])
          (use s clamped_in_bounds [OF nz] in simp_all)
    qed
  next
    case False
    obtain e p ps where ps: "screens l p = Some ps" and a: "advance l c d = Some (Inr \<lparr>
       advance_cursor_state = \<lparr> cursor_machine = p, cursor_position =
         entry_point e ps s (fst (candidate c d)) (snd (candidate c d)) \<rparr>,
       advance_crossing = Some \<lparr> crossing_peer = p, crossing_entry =
         entry_point e ps s (fst (candidate c d)) (snd (candidate c d)) \<rparr> \<rparr>)"
      by (rule advance_leaves [OF assms(1) s False])
    show thesis
      by (rule moved [OF a, of ps]) (use ps entry_point_on_edge(1) in simp_all)
  qed
qed

text \<open>A whole sequence of movements, stopping at the first error or panic.\<close>
fun advance_all ::
  "virtual_layout \<Rightarrow> cursor_state \<Rightarrow> mouse_delta list \<Rightarrow> (layout_error + cursor_state) option" where
  "advance_all l c [] = Some (Inr c)"
| "advance_all l c (d # ds) =
     (case advance l c d of
        None \<Rightarrow> None
      | Some (Inl e) \<Rightarrow> Some (Inl e)
      | Some (Inr a) \<Rightarrow> advance_all l (advance_cursor_state a) ds)"

lemma cursor_ok_known: "cursor_ok l c \<Longrightarrow> screens l (cursor_machine c) \<noteq> None"
  by (auto simp: cursor_ok_def)

lemma advance_all_ok:
  assumes "layout_ok l" "screens_nonzero l" "cursor_ok l c"
  shows "\<exists>c'. advance_all l c ds = Some (Inr c') \<and> cursor_ok l c'"
  using assms(3)
proof (induction ds arbitrary: c)
  case Nil
  then show ?case by simp
next
  case (Cons d ds)
  obtain a where "advance l c d = Some (Inr a)" "cursor_ok l (advance_cursor_state a)"
    using advance_ok [OF assms(1,2) cursor_ok_known [OF Cons.prems], of d]
    by (auto simp: moves_well_def)
  then show ?case using Cons.IH by simp
qed

section \<open>The layout store\<close>

text \<open>The \<^verbatim>\<open>LayoutStore\<close> port: what was saved is what is loaded.\<close>
locale layout_store =
  fixes load :: "'s \<Rightarrow> 'e + virtual_layout"
    and save :: "'s \<Rightarrow> virtual_layout \<Rightarrow> 'e + 's"
  assumes load_save: "save s l = Inr s' \<Longrightarrow> load s' = Inr l"
begin

lemma save_replaces: "save s l = Inr s' \<Longrightarrow> save s' l' = Inr s'' \<Longrightarrow> load s'' = Inr l'"
  by (rule load_save)

end

datatype no_layout_stored = NoLayoutStored

record in_memory_layout_store =
  stored_layout :: "virtual_layout option"

definition layout_store_load ::
  "in_memory_layout_store \<Rightarrow> no_layout_stored + virtual_layout" where
  "layout_store_load st = (case stored_layout st of Some l \<Rightarrow> Inr l | None \<Rightarrow> Inl NoLayoutStored)"

definition layout_store_save ::
  "in_memory_layout_store \<Rightarrow> virtual_layout \<Rightarrow> no_layout_stored + in_memory_layout_store" where
  "layout_store_save st l = Inr (st \<lparr> stored_layout := Some l \<rparr>)"

interpretation memory_layouts: layout_store layout_store_load layout_store_save
  by unfold_locales (auto simp: layout_store_load_def layout_store_save_def)

section \<open>Properties\<close>

text \<open>On a layout whose links join known machines and whose screens are not empty, no sequence
  of movements makes the cursor leave the desktop: every step returns (no error, no panic) with
  the cursor inside the screen of a machine of the layout, on the same machine when nothing was
  crossed, and otherwise on the neighbour across one of the machine's edges, at the opposite
  edge.\<close>
theorem advance_keeps_cursor:
  assumes "layout_ok l" "screens_nonzero l" "cursor_ok l c"
  shows "\<exists>c'. advance_all l c ds = Some (Inr c') \<and> cursor_ok l c' \<and>
    (\<forall>d. \<exists>a. advance l c' d = Some (Inr a) \<and> moves_well l c' a)"
proof -
  obtain c' where c': "advance_all l c ds = Some (Inr c')" "cursor_ok l c'"
    using advance_all_ok [OF assms] by blast
  then show ?thesis using advance_ok [OF assms(1,2) cursor_ok_known [OF c'(2)]] by blast
qed

definition demo_layout :: virtual_layout where
  "demo_layout =
     \<lparr> screens = [MachineId 1 \<mapsto> \<lparr> width = 1512, height = 982 \<rparr>,
                  MachineId 2 \<mapsto> \<lparr> width = 3840, height = 2160 \<rparr>],
       links = [(MachineId 1, RightEdge) \<mapsto> MachineId 2, (MachineId 2, LeftEdge) \<mapsto> MachineId 1] \<rparr>"

lemma demo_layout_ok: "layout_ok demo_layout" "screens_nonzero demo_layout"
  by (auto simp: demo_layout_def layout_ok_def screens_nonzero_def split: if_splits)

lemma advance_keeps_cursor_witness:
  "\<exists>c'. advance_all demo_layout
     \<lparr> cursor_machine = MachineId 1, cursor_position = \<lparr> px = 1500, py = 300 \<rparr> \<rparr>
     [\<lparr> dx = 40, dy = - 7 \<rparr>, \<lparr> dx = - 90, dy = 2000 \<rparr>] = Some (Inr c') \<and> cursor_ok demo_layout c'"
proof -
  have "cursor_ok demo_layout \<lparr> cursor_machine = MachineId 1, cursor_position = \<lparr> px = 1500, py = 300 \<rparr> \<rparr>"
    by (simp add: demo_layout_def cursor_ok_def in_bounds_def)
  from advance_keeps_cursor [OF demo_layout_ok this] show ?thesis by blast
qed



text \<open>C0. \<^verbatim>\<open>advance\<close> panics exactly when the cursor stays on a screen of width or height zero: no
  other state makes it fail to return.  Nothing in the handshake keeps a peer from announcing such
  a screen.\<close>
theorem advance_panics_iff:
  assumes "layout_ok l"
  shows "advance l c d = None \<longleftrightarrow>
    (\<exists>s. screens l (cursor_machine c) = Some s \<and> (width s = 0 \<or> height s = 0) \<and>
         stays l (cursor_machine c) s (candidate c d))"
proof (cases "screens l (cursor_machine c)")
  case None
  then show ?thesis by (simp add: advance_unknown)
next
  case (Some s)
  show ?thesis
  proof (cases "stays l (cursor_machine c) s (candidate c d)")
    case True
    show ?thesis
    proof (cases "width s = 0 \<or> height s = 0")
      case z: True
      then show ?thesis using advance_panics [OF Some True z] Some True by auto
    next
      case nz: False
      then have "advance l c d \<noteq> None" using advance_stays [OF Some True] by simp
      then show ?thesis using nz Some by auto
    qed
  next
    case False
    then have "advance l c d \<noteq> None"
      by (rule advance_leaves [OF assms Some]) auto
    then show ?thesis using False Some by auto
  qed
qed

lemma advance_panics_iff_witness:
  "advance \<lparr> screens = [MachineId 7 \<mapsto> \<lparr> width = 0, height = 900 \<rparr>], links = Map.empty \<rparr>
     \<lparr> cursor_machine = MachineId 7, cursor_position = \<lparr> px = 0, py = 0 \<rparr> \<rparr> \<lparr> dx = 1, dy = 0 \<rparr> = None"
  by (subst advance_panics_iff) (simp_all add: layout_ok_def stays_def neighbor_def)

text \<open>Along the shared edge the cursor keeps its relative place: the projection stays inside
  the neighbour's edge, is monotone, and maps the two ends onto the two ends.\<close>
theorem project_onto_edge:
  assumes "1 < src" "dst \<noteq> 0"
  shows "uint (project c src dst) < uint dst \<and>
    (c \<le> d \<longrightarrow> uint (project c src dst) \<le> uint (project d src dst)) \<and>
    uint (project 0 src dst) = 0 \<and> uint (project (uint src - 1) src dst) = uint dst - 1"
  using project_less [OF assms(2), of c src] project_mono [of c d src dst] project_ends [OF assms]
  by blast

lemma project_onto_edge_witness:
  "uint (project 300 982 2160) < 2160 \<and> uint (project 300 982 2160) \<le> uint (project 301 982 2160)"
  using project_onto_edge [of 982 2160 300 301] by simp

text \<open>Linking needs both machines, and afterwards each of the two is the other's neighbour
  across the given edge and its opposite, with every other edge as it was; links keep the layout
  well formed, and symmetric when neither edge led elsewhere before.\<close>
theorem link_joins:
  assumes "link l a e b = Inr l'"
  shows "screens l a \<noteq> None \<and> screens l b \<noteq> None \<and> screens l' = screens l \<and>
    neighbor l' b (opposite e) = Some a \<and> (neighbor l' a e = Some b) \<and>
    (\<forall>m f. (m, f) \<notin> {(a, e), (b, opposite e)} \<longrightarrow> neighbor l' m f = neighbor l m f) \<and>
    (layout_ok l \<longrightarrow> layout_ok l') \<and>
    (links_symmetric l \<and> neighbor l a e \<in> {None, Some b} \<and>
       neighbor l b (opposite e) \<in> {None, Some a} \<longrightarrow> links_symmetric l')"
proof -
  have "screens l a \<noteq> None \<and> screens l b \<noteq> None"
    using assms by (auto simp: link_def split: if_splits)
  moreover have "neighbor l' b (opposite e) = Some a \<and> neighbor l' a e = Some b"
    by (auto simp: neighbor_link [OF assms])
  moreover have "\<forall>m f. (m, f) \<notin> {(a, e), (b, opposite e)} \<longrightarrow> neighbor l' m f = neighbor l m f"
    by (auto simp: neighbor_link [OF assms])
  ultimately show ?thesis
    using layout_ok_link [OF _ assms] links_symmetric_link [OF _ assms] screens_link [OF assms] by blast
qed

lemma link_joins_witness:
  "neighbor (case link \<lparr> screens = screens demo_layout, links = Map.empty \<rparr>
       (MachineId 1) TopEdge (MachineId 2) of Inr l \<Rightarrow> l | Inl _ \<Rightarrow> layout_new)
     (MachineId 2) BottomEdge = Some (MachineId 1)"
proof -
  obtain l where l: "link \<lparr> screens = screens demo_layout, links = Map.empty \<rparr>
      (MachineId 1) TopEdge (MachineId 2) = Inr l"
    by (simp add: link_def demo_layout_def)
  from link_joins [OF l] show ?thesis by (simp add: l)
qed

text \<open>The comment on the link map says it is kept symmetric.  Placing a second machine at an
  edge that is already taken breaks that: the machine that was there still leads back to the
  first one, which no longer leads to it.\<close>
theorem relink_breaks_symmetry:
  assumes "link l a e b = Inr l1" "link l1 a e c = Inr l2" "b \<noteq> c" "a \<noteq> b"
  shows "neighbor l2 a e = Some c \<and> neighbor l2 b (opposite e) = Some a \<and> \<not> links_symmetric l2"
proof -
  have ae: "neighbor l2 a e = Some c" and be: "neighbor l2 b (opposite e) = Some a"
    using assms(3,4) by (auto simp: neighbor_link [OF assms(2)] neighbor_link [OF assms(1)])
  moreover have "\<not> links_symmetric l2"
    using ae be assms(3) unfolding links_symmetric_def neighbor_def
    by (metis opposite_opposite option.inject)
  ultimately show ?thesis by blast
qed

lemma relink_breaks_symmetry_witness:
  "\<exists>l l1 l2. link l (MachineId 1) RightEdge (MachineId 2) = Inr l1 \<and>
     link l1 (MachineId 1) RightEdge (MachineId 3) = Inr l2 \<and> \<not> links_symmetric l2"
proof -
  define l where "l = \<lparr> screens = (\<lambda>_. Some \<lparr> width = 10, height = 10 \<rparr>), links = Map.empty \<rparr>"
  obtain l1 where l1: "link l (MachineId 1) RightEdge (MachineId 2) = Inr l1"
    by (simp add: l_def link_def)
  obtain l2 where l2: "link l1 (MachineId 1) RightEdge (MachineId 3) = Inr l2"
    using screens_link [OF l1] by (simp add: l_def link_def)
  from relink_breaks_symmetry [OF l1 l2] l1 l2 show ?thesis by auto
qed

end
