(* ===== verification/Session.thy ===== *)
theory Session
  imports Layout
begin

text \<open>
  \<^verbatim>\<open>crates/omni-session\<close>: sessions, roles and the manager that owns them
  (\<^verbatim>\<open>session.rs\<close>), and the port through which it tells the outside world what changed
  (\<^verbatim>\<open>events.rs\<close>).  The manager is generic over its event sink, as in the source: the
  operations take the sink's \<open>emit\<close>.  The locale \<open>session_sink\<close> is the contract of that port;
  inside it the manager's state is shown to be a function of the events it emitted.
\<close>

section \<open>State\<close>

datatype role = Controller | Target

fun reversed :: "role \<Rightarrow> role" where
  "reversed Controller = Target"
| "reversed Target = Controller"

record session =
  session_id :: session_id
  session_peer :: machine_id
  session_role :: role

datatype active_target = Local | Remote machine_id

datatype session_error =
    DuplicateSession session_id
  | PeerAlreadyConnected machine_id
  | UnknownSession session_id
  | NoSessionForPeer machine_id

datatype session_event =
    Established session_id machine_id role
  | Closed session_id
  | RoleChanged session_id role
  | ActiveTargetChanged active_target

record 'e session_manager =
  sm_local :: machine_id
  sm_sessions :: "session_id \<rightharpoonup> session"
  sm_by_peer :: "machine_id \<rightharpoonup> session_id"
  sm_active :: active_target
  sm_events :: 'e

section \<open>Operations\<close>

definition manager_new :: "machine_id \<Rightarrow> 'e \<Rightarrow> 'e session_manager" where
  "manager_new loc ev = \<lparr> sm_local = loc, sm_sessions = Map.empty, sm_by_peer = Map.empty,
     sm_active = Local, sm_events = ev \<rparr>"

definition session_for_peer :: "'e session_manager \<Rightarrow> machine_id \<Rightarrow> session option" where
  "session_for_peer m peer = Option.bind (sm_by_peer m peer) (sm_sessions m)"

definition emit_event ::
  "('e \<Rightarrow> session_event \<Rightarrow> 'e) \<Rightarrow> session_event \<Rightarrow> 'e session_manager \<Rightarrow> 'e session_manager" where
  "emit_event emit ev m = m \<lparr> sm_events := emit (sm_events m) ev \<rparr>"

definition set_active ::
  "('e \<Rightarrow> session_event \<Rightarrow> 'e) \<Rightarrow> active_target \<Rightarrow> 'e session_manager \<Rightarrow> 'e session_manager" where
  "set_active emit target m =
     (if sm_active m \<noteq> target
      then emit_event emit (ActiveTargetChanged target) (m \<lparr> sm_active := target \<rparr>)
      else m)"

definition establish ::
  "('e \<Rightarrow> session_event \<Rightarrow> 'e) \<Rightarrow> session_id \<Rightarrow> machine_id \<Rightarrow> role \<Rightarrow> 'e session_manager \<Rightarrow>
   session_error + 'e session_manager" where
  "establish emit sid peer r m =
     (if sm_sessions m sid \<noteq> None then Inl (DuplicateSession sid)
      else if sm_by_peer m peer \<noteq> None then Inl (PeerAlreadyConnected peer)
      else Inr (emit_event emit (Established sid peer r)
             (m \<lparr> sm_sessions := (sm_sessions m)(sid \<mapsto>
                    \<lparr> session_id = sid, session_peer = peer, session_role = r \<rparr>),
                  sm_by_peer := (sm_by_peer m)(peer \<mapsto> sid) \<rparr>)))"

definition session_close ::
  "('e \<Rightarrow> session_event \<Rightarrow> 'e) \<Rightarrow> session_id \<Rightarrow> 'e session_manager \<Rightarrow>
   session_error + 'e session_manager" where
  "session_close emit sid m =
     (case sm_sessions m sid of
        None \<Rightarrow> Inl (UnknownSession sid)
      | Some s \<Rightarrow>
          let m = m \<lparr> sm_sessions := (sm_sessions m)(sid := None),
                      sm_by_peer := (sm_by_peer m)(session_peer s := None) \<rparr>;
              m = (if sm_active m = Remote (session_peer s) then set_active emit Local m else m)
          in Inr (emit_event emit (Closed sid) m))"

definition reverse_role ::
  "('e \<Rightarrow> session_event \<Rightarrow> 'e) \<Rightarrow> session_id \<Rightarrow> 'e session_manager \<Rightarrow>
   session_error + role \<times> 'e session_manager" where
  "reverse_role emit sid m =
     (case sm_sessions m sid of
        None \<Rightarrow> Inl (UnknownSession sid)
      | Some s \<Rightarrow>
          let r = reversed (session_role s);
              m = m \<lparr> sm_sessions := (sm_sessions m)(sid \<mapsto> s \<lparr> session_role := r \<rparr>) \<rparr>
          in Inr (r, emit_event emit (RoleChanged sid r) m))"

definition yield_control ::
  "('e \<Rightarrow> session_event \<Rightarrow> 'e) \<Rightarrow> 'e session_manager \<Rightarrow> bool \<times> 'e session_manager" where
  "yield_control emit m = (sm_active m \<noteq> Local, set_active emit Local m)"

definition follow_peer ::
  "('e \<Rightarrow> session_event \<Rightarrow> 'e) \<Rightarrow> machine_id \<Rightarrow> 'e session_manager \<Rightarrow>
   session_error + 'e session_manager" where
  "follow_peer emit peer m =
     (if sm_by_peer m peer = None then Inl (NoSessionForPeer peer)
      else Inr (set_active emit (Remote peer) m))"

definition handle_crossing ::
  "('e \<Rightarrow> session_event \<Rightarrow> 'e) \<Rightarrow> crossing \<Rightarrow> 'e session_manager \<Rightarrow>
   session_error + 'e session_manager" where
  "handle_crossing emit c m =
     (if crossing_peer c = sm_local m then Inr (set_active emit Local m)
      else if sm_by_peer m (crossing_peer c) = None then Inl (NoSessionForPeer (crossing_peer c))
      else Inr (set_active emit (Remote (crossing_peer c)) m))"

section \<open>The manager's invariant\<close>

text \<open>The two indexes describe the same set of sessions, each peer has at most one, and input
  only ever goes to a peer with a session.\<close>
definition session_ok :: "'e session_manager \<Rightarrow> bool" where
  "session_ok m \<longleftrightarrow>
     (\<forall>sid s. sm_sessions m sid = Some s \<longrightarrow>
        session_id s = sid \<and> sm_by_peer m (session_peer s) = Some sid) \<and>
     (\<forall>p sid. sm_by_peer m p = Some sid \<longrightarrow>
        (\<exists>s. sm_sessions m sid = Some s \<and> session_peer s = p)) \<and>
     (\<forall>p. sm_active m = Remote p \<longrightarrow> sm_by_peer m p \<noteq> None)"

lemma session_okD:
  assumes "session_ok m"
  shows "sm_sessions m sid = Some s \<Longrightarrow> session_id s = sid"
    "sm_sessions m sid = Some s \<Longrightarrow> sm_by_peer m (session_peer s) = Some sid"
    "sm_by_peer m p = Some sid \<Longrightarrow> \<exists>s. sm_sessions m sid = Some s \<and> session_peer s = p"
    "sm_active m = Remote p \<Longrightarrow> \<exists>sid. sm_by_peer m p = Some sid"
  using assms by (auto simp: session_ok_def)

lemma set_active_fields [simp]:
  "sm_sessions (set_active emit t m) = sm_sessions m"
  "sm_by_peer (set_active emit t m) = sm_by_peer m"
  "sm_local (set_active emit t m) = sm_local m"
  "sm_active (set_active emit t m) = t"
  by (auto simp: set_active_def emit_event_def)

lemma emit_event_fields [simp]:
  "sm_sessions (emit_event emit ev m) = sm_sessions m"
  "sm_by_peer (emit_event emit ev m) = sm_by_peer m"
  "sm_local (emit_event emit ev m) = sm_local m"
  "sm_active (emit_event emit ev m) = sm_active m"
  "sm_events (emit_event emit ev m) = emit (sm_events m) ev"
  by (auto simp: emit_event_def)

lemma session_ok_new [inv_intros]: "session_ok (manager_new loc ev)"
  by (simp add: session_ok_def manager_new_def)

lemma session_ok_emit [simp]: "session_ok (emit_event emit ev m) = session_ok m"
  by (simp add: session_ok_def)

lemma session_ok_set_active [inv_intros]:
  "session_ok m \<Longrightarrow> (\<And>p. t = Remote p \<Longrightarrow> sm_by_peer m p \<noteq> None) \<Longrightarrow>
   session_ok (set_active emit t m)"
  by (auto simp: session_ok_def)

lemma session_ok_establish [inv_intros]:
  assumes "session_ok m" "establish emit sid p r m = Inr m'"
  shows "session_ok m'"
proof -
  have free: "sm_sessions m sid = None" "sm_by_peer m p = None"
    and m': "m' = emit_event emit (Established sid p r)
             (m \<lparr> sm_sessions := (sm_sessions m)(sid \<mapsto>
                    \<lparr> session_id = sid, session_peer = p, session_role = r \<rparr>),
                  sm_by_peer := (sm_by_peer m)(p \<mapsto> sid) \<rparr>)"
    using assms(2) by (auto simp: establish_def split: if_splits)
  show ?thesis
    unfolding m' session_ok_emit using assms(1) free by (fastforce simp: session_ok_def)
qed

lemma session_ok_close [inv_intros]:
  assumes "session_ok m" "session_close emit sid m = Inr m'"
  shows "session_ok m'"
proof -
  obtain s where s: "sm_sessions m sid = Some s"
    using assms(2) by (auto simp: session_close_def split: option.splits)
  have inj: "session_peer s' \<noteq> session_peer s" if "sm_sessions m sid' = Some s'" "sid' \<noteq> sid" for sid' s'
    using that s session_okD(2) [OF assms(1)] by (metis option.inject)
  show ?thesis
    using assms s inj
    by (fastforce simp: session_close_def Let_def session_ok_def split: if_splits)
qed

lemma session_ok_reverse_role [inv_intros]:
  "session_ok m \<Longrightarrow> reverse_role emit sid m = Inr (r, m') \<Longrightarrow> session_ok m'"
  by (fastforce simp: reverse_role_def Let_def session_ok_def split: option.splits if_splits)

lemma session_ok_yield_control [inv_intros]:
  "session_ok m \<Longrightarrow> session_ok (snd (yield_control emit m))"
  by (auto simp: yield_control_def intro!: session_ok_set_active)

lemma session_ok_follow_peer [inv_intros]:
  "session_ok m \<Longrightarrow> follow_peer emit p m = Inr m' \<Longrightarrow> session_ok m'"
  by (auto simp: follow_peer_def split: if_splits intro!: session_ok_set_active)

lemma session_ok_handle_crossing [inv_intros]:
  "session_ok m \<Longrightarrow> handle_crossing emit c m = Inr m' \<Longrightarrow> session_ok m'"
  by (auto simp: handle_crossing_def split: if_splits intro!: session_ok_set_active)

section \<open>Steps and reachability\<close>

text \<open>Everything that can happen to a manager, one operation at a time; an operation that
  returns an error leaves the manager as it was.\<close>
inductive manager_step ::
  "('e \<Rightarrow> session_event \<Rightarrow> 'e) \<Rightarrow> 'e session_manager \<Rightarrow> 'e session_manager \<Rightarrow> bool"
  for emit where
  Establish: "establish emit sid p r m = Inr m' \<Longrightarrow> manager_step emit m m'"
| Close: "session_close emit sid m = Inr m' \<Longrightarrow> manager_step emit m m'"
| Reverse: "reverse_role emit sid m = Inr (r, m') \<Longrightarrow> manager_step emit m m'"
| Yield: "yield_control emit m = (changed, m') \<Longrightarrow> manager_step emit m m'"
| Follow: "follow_peer emit p m = Inr m' \<Longrightarrow> manager_step emit m m'"
| Cross: "handle_crossing emit c m = Inr m' \<Longrightarrow> manager_step emit m m'"

inductive manager_reachable ::
  "('e \<Rightarrow> session_event \<Rightarrow> 'e) \<Rightarrow> machine_id \<Rightarrow> 'e \<Rightarrow> 'e session_manager \<Rightarrow> bool"
  for emit loc ev where
  Start: "manager_reachable emit loc ev (manager_new loc ev)"
| Step: "manager_reachable emit loc ev m \<Longrightarrow> manager_step emit m m' \<Longrightarrow>
         manager_reachable emit loc ev m'"

inductive_cases manager_stepE: "manager_step emit m m'"

lemma session_ok_step [inv_intros]:
  assumes "manager_step emit m m'" "session_ok m"
  shows "session_ok m'"
  using assms
proof cases
  case (Yield changed)
  then show ?thesis using session_ok_yield_control [OF assms(2), of emit] by simp
qed (use assms(2) in \<open>auto intro: session_ok_establish session_ok_close session_ok_reverse_role
        session_ok_follow_peer session_ok_handle_crossing\<close>)

lemma session_ok_reachable: "manager_reachable emit loc ev m \<Longrightarrow> session_ok m"
  by (induction rule: manager_reachable.induct) (auto intro: session_ok_new session_ok_step)

section \<open>The event log determines the state\<close>

text \<open>A reader of the events, who never sees the manager.\<close>
type_synonym session_view = "(session_id \<rightharpoonup> session) \<times> active_target"

fun view_event :: "session_view \<Rightarrow> session_event \<Rightarrow> session_view" where
  "view_event (ss, a) (Established sid p r) =
     (ss(sid \<mapsto> \<lparr> session_id = sid, session_peer = p, session_role = r \<rparr>), a)"
| "view_event (ss, a) (Closed sid) = (ss(sid := None), a)"
| "view_event (ss, a) (RoleChanged sid r) =
     (ss(sid := map_option (\<lambda>s. s \<lparr> session_role := r \<rparr>) (ss sid)), a)"
| "view_event (ss, a) (ActiveTargetChanged t) = (ss, t)"

definition replay :: "session_event list \<Rightarrow> session_view" where
  "replay = foldl view_event (Map.empty, Local)"

lemma replay_snoc [simp]: "replay (evs @ [ev]) = view_event (replay evs) ev"
  by (simp add: replay_def)

lemma replay_Nil [simp]: "replay [] = (Map.empty, Local)"
  by (simp add: replay_def)

text \<open>The contract of the \<^verbatim>\<open>SessionEvents\<close> port: an emitted event is received, once, after those
  emitted before it.\<close>
locale session_sink =
  fixes emit :: "'e \<Rightarrow> session_event \<Rightarrow> 'e"
    and received :: "'e \<Rightarrow> session_event list"
  assumes received_emit: "received (emit e ev) = received e @ [ev]"
begin

definition in_sync :: "'e session_manager \<Rightarrow> bool" where
  "in_sync m \<longleftrightarrow> replay (received (sm_events m)) = (sm_sessions m, sm_active m)"

lemma replay_emit:
  "replay (received (sm_events (emit_event emit ev m))) =
   view_event (replay (received (sm_events m))) ev"
  by (simp add: received_emit)

lemma in_sync_set_active:
  "replay (received (sm_events m)) = (ss, sm_active m) \<Longrightarrow>
   replay (received (sm_events (set_active emit t m))) = (ss, t)"
  by (auto simp: set_active_def emit_event_def received_emit)

lemma in_sync_close:
  assumes "in_sync m" "session_close emit sid m = Inr m'"
  shows "in_sync m'"
proof -
  obtain s where s: "sm_sessions m sid = Some s"
    using assms(2) by (auto simp: session_close_def split: option.splits)
  define m1 where "m1 = m \<lparr> sm_sessions := (sm_sessions m)(sid := None),
                            sm_by_peer := (sm_by_peer m)(session_peer s := None) \<rparr>"
  define m2 where "m2 = (if sm_active m1 = Remote (session_peer s) then set_active emit Local m1 else m1)"
  have m': "m' = emit_event emit (Closed sid) m2"
    using assms(2) s by (simp add: session_close_def Let_def m1_def m2_def split: if_splits)
  have "replay (received (sm_events m1)) = (sm_sessions m, sm_active m1)"
    using assms(1) by (simp add: in_sync_def m1_def)
  then have "replay (received (sm_events m2)) = (sm_sessions m, sm_active m2)"
    using in_sync_set_active by (simp add: m2_def)
  moreover have "sm_sessions m2 = (sm_sessions m)(sid := None)"
    by (simp add: m2_def m1_def)
  ultimately show ?thesis
    by (simp add: in_sync_def m' received_emit)
qed

lemma in_sync_step:
  assumes "manager_step emit m m'" "in_sync m"
  shows "in_sync m'"
  using assms
proof cases
  case (Establish sid p r)
  then show ?thesis using assms(2)
    by (auto simp: establish_def in_sync_def received_emit split: if_splits)
next
  case (Close sid)
  then show ?thesis using assms(2) in_sync_close by blast
next
  case (Reverse sid r)
  then show ?thesis using assms(2)
    by (auto simp: reverse_role_def Let_def in_sync_def received_emit split: option.splits)
next
  case (Yield changed)
  then show ?thesis using assms(2) in_sync_set_active
    by (auto simp: yield_control_def in_sync_def)
next
  case (Follow p)
  then show ?thesis using assms(2) in_sync_set_active
    by (auto simp: follow_peer_def in_sync_def split: if_splits)
next
  case (Cross c)
  then show ?thesis using assms(2) in_sync_set_active
    by (auto simp: handle_crossing_def in_sync_def split: if_splits)
qed

lemma reachable_in_sync:
  assumes "manager_reachable emit loc ev m" "received ev = []"
  shows "replay (received (sm_events m)) = (sm_sessions m, sm_active m)"
proof -
  have "in_sync m"
    using assms
  proof (induction rule: manager_reachable.induct)
    case Start
    then show ?case by (simp add: in_sync_def manager_new_def)
  next
    case (Step m m')
    then show ?case using in_sync_step by blast
  qed
  then show ?thesis by (simp add: in_sync_def)
qed

end

text \<open>\<^verbatim>\<open>RecordingEvents\<close>; the daemon's \<^verbatim>\<open>LogEvents\<close> is the same append, to its log.\<close>
record recording_events =
  recorded :: "session_event list"

definition recording_emit :: "recording_events \<Rightarrow> session_event \<Rightarrow> recording_events" where
  "recording_emit r ev = r \<lparr> recorded := recorded r @ [ev] \<rparr>"

interpretation recording: session_sink recording_emit recorded
  by unfold_locales (simp add: recording_emit_def)

section \<open>Properties\<close>

text \<open>Whatever operations ran, the manager's two indexes describe the same sessions, each peer
  has at most one, and input is only routed to a peer with a session.\<close>
theorem manager_consistent:
  assumes "manager_reachable emit loc ev m"
  shows "(\<forall>sid s. sm_sessions m sid = Some s \<longrightarrow>
            session_id s = sid \<and> session_for_peer m (session_peer s) = Some s) \<and>
    (\<forall>p. sm_by_peer m p \<noteq> None \<longrightarrow> (\<exists>s. session_for_peer m p = Some s \<and> session_peer s = p)) \<and>
    (\<forall>p. sm_active m = Remote p \<longrightarrow> session_for_peer m p \<noteq> None)"
proof -
  note D = session_okD [OF session_ok_reachable [OF assms]]
  have peer: "\<exists>s. session_for_peer m p = Some s \<and> session_peer s = p" if "sm_by_peer m p \<noteq> None" for p
    using D(3) that by (fastforce simp: session_for_peer_def)
  have "session_for_peer m (session_peer s) = Some s" if "sm_sessions m sid = Some s" for sid s
    using D(2) [OF that] that by (simp add: session_for_peer_def)
  moreover have "session_for_peer m p \<noteq> None" if "sm_active m = Remote p" for p
    using D(4) [OF that] peer [of p] by auto
  ultimately show ?thesis using D(1) peer by simp
qed

definition demo_manager :: "recording_events session_manager" where
  "demo_manager = (case establish recording_emit (SessionId 5) (MachineId 2) Controller
       (manager_new (MachineId 1) \<lparr> recorded = [] \<rparr>) of Inr m \<Rightarrow> m)"

lemma demo_manager_reachable:
  "manager_reachable recording_emit (MachineId 1) \<lparr> recorded = [] \<rparr> demo_manager"
  by (rule Step [OF Start Establish [where sid = "SessionId 5" and p = "MachineId 2" and r = Controller]])
    (simp add: demo_manager_def establish_def manager_new_def)

lemma manager_consistent_witness:
  "\<exists>s. session_for_peer demo_manager (MachineId 2) = Some s \<and> session_peer s = MachineId 2"
  using manager_consistent [OF demo_manager_reachable]
  by (simp add: demo_manager_def establish_def manager_new_def)

text \<open>C14. The events are complete: replaying everything the manager emitted, in order, gives exactly
  its sessions (with their roles) and its active target.\<close>
theorem events_determine_manager:
  assumes "manager_reachable recording_emit loc \<lparr> recorded = [] \<rparr> m"
  shows "replay (recorded (sm_events m)) = (sm_sessions m, sm_active m)"
  using recording.reachable_in_sync [OF assms] by simp

lemma events_determine_manager_witness:
  "replay (recorded (sm_events demo_manager)) = (sm_sessions demo_manager, sm_active demo_manager)"
  by (rule events_determine_manager [OF demo_manager_reachable])

text \<open>Closing a session removes it and its peer from both indexes, leaves every other session
  alone, and brings the input home if it was going to that peer; closing an unknown session is an
  error.\<close>
theorem session_close_effect:
  assumes "session_ok m"
  shows "(case sm_sessions m sid of
      None \<Rightarrow> session_close emit sid m = Inl (UnknownSession sid)
    | Some s \<Rightarrow> (\<exists>m'. session_close emit sid m = Inr m' \<and>
        sm_sessions m' = (sm_sessions m)(sid := None) \<and>
        session_for_peer m' (session_peer s) = None \<and>
        (\<forall>p. p \<noteq> session_peer s \<longrightarrow> session_for_peer m' p = session_for_peer m p) \<and>
        sm_active m' = (if sm_active m = Remote (session_peer s) then Local else sm_active m)))"
proof (cases "sm_sessions m sid")
  case None
  then show ?thesis by (simp add: session_close_def)
next
  case (Some s)
  have other: "sm_by_peer m p \<noteq> Some sid" if "p \<noteq> session_peer s" for p
    using that Some session_okD(3) [OF assms, of p sid] by auto
  define m1 where "m1 = m \<lparr> sm_sessions := (sm_sessions m)(sid := None),
                            sm_by_peer := (sm_by_peer m)(session_peer s := None) \<rparr>"
  define m2 where "m2 = (if sm_active m1 = Remote (session_peer s) then set_active emit Local m1 else m1)"
  have close: "session_close emit sid m = Inr (emit_event emit (Closed sid) m2)"
    using Some by (simp add: session_close_def Let_def m1_def m2_def)
  have "session_for_peer m1 p = session_for_peer m p" if "p \<noteq> session_peer s" for p
    using other [OF that] that by (cases "sm_by_peer m p") (auto simp: session_for_peer_def m1_def)
  moreover have "session_for_peer m1 (session_peer s) = None"
    by (simp add: session_for_peer_def m1_def)
  moreover have "session_for_peer (emit_event emit (Closed sid) m2) p = session_for_peer m1 p" for p
    by (simp add: session_for_peer_def m2_def)
  ultimately show ?thesis
    using Some close by (simp add: m1_def m2_def)
qed

lemma session_close_effect_witness:
  "session_close recording_emit (SessionId 6) demo_manager = Inl (UnknownSession (SessionId 6))"
  using session_close_effect [OF session_ok_reachable [OF demo_manager_reachable],
      of recording_emit "SessionId 6"]
  by (simp add: demo_manager_def establish_def manager_new_def)

end
