(* ===== verification/Security.thy ===== *)
theory Security
  imports Protocol
begin

text \<open>
  \<^verbatim>\<open>crates/omni-security\<close>: the trust policy (\<^verbatim>\<open>trust.rs\<close>) and the port it reads and records
  approvals through (\<^verbatim>\<open>store.rs\<close>).  The locales \<open>trust_reader\<close> and \<open>trust_store\<close> state what
  the policy relies on in a store; they are interpreted on the in-memory store here and on the
  daemon's trust file in the theory \<^verbatim>\<open>TrustFile\<close>.
\<close>

section \<open>The policy\<close>

record allow_list =
  allow_peers :: "peer_id set"

definition allow_list_new :: allow_list where
  "allow_list_new = \<lparr> allow_peers = {} \<rparr>"

definition allow_list_allow :: "peer_id \<Rightarrow> allow_list \<Rightarrow> bool \<times> allow_list" where
  "allow_list_allow p a = (p \<notin> allow_peers a, a \<lparr> allow_peers := insert p (allow_peers a) \<rparr>)"

definition allow_list_remove :: "peer_id \<Rightarrow> allow_list \<Rightarrow> bool \<times> allow_list" where
  "allow_list_remove p a = (p \<in> allow_peers a, a \<lparr> allow_peers := allow_peers a - {p} \<rparr>)"

definition allow_list_contains :: "allow_list \<Rightarrow> peer_id \<Rightarrow> bool" where
  "allow_list_contains a p \<longleftrightarrow> p \<in> allow_peers a"

record peer_identity =
  identity_peer :: peer_id
  identity_fingerprint :: fingerprint

datatype trust_decision = Trusted | TrustOnFirstUse | NotAllowed | FingerprintMismatch

definition is_trusted_decision :: "trust_decision \<Rightarrow> bool" where
  "is_trusted_decision d \<longleftrightarrow> d = Trusted"

definition evaluate ::
  "allow_list \<Rightarrow> fingerprint option \<Rightarrow> peer_identity \<Rightarrow> trust_decision" where
  "evaluate allowlist pinned ident =
     (if \<not> allow_list_contains allowlist (identity_peer ident) then NotAllowed
      else case pinned of
        None \<Rightarrow> TrustOnFirstUse
      | Some f \<Rightarrow> if f = identity_fingerprint ident then Trusted else FingerprintMismatch)"

lemma evaluate_Trusted_iff:
  "evaluate a pinned ident = Trusted \<longleftrightarrow>
   identity_peer ident \<in> allow_peers a \<and> pinned = Some (identity_fingerprint ident)"
  by (auto simp: evaluate_def allow_list_contains_def split: option.splits)

section \<open>The trust authority\<close>

text \<open>The methods of \<^verbatim>\<open>TrustAuthority\<close>, over the operations of the store they call.\<close>

definition authorize ::
  "('s \<Rightarrow> 'e + allow_list) \<Rightarrow> ('s \<Rightarrow> peer_id \<Rightarrow> 'e + fingerprint option) \<Rightarrow>
   's \<Rightarrow> peer_identity \<Rightarrow> 'e + trust_decision" where
  "authorize allowlist pinned s ident =
     (case allowlist s of Inl e \<Rightarrow> Inl e
      | Inr a \<Rightarrow> (case pinned s (identity_peer ident) of Inl e \<Rightarrow> Inl e
      | Inr f \<Rightarrow> Inr (evaluate a f ident)))"

definition authority_accept ::
  "(peer_id \<Rightarrow> 's \<Rightarrow> 'e + 's) \<Rightarrow> (peer_id \<Rightarrow> fingerprint \<Rightarrow> 's \<Rightarrow> 'e + 's) \<Rightarrow>
   peer_identity \<Rightarrow> 's \<Rightarrow> 'e + 's" where
  "authority_accept allow pin ident s =
     (case allow (identity_peer ident) s of Inl e \<Rightarrow> Inl e
      | Inr s' \<Rightarrow> pin (identity_peer ident) (identity_fingerprint ident) s')"

definition authority_forget ::
  "(peer_id \<Rightarrow> 's \<Rightarrow> 'e + 's) \<Rightarrow> (peer_id \<Rightarrow> 's \<Rightarrow> 'e + 's) \<Rightarrow> peer_id \<Rightarrow> 's \<Rightarrow> 'e + 's" where
  "authority_forget remove_allowed unpin p s =
     (case remove_allowed p s of Inl e \<Rightarrow> Inl e | Inr s' \<Rightarrow> unpin p s')"

section \<open>The store's contract\<close>

text \<open>A store holds a set of allowed peers and a partial map of pinned fingerprints; reading
  returns what it holds.\<close>
locale trust_reader =
  fixes allowlist :: "'s \<Rightarrow> 'e + allow_list"
    and pinned :: "'s \<Rightarrow> peer_id \<Rightarrow> 'e + fingerprint option"
    and allowed_of :: "'s \<Rightarrow> peer_id set"
    and pins_of :: "'s \<Rightarrow> peer_id \<rightharpoonup> fingerprint"
  assumes allowlist_reads: "allowlist s = Inr a \<Longrightarrow> allow_peers a = allowed_of s"
    and pinned_reads: "pinned s p = Inr f \<Longrightarrow> f = pins_of s p"
begin

lemma authorize_decides:
  assumes "authorize allowlist pinned s ident = Inr d"
  shows "d = (if identity_peer ident \<notin> allowed_of s then NotAllowed
              else case pins_of s (identity_peer ident) of None \<Rightarrow> TrustOnFirstUse
              | Some f \<Rightarrow> if f = identity_fingerprint ident then Trusted else FingerprintMismatch)"
proof -
  obtain a where a: "allowlist s = Inr a"
    using assms by (cases "allowlist s") (simp_all add: authorize_def)
  obtain f where f: "pinned s (identity_peer ident) = Inr f"
    using assms a by (cases "pinned s (identity_peer ident)") (simp_all add: authorize_def)
  have "d = evaluate a f ident" using assms a f by (simp add: authorize_def)
  then show ?thesis
    using allowlist_reads [OF a] pinned_reads [OF f]
    by (simp add: evaluate_def allow_list_contains_def)
qed

lemma authorize_Trusted_iff:
  assumes "authorize allowlist pinned s ident = Inr d"
  shows "d = Trusted \<longleftrightarrow> identity_peer ident \<in> allowed_of s \<and>
           pins_of s (identity_peer ident) = Some (identity_fingerprint ident)"
  using authorize_decides [OF assms] by (auto split: option.splits if_splits)

end

text \<open>A store that can be written as well: each operation changes what it names and nothing
  else.\<close>
locale trust_store = trust_reader allowlist pinned allowed_of pins_of
  for allowlist :: "'s \<Rightarrow> 'e + allow_list"
    and pinned :: "'s \<Rightarrow> peer_id \<Rightarrow> 'e + fingerprint option"
    and allowed_of :: "'s \<Rightarrow> peer_id set"
    and pins_of :: "'s \<Rightarrow> peer_id \<rightharpoonup> fingerprint" +
  fixes allow :: "peer_id \<Rightarrow> 's \<Rightarrow> 'e + 's"
    and remove_allowed :: "peer_id \<Rightarrow> 's \<Rightarrow> 'e + 's"
    and pin :: "peer_id \<Rightarrow> fingerprint \<Rightarrow> 's \<Rightarrow> 'e + 's"
    and unpin :: "peer_id \<Rightarrow> 's \<Rightarrow> 'e + 's"
  assumes allow_law: "allow p s = Inr s' \<Longrightarrow>
      allowed_of s' = insert p (allowed_of s) \<and> pins_of s' = pins_of s"
    and remove_law: "remove_allowed p s = Inr s' \<Longrightarrow>
      allowed_of s' = allowed_of s - {p} \<and> pins_of s' = pins_of s"
    and pin_law: "pin p f s = Inr s' \<Longrightarrow>
      allowed_of s' = allowed_of s \<and> pins_of s' = (pins_of s)(p \<mapsto> f)"
    and unpin_law: "unpin p s = Inr s' \<Longrightarrow>
      allowed_of s' = allowed_of s \<and> pins_of s' = (pins_of s)(p := None)"
begin

lemma accept_effect:
  assumes "authority_accept allow pin ident s = Inr s'"
  shows "allowed_of s' = insert (identity_peer ident) (allowed_of s)"
    "pins_of s' = (pins_of s)(identity_peer ident \<mapsto> identity_fingerprint ident)"
proof -
  obtain s1 where s1: "allow (identity_peer ident) s = Inr s1"
    using assms by (cases "allow (identity_peer ident) s") (simp_all add: authority_accept_def)
  have s': "pin (identity_peer ident) (identity_fingerprint ident) s1 = Inr s'"
    using assms s1 by (simp add: authority_accept_def)
  show "allowed_of s' = insert (identity_peer ident) (allowed_of s)"
    "pins_of s' = (pins_of s)(identity_peer ident \<mapsto> identity_fingerprint ident)"
    using allow_law [OF s1] pin_law [OF s'] by simp_all
qed

lemma forget_effect:
  assumes "authority_forget remove_allowed unpin p s = Inr s'"
  shows "allowed_of s' = allowed_of s - {p}" "pins_of s' = (pins_of s)(p := None)"
proof -
  obtain s1 where s1: "remove_allowed p s = Inr s1"
    using assms by (cases "remove_allowed p s") (simp_all add: authority_forget_def)
  have s': "unpin p s1 = Inr s'" using assms s1 by (simp add: authority_forget_def)
  show "allowed_of s' = allowed_of s - {p}" "pins_of s' = (pins_of s)(p := None)"
    using remove_law [OF s1] unpin_law [OF s'] by simp_all
qed

text \<open>Trust on first use: after an approval exactly the approved fingerprint is trusted for that
  peer, and every other peer is judged as before.\<close>
lemma authorize_after_accept:
  assumes "authority_accept allow pin ident s = Inr s'"
    and "authorize allowlist pinned s' ident' = Inr d'"
    and "authorize allowlist pinned s ident' = Inr d"
  shows "d' = (if identity_peer ident' \<noteq> identity_peer ident then d
               else if identity_fingerprint ident' = identity_fingerprint ident then Trusted
               else FingerprintMismatch)"
  using authorize_decides [OF assms(2)] authorize_decides [OF assms(3)] accept_effect [OF assms(1)]
  by auto

lemma authorize_after_forget:
  assumes "authority_forget remove_allowed unpin p s = Inr s'"
    and "authorize allowlist pinned s' ident' = Inr d'"
    and "authorize allowlist pinned s ident' = Inr d"
  shows "d' = (if identity_peer ident' = p then NotAllowed else d)"
  using authorize_decides [OF assms(2)] authorize_decides [OF assms(3)] forget_effect [OF assms(1)]
  by auto

end

section \<open>The in-memory store\<close>

record in_memory_trust_store =
  mem_allowlist :: allow_list
  mem_pins :: "peer_id \<rightharpoonup> fingerprint"

text \<open>\<^verbatim>\<open>Infallible\<close>: the error type has no value that any operation returns.\<close>
typedecl infallible

definition mem_store_allowlist :: "in_memory_trust_store \<Rightarrow> infallible + allow_list" where
  "mem_store_allowlist s = Inr (mem_allowlist s)"

definition mem_store_pinned ::
  "in_memory_trust_store \<Rightarrow> peer_id \<Rightarrow> infallible + fingerprint option" where
  "mem_store_pinned s p = Inr (mem_pins s p)"

definition mem_store_allow ::
  "peer_id \<Rightarrow> in_memory_trust_store \<Rightarrow> infallible + in_memory_trust_store" where
  "mem_store_allow p s = Inr (s \<lparr> mem_allowlist := snd (allow_list_allow p (mem_allowlist s)) \<rparr>)"

definition mem_store_remove_allowed ::
  "peer_id \<Rightarrow> in_memory_trust_store \<Rightarrow> infallible + in_memory_trust_store" where
  "mem_store_remove_allowed p s =
     Inr (s \<lparr> mem_allowlist := snd (allow_list_remove p (mem_allowlist s)) \<rparr>)"

definition mem_store_pin ::
  "peer_id \<Rightarrow> fingerprint \<Rightarrow> in_memory_trust_store \<Rightarrow> infallible + in_memory_trust_store" where
  "mem_store_pin p f s = Inr (s \<lparr> mem_pins := (mem_pins s)(p \<mapsto> f) \<rparr>)"

definition mem_store_unpin ::
  "peer_id \<Rightarrow> in_memory_trust_store \<Rightarrow> infallible + in_memory_trust_store" where
  "mem_store_unpin p s = Inr (s \<lparr> mem_pins := (mem_pins s)(p := None) \<rparr>)"

lemmas mem_store_defs = mem_store_allowlist_def mem_store_pinned_def mem_store_allow_def
  mem_store_remove_allowed_def mem_store_pin_def mem_store_unpin_def allow_list_allow_def
  allow_list_remove_def

interpretation mem_store: trust_store mem_store_allowlist mem_store_pinned
  "\<lambda>s. allow_peers (mem_allowlist s)" mem_pins
  mem_store_allow mem_store_remove_allowed mem_store_pin mem_store_unpin
  by unfold_locales (auto simp: mem_store_defs)

section \<open>Properties\<close>

text \<open>Trust on first use, on the in-memory store: once a person has accepted a peer, exactly the
  accepted fingerprint is trusted for it, any other certificate of that peer is refused as a
  mismatch, and every other peer is judged as before; forgetting the peer makes it unknown again
  and touches no other.\<close>
theorem accept_pins_peer:
  assumes "authority_accept mem_store_allow mem_store_pin ident s = Inr s1"
    and "authority_forget mem_store_remove_allowed mem_store_unpin (identity_peer ident) s1 = Inr s2"
    and "authorize mem_store_allowlist mem_store_pinned s other = Inr d"
    and "authorize mem_store_allowlist mem_store_pinned s1 other = Inr d1"
    and "authorize mem_store_allowlist mem_store_pinned s2 other = Inr d2"
  shows "d1 = (if identity_peer other \<noteq> identity_peer ident then d
               else if identity_fingerprint other = identity_fingerprint ident then Trusted
               else FingerprintMismatch) \<and>
         d2 = (if identity_peer other \<noteq> identity_peer ident then d else NotAllowed)"
  using mem_store.authorize_after_accept [OF assms(1,4,3)]
    mem_store.authorize_after_forget [OF assms(2,5,4)] by auto

lemma accept_pins_peer_witness:
  "\<exists>d1. authorize mem_store_allowlist mem_store_pinned
      \<lparr> mem_allowlist = \<lparr> allow_peers = {PeerId 9} \<rparr>, mem_pins = [PeerId 9 \<mapsto> Fingerprint [1]] \<rparr>
      \<lparr> identity_peer = PeerId 9, identity_fingerprint = Fingerprint [2] \<rparr> = Inr d1 \<and>
    d1 = FingerprintMismatch"
  using accept_pins_peer [of "\<lparr> identity_peer = PeerId 9, identity_fingerprint = Fingerprint [1] \<rparr>"
      "\<lparr> mem_allowlist = \<lparr> allow_peers = {} \<rparr>, mem_pins = Map.empty \<rparr>"
      "\<lparr> mem_allowlist = \<lparr> allow_peers = {PeerId 9} \<rparr>, mem_pins = [PeerId 9 \<mapsto> Fingerprint [1]] \<rparr>"
      "\<lparr> mem_allowlist = \<lparr> allow_peers = {} \<rparr>, mem_pins = Map.empty \<rparr>"
      "\<lparr> identity_peer = PeerId 9, identity_fingerprint = Fingerprint [2] \<rparr>"]
  by (auto simp: authority_accept_def authority_forget_def mem_store_defs authorize_def evaluate_def
      allow_list_contains_def)

end
