(* ===== verification/TrustFile.thy ===== *)
theory TrustFile
  imports Security
begin

text \<open>
  \<^verbatim>\<open>crates/omni-runtime/src/trust.rs\<close>: the daemon's trust file.  The state is the list of
  remembered peers in memory and the list last written to disk.  The outcome of the file system
  and of serde_json on a save is the argument \<open>io\<close> of the operations (\<^const>\<open>None\<close> when the write
  succeeds), the outcome of reading the file is the argument of \<open>trust_load\<close>; the file's
  contents are the value that was serialised.
\<close>

section \<open>Fingerprints as text\<close>

definition be_bytes_to_u64 :: "u8 list \<Rightarrow> u64" where
  "be_bytes_to_u64 bs = foldl (\<lambda>acc b. push_bit 8 acc OR ucast b) 0 bs"

definition peer_id_of :: "fingerprint \<Rightarrow> peer_id" where
  "peer_id_of f = PeerId (be_bytes_to_u64 (take 8 (as_bytes f)))"

definition fingerprint_hex :: "fingerprint \<Rightarrow> string" where
  "fingerprint_hex f = fingerprint_display f"

text \<open>\<^verbatim>\<open>char::to_digit(16)\<close>: both cases of the letters are digits.\<close>
definition to_digit :: "char \<Rightarrow> nat option" where
  "to_digit c = (let n = of_char c :: nat in
     if 48 \<le> n \<and> n \<le> 57 then Some (n - 48)
     else if 97 \<le> n \<and> n \<le> 102 then Some (n - 87)
     else if 65 \<le> n \<and> n \<le> 70 then Some (n - 55)
     else None)"

text \<open>\<^verbatim>\<open>u8::from_str_radix(_, 16)\<close> on a string of two bytes: a leading plus sign is
  accepted, as Rust's parser does, a leading minus sign is not a digit.\<close>
fun parse_chunk :: "string \<Rightarrow> u8 option" where
  "parse_chunk [a, b] =
     (if a = CHR ''+'' then map_option of_nat (to_digit b)
      else do { hi \<leftarrow> to_digit a; lo \<leftarrow> to_digit b; Some (of_nat (16 * hi + lo)) })"
| "parse_chunk _ = None"

fun parse_chunks :: "string \<Rightarrow> u8 list option" where
  "parse_chunks (a # b # rest) =
     do { byte \<leftarrow> parse_chunk [a, b]; bytes \<leftarrow> parse_chunks rest; Some (byte # bytes) }"
| "parse_chunks [] = Some []"
| "parse_chunks [a] = None"

definition parse_fingerprint :: "string \<Rightarrow> fingerprint option" where
  "parse_fingerprint hex =
     (if length hex \<noteq> 64 then None else map_option Fingerprint (parse_chunks hex))"

lemma to_digit_hex_digit: "n < 16 \<Longrightarrow> to_digit (hex_digit n) = Some n"
  by (auto simp: to_digit_def hex_digit_def)

lemma hex_digit_not_plus: "n < 16 \<Longrightarrow> hex_digit n \<noteq> CHR ''+''"
  by (auto dest!: arg_cong [where f = to_digit] simp: to_digit_hex_digit) (simp add: to_digit_def)

lemma parse_chunk_hex_byte: "parse_chunk (hex_byte b) = Some b"
proof -
  have "unat b < 256" by (rule unat_u8_less)
  then have "unat b div 16 < 16" "unat b mod 16 < 16" by auto
  moreover have "16 * word_of_nat (unat b div 16) + word_of_nat (unat b mod 16) = b"
  proof -
    have "16 * word_of_nat (unat b div 16) + word_of_nat (unat b mod 16) =
          (word_of_nat (16 * (unat b div 16) + unat b mod 16) :: u8)"
      by (simp only: of_nat_add of_nat_mult of_nat_numeral)
    also have "\<dots> = word_of_nat (unat b)" by (simp only: mult_div_mod_eq)
    also have "\<dots> = b" by simp
    finally show ?thesis .
  qed
  ultimately show ?thesis by (simp add: hex_byte_def to_digit_hex_digit hex_digit_not_plus)
qed

lemma parse_chunks_display: "parse_chunks (concat (map hex_byte bs)) = Some bs"
proof (induction bs)
  case Nil
  then show ?case by simp
next
  case (Cons b bs)
  obtain h l where hl: "hex_byte b = [h, l]" by (simp add: hex_byte_def)
  show ?case using Cons parse_chunk_hex_byte [of b] by (simp add: hl del: parse_chunk.simps)
qed

lemma parse_fingerprint_hex: "fingerprint_ok f \<Longrightarrow> parse_fingerprint (fingerprint_hex f) = Some f"
  using parse_chunks_display [of "as_bytes f"] length_fingerprint_display [of f]
  by (simp add: parse_fingerprint_def fingerprint_hex_def fingerprint_ok_def fingerprint_display_def)

lemma fingerprint_hex_inj:
  "fingerprint_ok f \<Longrightarrow> fingerprint_ok g \<Longrightarrow> fingerprint_hex f = fingerprint_hex g \<longleftrightarrow> f = g"
  by (metis option.inject parse_fingerprint_hex)

lemma length_parse_chunks: "parse_chunks s = Some bs \<Longrightarrow> length s = 2 * length bs"
  by (induction s arbitrary: bs rule: parse_chunks.induct)
    (auto simp: bind_eq_Some_conv simp del: parse_chunk.simps)

lemma parse_fingerprint_ok: "parse_fingerprint s = Some f \<Longrightarrow> fingerprint_ok f"
  by (auto simp: parse_fingerprint_def fingerprint_ok_def dest!: length_parse_chunks
      split: if_splits)

section \<open>The trust file\<close>

record peer_record =
  record_host :: "string option"
  record_fingerprint :: string

record trust_state =
  trust_peers :: "peer_record list"
  trust_disk :: "peer_record list option"

datatype trust_error = TrustIo | TrustParse

text \<open>Newest first, a host already seen is dropped; records without a host are kept.\<close>
fun keep_first_hosts :: "string set \<Rightarrow> peer_record list \<Rightarrow> peer_record list" where
  "keep_first_hosts seen [] = []"
| "keep_first_hosts seen (r # rs) =
     (case record_host r of
        Some h \<Rightarrow> if h \<in> seen then keep_first_hosts seen rs
                  else r # keep_first_hosts (insert h seen) rs
      | None \<Rightarrow> r # keep_first_hosts seen rs)"

definition dedup_host_pins :: "peer_record list \<Rightarrow> bool \<times> peer_record list" where
  "dedup_host_pins peers =
     (let kept = rev (keep_first_hosts {} (rev peers)) in (length kept \<noteq> length peers, kept))"

datatype file_read = FileContents "peer_record list" | FileNotFound | FileIoError | FileParseError

definition trust_save :: "trust_error option \<Rightarrow> trust_state \<Rightarrow> (trust_error + unit) \<times> trust_state" where
  "trust_save io st = (case io of
      Some e \<Rightarrow> (Inl e, st)
    | None \<Rightarrow> (Inr (), st \<lparr> trust_disk := Some (trust_peers st) \<rparr>))"

definition trust_load :: "file_read \<Rightarrow> trust_error option \<Rightarrow> trust_error + trust_state" where
  "trust_load rd io =
     (case (case rd of FileContents rs \<Rightarrow> Inr rs | FileNotFound \<Rightarrow> Inr []
            | FileIoError \<Rightarrow> Inl TrustIo | FileParseError \<Rightarrow> Inl TrustParse) of
        Inl e \<Rightarrow> Inl e
      | Inr rs \<Rightarrow>
          let (changed, kept) = dedup_host_pins rs;
              st = \<lparr> trust_peers = kept,
                     trust_disk = (if rd = FileNotFound then None else Some rs) \<rparr>
          in if changed then
               (case trust_save io st of (Inl e, _) \<Rightarrow> Inl e | (Inr _, st) \<Rightarrow> Inr st)
             else Inr st)"

definition file_allowlist :: "peer_record list \<Rightarrow> infallible + allow_list" where
  "file_allowlist rs = Inr (foldl (\<lambda>a r. case parse_fingerprint (record_fingerprint r) of
        Some f \<Rightarrow> snd (allow_list_allow (peer_id_of f) a) | None \<Rightarrow> a) allow_list_new rs)"

definition file_pinned :: "peer_record list \<Rightarrow> peer_id \<Rightarrow> infallible + fingerprint option" where
  "file_pinned rs p = Inr (List.find (\<lambda>f. peer_id_of f = p)
        (List.map_filter (\<lambda>r. parse_fingerprint (record_fingerprint r)) rs))"

definition decide_inbound :: "trust_state \<Rightarrow> fingerprint \<Rightarrow> trust_decision" where
  "decide_inbound st f =
     (let p = peer_id_of f;
          allowed = (case file_allowlist (trust_peers st) of Inr a \<Rightarrow> a | Inl _ \<Rightarrow> allow_list_new);
          pin = (case file_pinned (trust_peers st) p of Inr x \<Rightarrow> x | Inl _ \<Rightarrow> None)
      in evaluate allowed pin \<lparr> identity_peer = p, identity_fingerprint = f \<rparr>)"

definition is_trusted :: "trust_state \<Rightarrow> fingerprint \<Rightarrow> bool" where
  "is_trusted st f = is_trusted_decision (decide_inbound st f)"

text \<open>The first record with the given fingerprint gets the host.\<close>
fun set_first_host :: "string \<Rightarrow> string option \<Rightarrow> peer_record list \<Rightarrow> peer_record list" where
  "set_first_host hex host [] = []"
| "set_first_host hex host (r # rs) =
     (if record_fingerprint r = hex
      then (case host of Some h \<Rightarrow> r \<lparr> record_host := Some h \<rparr> | None \<Rightarrow> r) # rs
      else r # set_first_host hex host rs)"

definition accept_records :: "fingerprint \<Rightarrow> string option \<Rightarrow> peer_record list \<Rightarrow> peer_record list" where
  "accept_records f host rs =
     (let hex = fingerprint_hex f;
          rs = (case host of
                  Some h \<Rightarrow> filter (\<lambda>r. record_fingerprint r = hex \<or> record_host r \<noteq> Some h) rs
                | None \<Rightarrow> rs)
      in if \<exists>r\<in>set rs. record_fingerprint r = hex then set_first_host hex host rs
         else rs @ [\<lparr> record_host = host, record_fingerprint = hex \<rparr>])"

definition trust_accept ::
  "trust_error option \<Rightarrow> fingerprint \<Rightarrow> string option \<Rightarrow> trust_state \<Rightarrow>
   (trust_error + unit) \<times> trust_state" where
  "trust_accept io f host st =
     trust_save io (st \<lparr> trust_peers := accept_records f host (trust_peers st) \<rparr>)"

definition starts_with :: "string \<Rightarrow> string \<Rightarrow> bool" where
  "starts_with s pre \<longleftrightarrow> strip_prefix pre s \<noteq> None"

definition trust_remove ::
  "trust_error option \<Rightarrow> string \<Rightarrow> trust_state \<Rightarrow> (trust_error + bool) \<times> trust_state" where
  "trust_remove io selector st =
     (let kept = filter (\<lambda>r. record_host r \<noteq> Some selector \<and>
                              \<not> starts_with (record_fingerprint r) selector) (trust_peers st);
          removed = (length kept \<noteq> length (trust_peers st));
          st = st \<lparr> trust_peers := kept \<rparr>
      in if removed then
           (case trust_save io st of (Inl e, st) \<Rightarrow> (Inl e, st) | (Inr _, st) \<Rightarrow> (Inr removed, st))
         else (Inr removed, st))"

definition pinned_for_host :: "trust_state \<Rightarrow> string \<Rightarrow> fingerprint option" where
  "pinned_for_host st host =
     Option.bind (List.find (\<lambda>r. record_host r = Some host) (trust_peers st))
       (\<lambda>r. parse_fingerprint (record_fingerprint r))"

datatype policy_violation = PolicyViolation string

definition authorize_server ::
  "trust_state \<Rightarrow> string \<Rightarrow> fingerprint \<Rightarrow> policy_violation + unit" where
  "authorize_server st host f =
     (case pinned_for_host st host of
        Some p \<Rightarrow> if p \<noteq> f then Inl (PolicyViolation
            ''the server's certificate fingerprint changed since it was pinned'') else Inr ()
      | None \<Rightarrow> Inr ())"

definition authorize_client :: "trust_state \<Rightarrow> fingerprint \<Rightarrow> policy_violation + unit" where
  "authorize_client st f = Inr ()"

section \<open>The file as a trust store\<close>

definition file_fingerprints :: "peer_record list \<Rightarrow> fingerprint list" where
  "file_fingerprints rs = List.map_filter (\<lambda>r. parse_fingerprint (record_fingerprint r)) rs"

lemma in_file_fingerprints:
  "f \<in> set (file_fingerprints rs) \<longleftrightarrow> (\<exists>r\<in>set rs. parse_fingerprint (record_fingerprint r) = Some f)"
  by (force simp: file_fingerprints_def List.map_filter_def)

lemma foldl_allow:
  "allow_peers (foldl (\<lambda>a r. case parse_fingerprint (record_fingerprint r) of
        Some f \<Rightarrow> snd (allow_list_allow (peer_id_of f) a) | None \<Rightarrow> a) a rs) =
   allow_peers a \<union> peer_id_of ` set (file_fingerprints rs)"
  by (induction rs arbitrary: a)
    (auto simp: file_fingerprints_def List.map_filter_simps allow_list_allow_def split: option.splits)

interpretation trust_view: trust_reader file_allowlist file_pinned
  "\<lambda>rs. peer_id_of ` set (file_fingerprints rs)"
  "\<lambda>rs p. List.find (\<lambda>f. peer_id_of f = p) (file_fingerprints rs)"
proof unfold_locales
  show "allow_peers a = peer_id_of ` set (file_fingerprints rs)" if "file_allowlist rs = Inr a" for rs a
    using that foldl_allow [of allow_list_new rs] by (simp add: file_allowlist_def allow_list_new_def)
  show "f = List.find (\<lambda>f. peer_id_of f = p) (file_fingerprints rs)" if "file_pinned rs p = Inr f"
    for rs p f
    using that by (simp add: file_pinned_def file_fingerprints_def)
qed

lemma decide_inbound_authorize:
  "authorize file_allowlist file_pinned (trust_peers st)
     \<lparr> identity_peer = peer_id_of f, identity_fingerprint = f \<rparr> = Inr (decide_inbound st f)"
  by (simp add: authorize_def decide_inbound_def Let_def file_allowlist_def file_pinned_def)

lemma find_Some_mem: "List.find P xs = Some x \<Longrightarrow> x \<in> set xs \<and> P x"
  by (induction xs) (auto split: if_splits)

lemma find_exists: "x \<in> set xs \<Longrightarrow> P x \<Longrightarrow> \<exists>y. List.find P xs = Some y"
  by (induction xs) auto

lemma find_eq_Some_unique:
  assumes "x \<in> set xs" "P x" "\<And>y. y \<in> set xs \<Longrightarrow> P y \<Longrightarrow> y = x"
  shows "List.find P xs = Some x"
  using find_exists [of x xs P] find_Some_mem [of P xs] assms by metis

text \<open>A fingerprint is trusted exactly when it is the first remembered one with its 64-bit id.\<close>
lemma is_trusted_iff:
  "is_trusted st f \<longleftrightarrow>
   List.find (\<lambda>g. peer_id_of g = peer_id_of f) (file_fingerprints (trust_peers st)) = Some f"
proof -
  have "is_trusted st f \<longleftrightarrow> peer_id_of f \<in> peer_id_of ` set (file_fingerprints (trust_peers st)) \<and>
      List.find (\<lambda>g. peer_id_of g = peer_id_of f) (file_fingerprints (trust_peers st)) = Some f"
    unfolding is_trusted_def is_trusted_decision_def
    using trust_view.authorize_Trusted_iff [OF decide_inbound_authorize [of st f]] by simp
  then show ?thesis by (auto dest: find_Some_mem)
qed

lemma is_trusted_remembered:
  "is_trusted st f \<Longrightarrow> f \<in> set (file_fingerprints (trust_peers st))"
  by (auto simp: is_trusted_iff dest: find_Some_mem)

text \<open>No two remembered fingerprints share their first eight bytes.\<close>
definition ids_distinct :: "fingerprint set \<Rightarrow> bool" where
  "ids_distinct fs \<longleftrightarrow> inj_on peer_id_of fs"

lemma remembered_is_trusted:
  assumes "f \<in> set (file_fingerprints (trust_peers st))"
    and "ids_distinct (set (file_fingerprints (trust_peers st)))"
  shows "is_trusted st f"
  unfolding is_trusted_iff
  by (rule find_eq_Some_unique) (use assms in \<open>auto simp: ids_distinct_def dest: inj_onD\<close>)

section \<open>Deduplication\<close>

lemma find_keep_first_hosts:
  "List.find (\<lambda>r. record_host r = Some h) (keep_first_hosts seen rs) =
   (if h \<in> seen then None else List.find (\<lambda>r. record_host r = Some h) rs)"
  by (induction rs arbitrary: seen) (auto split: option.splits)

lemma keep_first_hosts_once:
  "length (filter (\<lambda>r. record_host r = Some h) (keep_first_hosts seen rs)) \<le> (if h \<in> seen then 0 else 1)"
proof (induction rs arbitrary: seen)
  case Nil
  then show ?case by simp
next
  case (Cons r rs)
  show ?case
  proof (cases "record_host r")
    case None
    then show ?thesis using Cons.IH [of seen] by simp
  next
    case (Some k)
    then show ?thesis
      using Cons.IH [of seen] Cons.IH [of "insert k seen"] by (cases "k = h") auto
  qed
qed

lemma keep_first_hosts_hostless:
  "filter (\<lambda>r. record_host r = None) (keep_first_hosts seen rs) = filter (\<lambda>r. record_host r = None) rs"
  by (induction rs arbitrary: seen) (auto split: option.splits)

lemma set_keep_first_hosts: "set (keep_first_hosts seen rs) \<subseteq> set rs"
  by (induction rs arbitrary: seen) (force split: option.splits if_splits)+

lemma length_filter_le_1_find_rev:
  "length (filter P xs) \<le> 1 \<Longrightarrow> List.find P (rev xs) = List.find P xs"
proof -
  assume le: "length (filter P xs) \<le> 1"
  have "length (filter P xs) = 0 \<or> length (filter P xs) = Suc 0" using le by linarith
  moreover have "List.find P ys = (case filter P ys of [] \<Rightarrow> None | y # _ \<Rightarrow> Some y)" for ys
    by (induction ys) auto
  ultimately show ?thesis by (auto simp: rev_filter [symmetric] length_Suc_conv)
qed

text \<open>For every host exactly the newest record survives, under its host; records without a
  host all survive, in order.\<close>
lemma dedup_host_pins_find:
  "List.find (\<lambda>r. record_host r = Some h) (snd (dedup_host_pins rs)) =
   List.find (\<lambda>r. record_host r = Some h) (rev rs)"
  by (simp add: dedup_host_pins_def Let_def find_keep_first_hosts
      length_filter_le_1_find_rev keep_first_hosts_once [of h "{}", simplified])

lemma dedup_host_pins_once:
  "length (filter (\<lambda>r. record_host r = Some h) (snd (dedup_host_pins rs))) \<le> 1"
  using keep_first_hosts_once [of h "{}" "rev rs"]
  by (simp add: dedup_host_pins_def Let_def rev_filter [symmetric])

lemma dedup_host_pins_hostless:
  "filter (\<lambda>r. record_host r = None) (snd (dedup_host_pins rs)) = filter (\<lambda>r. record_host r = None) rs"
  by (simp add: dedup_host_pins_def Let_def rev_filter [symmetric] keep_first_hosts_hostless)

section \<open>One certificate per host\<close>

definition hosts_pinned_once :: "peer_record list \<Rightarrow> bool" where
  "hosts_pinned_once rs \<longleftrightarrow>
     (\<forall>r\<in>set rs. \<forall>r'\<in>set rs. record_host r \<noteq> None \<and> record_host r = record_host r' \<longrightarrow>
        record_fingerprint r = record_fingerprint r')"

lemma hosts_pinned_once_dedup [inv_intros]: "hosts_pinned_once (snd (dedup_host_pins rs))"
proof -
  have "r = r'" if "r \<in> set kept" "r' \<in> set kept" "record_host r = Some h" "record_host r' = Some h"
    "length (filter (\<lambda>r. record_host r = Some h) kept) \<le> 1" for kept r r' h
  proof -
    have "r \<in> set (filter (\<lambda>r. record_host r = Some h) kept)"
      "r' \<in> set (filter (\<lambda>r. record_host r = Some h) kept)" using that by auto
    with that(5) show ?thesis by (cases "filter (\<lambda>r. record_host r = Some h) kept") auto
  qed
  then show ?thesis
    using dedup_host_pins_once [of _ rs] unfolding hosts_pinned_once_def
    by (metis option.exhaust)
qed

lemma set_first_host_cases:
  "r \<in> set (set_first_host hex host rs) \<Longrightarrow>
   r \<in> set rs \<or> (record_fingerprint r = hex \<and> host \<noteq> None \<and> record_host r = host)"
  by (induction rs) (auto split: if_splits option.splits)

lemma accept_records_cases:
  assumes "r \<in> set (accept_records f host rs)"
  shows "(r \<in> set rs \<and> (record_fingerprint r = fingerprint_hex f \<or> host = None \<or> record_host r \<noteq> host))
    \<or> (record_fingerprint r = fingerprint_hex f \<and> record_host r = host)"
  using assms
  by (auto simp: accept_records_def Let_def split: option.splits if_splits
      dest!: set_first_host_cases)

lemma hosts_pinned_once_accept [inv_intros]:
  assumes "hosts_pinned_once rs"
  shows "hosts_pinned_once (accept_records f host rs)"
  unfolding hosts_pinned_once_def
proof (intro ballI impI)
  fix r r'
  assume r: "r \<in> set (accept_records f host rs)" and r': "r' \<in> set (accept_records f host rs)"
    and h: "record_host r \<noteq> None \<and> record_host r = record_host r'"
  show "record_fingerprint r = record_fingerprint r'"
    using accept_records_cases [OF r] accept_records_cases [OF r'] h assms
    unfolding hosts_pinned_once_def by metis
qed

lemma hosts_pinned_once_filter [inv_intros]:
  "hosts_pinned_once rs \<Longrightarrow> hosts_pinned_once (filter P rs)"
  by (auto simp: hosts_pinned_once_def)

section \<open>What accepting and removing do\<close>

lemma set_first_host_has:
  "\<exists>r\<in>set rs. record_fingerprint r = hex \<Longrightarrow>
   \<exists>r\<in>set (set_first_host hex host rs). record_fingerprint r = hex \<and> (host \<noteq> None \<longrightarrow> record_host r = host)"
  by (induction rs) (auto split: option.splits)

lemma accept_records_has:
  "\<exists>r\<in>set (accept_records f host rs).
     record_fingerprint r = fingerprint_hex f \<and> (host \<noteq> None \<longrightarrow> record_host r = host)"
proof -
  define rs' where "rs' = (case host of
      Some h \<Rightarrow> filter (\<lambda>r. record_fingerprint r = fingerprint_hex f \<or> record_host r \<noteq> Some h) rs
    | None \<Rightarrow> rs)"
  have acc: "accept_records f host rs =
    (if \<exists>r\<in>set rs'. record_fingerprint r = fingerprint_hex f
     then set_first_host (fingerprint_hex f) host rs'
     else rs' @ [\<lparr> record_host = host, record_fingerprint = fingerprint_hex f \<rparr>])"
    by (simp add: accept_records_def Let_def rs'_def)
  show ?thesis
  proof (cases "\<exists>r\<in>set rs'. record_fingerprint r = fingerprint_hex f")
    case True
    show ?thesis using set_first_host_has [OF True, of host] True by (simp only: acc if_True)
  next
    case False
    then show ?thesis by (simp add: acc)
  qed
qed

lemma trust_peers_save [simp]: "trust_peers (snd (trust_save io st)) = trust_peers st"
  by (auto simp: trust_save_def split: option.splits)

lemma trust_peers_accept [simp]:
  "trust_peers (snd (trust_accept io f host st)) = accept_records f host (trust_peers st)"
  by (simp add: trust_accept_def)

text \<open>The host an accepted peer was dialled at is pinned to its certificate.\<close>
lemma pinned_after_accept:
  assumes "fingerprint_ok f"
  shows "pinned_for_host (snd (trust_accept io f (Some h) st)) h = Some f"
proof -
  let ?rs = "accept_records f (Some h) (trust_peers st)"
  obtain r where "List.find (\<lambda>r. record_host r = Some h) ?rs = Some r"
    using accept_records_has [of f "Some h" "trust_peers st"]
      find_exists [of _ ?rs "\<lambda>r. record_host r = Some h"] by blast
  moreover from this have "record_fingerprint r = fingerprint_hex f"
    using find_Some_mem [of _ ?rs r] accept_records_cases [of r f "Some h"] by fastforce
  ultimately show ?thesis
    using parse_fingerprint_hex [OF assms] by (simp add: pinned_for_host_def)
qed

lemma fingerprints_after_accept:
  assumes "fingerprint_ok f"
  shows "f \<in> set (file_fingerprints (accept_records f host rs))"
    "set (file_fingerprints (accept_records f host rs)) \<subseteq> insert f (set (file_fingerprints rs))"
proof -
  show "f \<in> set (file_fingerprints (accept_records f host rs))"
    using accept_records_has [of f host rs] parse_fingerprint_hex [OF assms]
    unfolding in_file_fingerprints by metis
  show "set (file_fingerprints (accept_records f host rs)) \<subseteq> insert f (set (file_fingerprints rs))"
  proof
    fix g assume "g \<in> set (file_fingerprints (accept_records f host rs))"
    then obtain r where "r \<in> set (accept_records f host rs)"
      "parse_fingerprint (record_fingerprint r) = Some g" by (auto simp: in_file_fingerprints)
    then show "g \<in> insert f (set (file_fingerprints rs))"
      using accept_records_cases [of r f host rs] parse_fingerprint_hex [OF assms]
      by (auto simp: in_file_fingerprints)
  qed
qed

lemma strip_prefix_self: "starts_with s s"
  by (simp add: starts_with_def) (metis append_Nil2 option.distinct(1) strip_prefix_Some)

lemma trust_peers_remove:
  "trust_peers (snd (trust_remove io sel st)) =
   filter (\<lambda>r. record_host r \<noteq> Some sel \<and> \<not> starts_with (record_fingerprint r) sel) (trust_peers st)"
  by (auto simp: trust_remove_def Let_def trust_save_def split: option.splits)

lemma find_none: "(\<And>x. x \<in> set xs \<Longrightarrow> \<not> P x) \<Longrightarrow> List.find P xs = None"
  by (induction xs) auto

lemma pinned_after_remove: "pinned_for_host (snd (trust_remove io h st)) h = None"
proof -
  have "List.find (\<lambda>r. record_host r = Some h) (trust_peers (snd (trust_remove io h st))) = None"
    by (rule find_none) (auto simp: trust_peers_remove)
  then show ?thesis by (simp add: pinned_for_host_def)
qed

lemma authorize_server_iff:
  "authorize_server st host f = Inr () \<longleftrightarrow> pinned_for_host st host \<in> {None, Some f}"
  by (auto simp: authorize_server_def split: option.splits)

section \<open>Everything that can happen to the trust state\<close>

inductive trust_step :: "trust_state \<Rightarrow> trust_state \<Rightarrow> bool" where
  AcceptPeer: "trust_accept io f host st = (res, st') \<Longrightarrow> trust_step st st'"
| RemovePeer: "trust_remove io sel st = (res', st') \<Longrightarrow> trust_step st st'"

inductive trust_reachable :: "trust_state \<Rightarrow> bool" where
  Loaded: "trust_load rd io = Inr st \<Longrightarrow> trust_reachable st"
| Stepped: "trust_reachable st \<Longrightarrow> trust_step st st' \<Longrightarrow> trust_reachable st'"

inductive_cases trust_stepE: "trust_step st st'"

lemma trust_load_peers:
  "trust_load rd io = Inr st \<Longrightarrow> \<exists>rs. trust_peers st = snd (dedup_host_pins rs)"
  by (cases rd; cases io)
    (auto simp: trust_load_def trust_save_def Let_def case_prod_unfold split: if_splits)

lemma hosts_pinned_once_step:
  assumes "trust_step st st'" "hosts_pinned_once (trust_peers st)"
  shows "hosts_pinned_once (trust_peers st')"
  using assms
proof cases
  case (AcceptPeer io f host res)
  then show ?thesis
    using hosts_pinned_once_accept [OF assms(2), of f host] trust_peers_accept [of io f host st]
    by simp
next
  case (RemovePeer io sel res')
  then show ?thesis
    using hosts_pinned_once_filter [OF assms(2)] trust_peers_remove [of io sel st] by simp
qed

lemma hosts_pinned_once_reachable: "trust_reachable st \<Longrightarrow> hosts_pinned_once (trust_peers st)"
proof (induction rule: trust_reachable.induct)
  case (Loaded rd io st)
  then show ?case using trust_load_peers hosts_pinned_once_dedup by metis
next
  case (Stepped st st')
  then show ?case using hosts_pinned_once_step by blast
qed

section \<open>Properties\<close>

text \<open>The text form of a fingerprint is read back as the same fingerprint, and whatever text is
  accepted denotes 32 bytes.\<close>
theorem fingerprint_text_round_trip:
  assumes "fingerprint_ok f"
  shows "length (fingerprint_hex f) = 64 \<and> parse_fingerprint (fingerprint_hex f) = Some f \<and>
    (\<forall>s g. parse_fingerprint s = Some g \<longrightarrow> fingerprint_ok g)"
  using parse_fingerprint_hex [OF assms] parse_fingerprint_ok assms
  by (simp add: fingerprint_hex_def length_fingerprint_display fingerprint_ok_def)

lemma fingerprint_text_round_trip_witness:
  "parse_fingerprint (fingerprint_hex (Fingerprint (replicate 32 0xAB))) =
   Some (Fingerprint (replicate 32 0xAB))"
  using fingerprint_text_round_trip [of "Fingerprint (replicate 32 0xAB)"]
  by (simp add: fingerprint_ok_def)

text \<open>Only a certificate a person accepted is ever trusted: if the daemon trusts a fingerprint
  inbound, that very fingerprint (all 32 bytes, not only the eight the peer id is made of) is in the
  trust file; and a fingerprint in the file is trusted unless an earlier record shares its first
  eight bytes.\<close>
theorem trusted_iff_remembered:
  "(is_trusted st f \<longrightarrow> f \<in> set (file_fingerprints (trust_peers st))) \<and>
   (f \<in> set (file_fingerprints (trust_peers st)) \<and>
    ids_distinct (set (file_fingerprints (trust_peers st))) \<longrightarrow> is_trusted st f)"
  using is_trusted_remembered remembered_is_trusted by blast

definition demo_trust :: trust_state where
  "demo_trust = \<lparr> trust_peers = [\<lparr> record_host = Some ''mac'', record_fingerprint =
     fingerprint_hex (Fingerprint (replicate 32 1)) \<rparr>], trust_disk = None \<rparr>"

lemma demo_trust_fingerprints:
  "file_fingerprints (trust_peers demo_trust) = [Fingerprint (replicate 32 1)]"
proof -
  have "fingerprint_ok (Fingerprint (replicate 32 1))" by (simp add: fingerprint_ok_def)
  from parse_fingerprint_hex [OF this] show ?thesis
    by (simp add: demo_trust_def file_fingerprints_def List.map_filter_simps)
qed

lemma trusted_iff_remembered_witness: "is_trusted demo_trust (Fingerprint (replicate 32 1))"
  using trusted_iff_remembered [of demo_trust "Fingerprint (replicate 32 1)"]
  by (simp add: demo_trust_fingerprints ids_distinct_def)

text \<open>Accepting a peer takes effect at once and replaces what its host was pinned to: the
  certificate is remembered, dialling the host afterwards accepts exactly this certificate, no
  other host changes the certificate it is pinned to (it may lose its pin), and no other
  certificate enters the file.\<close>
theorem accept_pins_host:
  assumes "fingerprint_ok f" "trust_accept io f (Some h) st = (res, st')"
  shows "f \<in> set (file_fingerprints (trust_peers st')) \<and>
    set (file_fingerprints (trust_peers st')) \<subseteq> insert f (set (file_fingerprints (trust_peers st))) \<and>
    (\<forall>g. authorize_server st' h g = Inr () \<longleftrightarrow> g = f)"
proof -
  have st': "st' = snd (trust_accept io f (Some h) st)" using assms(2) by simp
  have "pinned_for_host st' h = Some f" unfolding st' by (rule pinned_after_accept [OF assms(1)])
  then have "\<forall>g. authorize_server st' h g = Inr () \<longleftrightarrow> g = f"
    by (auto simp: authorize_server_iff)
  then show ?thesis
    using fingerprints_after_accept [OF assms(1), of "Some h" "trust_peers st"] st' by simp
qed

lemma accept_pins_host_witness:
  "authorize_server (snd (trust_accept None (Fingerprint (replicate 32 7)) (Some ''mac'') demo_trust))
     ''mac'' (Fingerprint (replicate 32 1)) \<noteq> Inr ()"
proof -
  have ok: "fingerprint_ok (Fingerprint (replicate 32 7))" by (simp add: fingerprint_ok_def)
  have "Fingerprint (replicate 32 1) \<noteq> Fingerprint (replicate 32 7)" by (simp add: replicate_eq_replicate)
  then show ?thesis
    using accept_pins_host [OF ok surjective_pairing, of None "''mac''" demo_trust] by blast
qed

text \<open>C35. At every moment of the daemon's life, however peers were accepted and removed and
  whatever the trust file held when it was loaded, a host is pinned to one certificate only.\<close>
theorem one_certificate_per_host:
  assumes "trust_reachable st" "r \<in> set (trust_peers st)" "r' \<in> set (trust_peers st)"
    and "record_host r = Some h" "record_host r' = Some h"
  shows "record_fingerprint r = record_fingerprint r'"
  using hosts_pinned_once_reachable [OF assms(1)] assms(2-5) unfolding hosts_pinned_once_def
  by (metis option.distinct(1))

lemma one_certificate_per_host_witness:
  "\<exists>st r. trust_load (FileContents [\<lparr> record_host = Some ''a'', record_fingerprint = ''1'' \<rparr>,
       \<lparr> record_host = Some ''a'', record_fingerprint = ''2'' \<rparr>]) None = Inr st \<and>
     r \<in> set (trust_peers st) \<and> record_fingerprint r = ''2''"
proof -
  let ?st = "\<lparr> trust_peers = [\<lparr> record_host = Some ''a'', record_fingerprint = ''2'' \<rparr>],
    trust_disk = Some [\<lparr> record_host = Some ''a'', record_fingerprint = ''2'' \<rparr>] \<rparr>"
  have load: "trust_load (FileContents [\<lparr> record_host = Some ''a'', record_fingerprint = ''1'' \<rparr>,
       \<lparr> record_host = Some ''a'', record_fingerprint = ''2'' \<rparr>]) None = Inr ?st"
    by (simp add: trust_load_def dedup_host_pins_def trust_save_def)
  have "record_fingerprint (hd (trust_peers ?st)) = record_fingerprint (last (trust_peers ?st))"
    by (rule one_certificate_per_host [OF Loaded [OF load], of _ _ "''a''"]) simp_all
  with load show ?thesis by auto
qed

text \<open>Loading keeps, for every host, the record added last, and every record without a host.\<close>
theorem load_keeps_newest:
  assumes "trust_load (FileContents rs) io = Inr st"
  shows "List.find (\<lambda>r. record_host r = Some h) (trust_peers st) =
           List.find (\<lambda>r. record_host r = Some h) (rev rs) \<and>
         filter (\<lambda>r. record_host r = None) (trust_peers st) = filter (\<lambda>r. record_host r = None) rs"
proof -
  have "trust_peers st = snd (dedup_host_pins rs)"
    using assms by (cases io)
      (auto simp: trust_load_def trust_save_def Let_def case_prod_unfold split: if_splits)
  then show ?thesis by (simp add: dedup_host_pins_find dedup_host_pins_hostless)
qed

lemma load_keeps_newest_witness:
  "List.find (\<lambda>r. record_host r = Some ''a'') (trust_peers
     \<lparr> trust_peers = [\<lparr> record_host = Some ''a'', record_fingerprint = ''2'' \<rparr>],
       trust_disk = Some [\<lparr> record_host = Some ''a'', record_fingerprint = ''2'' \<rparr>] \<rparr>) =
   Some \<lparr> record_host = Some ''a'', record_fingerprint = ''2'' \<rparr>"
  by (subst load_keeps_newest [of "[\<lparr> record_host = Some ''a'', record_fingerprint = ''1'' \<rparr>,
       \<lparr> record_host = Some ''a'', record_fingerprint = ''2'' \<rparr>]" None, THEN conjunct1])
    (simp_all add: trust_load_def dedup_host_pins_def trust_save_def)

text \<open>A record remembers one host.  Accepting the same machine at a second address therefore
  drops the pin of the first, and dialling the first address then accepts any certificate, although
  the module promises that a host that changes its certificate is refused.\<close>
theorem second_host_unpins_first:
  assumes "fingerprint_ok f" "h \<noteq> h'"
    and a1: "trust_accept io f (Some h) \<lparr> trust_peers = [], trust_disk = disk \<rparr> = (res, st1)"
    and a2: "trust_accept io' f (Some h') st1 = (res', st2)"
  shows "(\<forall>g. authorize_server st1 h g = Inr () \<longleftrightarrow> g = f) \<and>
    (\<forall>g. authorize_server st2 h g = Inr ())"
proof -
  have p1: "trust_peers st1 = [\<lparr> record_host = Some h, record_fingerprint = fingerprint_hex f \<rparr>]"
    using trust_peers_accept [of io f "Some h" "\<lparr> trust_peers = [], trust_disk = disk \<rparr>"] a1
    by (simp add: accept_records_def)
  have p2: "trust_peers st2 = [\<lparr> record_host = Some h', record_fingerprint = fingerprint_hex f \<rparr>]"
    using trust_peers_accept [of io' f "Some h'" st1] a2 p1 by (simp add: accept_records_def)
  have "pinned_for_host st1 h = Some f"
    using p1 parse_fingerprint_hex [OF assms(1)] by (simp add: pinned_for_host_def)
  moreover have "pinned_for_host st2 h = None"
    using p2 assms(2) by (simp add: pinned_for_host_def)
  ultimately show ?thesis by (auto simp: authorize_server_iff)
qed

lemma second_host_unpins_first_witness:
  "\<exists>st. authorize_server st ''mac.local'' (Fingerprint (replicate 32 66)) = Inr ()"
proof -
  have ok: "fingerprint_ok (Fingerprint (replicate 32 1))" by (simp add: fingerprint_ok_def)
  have ne: "''mac.local'' \<noteq> ''10.0.0.2''" by simp
  from second_host_unpins_first [OF ok ne surjective_pairing surjective_pairing] show ?thesis by blast
qed

text \<open>C0. The parser of the trust file reads more than the lowercase hexadecimal it is given: a plus
  sign counts as the first digit of a byte.  Two texts can then denote one certificate, which the
  comparison of texts in \<^verbatim>\<open>accept\<close> does not see.\<close>
theorem plus_sign_parses:
  "parse_fingerprint (concat (replicate 32 ''+f'')) = parse_fingerprint (concat (replicate 32 ''0F'')) \<and>
   parse_fingerprint (concat (replicate 32 ''+f'')) = Some (Fingerprint (replicate 32 15))"
proof -
  have chunk: "parse_chunk ''+f'' = Some 15" "parse_chunk ''0F'' = Some 15"
    by (simp_all add: to_digit_def)
  have step: "parse_chunks (concat (replicate n [a, b])) = Some (replicate n x)"
    if "parse_chunk [a, b] = Some x" for n a b and x :: u8
    by (induction n) (simp_all add: that del: parse_chunk.simps)
  have len: "length (concat (replicate 32 [a, b])) = 64" for a b :: char
    by (simp add: length_concat sum_list_replicate)
  show ?thesis
    using step [OF chunk(1), of 32] step [OF chunk(2), of 32]
    by (simp only: parse_fingerprint_def len if_False simp_thms option.map)
qed

end
