(* ===== verification/Clipboard.thy ===== *)
theory Clipboard
  imports Protocol
begin

text \<open>
  \<^verbatim>\<open>crates/omni-clipboard\<close>: the clipboard manager (\<^verbatim>\<open>service.rs\<close>), its port
  (\<^verbatim>\<open>port.rs\<close>), the in-memory backend (\<^verbatim>\<open>memory.rs\<close>) and the adapter over the operating
  system's clipboard (\<^verbatim>\<open>adapter.rs\<close>), whose system calls are arguments.  The manager's methods
  take the port's \<open>read\<close> and \<open>write\<close> and, for the size checks, the number of bits of \<^verbatim>\<open>usize\<close>.
  A poisoned lock is not modelled: nothing in the critical sections panics.
\<close>

section \<open>The manager\<close>

datatype clipboard_error =
    ClipboardDisabled
  | Platform string
  | Validation clipboard_validation_error

record 'p clipboard_manager =
  cm_port :: 'p
  cm_enabled :: bool
  cm_last_synced :: "clipboard_data option"

definition clipboard_new :: "'p \<Rightarrow> bool \<Rightarrow> 'p clipboard_manager" where
  "clipboard_new port enabled =
     \<lparr> cm_port = port, cm_enabled = enabled, cm_last_synced = None \<rparr>"

definition is_enabled :: "'p clipboard_manager \<Rightarrow> bool" where
  "is_enabled m = cm_enabled m"

definition set_enabled :: "bool \<Rightarrow> 'p clipboard_manager \<Rightarrow> 'p clipboard_manager" where
  "set_enabled enabled m =
     (let m = m \<lparr> cm_enabled := enabled \<rparr>
      in if \<not> enabled then m \<lparr> cm_last_synced := None \<rparr> else m)"

text \<open>\<^verbatim>\<open>poll_local_change\<close> reads the clipboard before it takes the lock on the last synchronised
  content; another task may run in between, so the two halves are separate operations.\<close>
definition poll_read ::
  "('p \<Rightarrow> clipboard_error + clipboard_data option) \<Rightarrow> 'p clipboard_manager \<Rightarrow>
   clipboard_error + clipboard_data option" where
  "poll_read read m = (if \<not> cm_enabled m then Inl ClipboardDisabled else read (cm_port m))"

definition poll_compare ::
  "nat \<Rightarrow> clipboard_data option \<Rightarrow> 'p clipboard_manager \<Rightarrow>
   clipboard_data option \<times> 'p clipboard_manager" where
  "poll_compare bits current m =
     (case current of
        None \<Rightarrow> (None, m)
      | Some cur \<Rightarrow>
          if cm_last_synced m = Some cur then (None, m)
          else let m = m \<lparr> cm_last_synced := Some cur \<rparr>
               in (case data_validate bits cur of Inl _ \<Rightarrow> (None, m) | Inr _ \<Rightarrow> (Some cur, m)))"

definition poll_local_change ::
  "nat \<Rightarrow> ('p \<Rightarrow> clipboard_error + clipboard_data option) \<Rightarrow> 'p clipboard_manager \<Rightarrow>
   (clipboard_error + clipboard_data option) \<times> 'p clipboard_manager" where
  "poll_local_change bits read m =
     (case poll_read read m of
        Inl e \<Rightarrow> (Inl e, m)
      | Inr current \<Rightarrow> (let (out, m) = poll_compare bits current m in (Inr out, m)))"

definition handle_remote_update ::
  "nat \<Rightarrow> (clipboard_data \<Rightarrow> 'p \<Rightarrow> clipboard_error + 'p) \<Rightarrow> clipboard_data \<Rightarrow>
   'p clipboard_manager \<Rightarrow> (clipboard_error + unit) \<times> 'p clipboard_manager" where
  "handle_remote_update bits write data m =
     (if \<not> cm_enabled m then (Inl ClipboardDisabled, m)
      else case data_validate bits data of
        Inl e \<Rightarrow> (Inl (Validation e), m)
      | Inr _ \<Rightarrow> (case write data (cm_port m) of
          Inl e \<Rightarrow> (Inl e, m)
        | Inr p \<Rightarrow> (Inr (), m \<lparr> cm_port := p, cm_last_synced := Some data \<rparr>)))"

section \<open>The port's contract\<close>

text \<open>What was written is what is read, until someone else copies something.\<close>
locale clipboard_port =
  fixes get :: "'p \<Rightarrow> clipboard_error + clipboard_data option"
    and put :: "clipboard_data \<Rightarrow> 'p \<Rightarrow> clipboard_error + 'p"
  assumes get_put: "put d p = Inr p' \<Longrightarrow> get p' = Inr (Some d)"
begin

lemma no_echo:
  assumes "handle_remote_update bits put d m = (Inr (), m')"
  shows "poll_local_change bits get m' = (Inr None, m')"
proof -
  obtain p where p: "put d (cm_port m) = Inr p" and en: "cm_enabled m"
    and m': "m' = m \<lparr> cm_port := p, cm_last_synced := Some d \<rparr>"
    using assms by (auto simp: handle_remote_update_def split: if_splits sum.splits)
  then show ?thesis
    using get_put [OF p] by (simp add: poll_local_change_def poll_read_def poll_compare_def)
qed

end

section \<open>The in-memory backend\<close>

record mock_clipboard =
  mock_content :: "clipboard_data option"

definition mock_read :: "mock_clipboard \<Rightarrow> clipboard_error + clipboard_data option" where
  "mock_read p = Inr (mock_content p)"

definition mock_write :: "clipboard_data \<Rightarrow> mock_clipboard \<Rightarrow> clipboard_error + mock_clipboard" where
  "mock_write d p = Inr (p \<lparr> mock_content := Some d \<rparr>)"

interpretation mock: clipboard_port mock_read mock_write
  by unfold_locales (auto simp: mock_read_def mock_write_def)

section \<open>The adapter over the operating system\<close>

text \<open>\<^verbatim>\<open>arboard\<close>'s calls are arguments: \<open>get_text\<close> and \<open>get_image\<close> return \<^const>\<open>None\<close> on any
  error of theirs, \<open>set_text\<close> and \<open>set_image\<close> the new clipboard or an error message.\<close>
definition arboard_read ::
  "('c \<Rightarrow> string option) \<Rightarrow> ('c \<Rightarrow> clipboard_image option) \<Rightarrow> 'c \<Rightarrow>
   clipboard_error + clipboard_data option" where
  "arboard_read get_text get_image c =
     (case get_text c of
        Some t \<Rightarrow> if t \<noteq> [] then Inr (Some (Text t))
                  else Inr (map_option Image (get_image c))
      | None \<Rightarrow> Inr (map_option Image (get_image c)))"

definition arboard_write ::
  "nat \<Rightarrow> (string \<Rightarrow> 'c \<Rightarrow> string + 'c) \<Rightarrow> (clipboard_image \<Rightarrow> 'c \<Rightarrow> string + 'c) \<Rightarrow>
   clipboard_data \<Rightarrow> 'c \<Rightarrow> clipboard_error + 'c" where
  "arboard_write bits set_text set_image data c =
     (case data of
        Text t \<Rightarrow> (case set_text t c of Inl e \<Rightarrow> Inl (Platform e) | Inr c' \<Rightarrow> Inr c')
      | Image img \<Rightarrow> (case image_validate bits img of
            Inl e \<Rightarrow> Inl (Validation e)
          | Inr _ \<Rightarrow> (case set_image img c of Inl e \<Rightarrow> Inl (Platform e) | Inr c' \<Rightarrow> Inr c')))"

section \<open>Lemmas\<close>

lemma poll_compare_out:
  "poll_compare bits current m = (out, m') \<Longrightarrow>
   (case out of
      Some d \<Rightarrow> current = Some d \<and> cm_last_synced m \<noteq> Some d \<and> data_validate bits d = Inr () \<and>
                m' = m \<lparr> cm_last_synced := Some d \<rparr>
    | None \<Rightarrow> m' = m \<or> (\<exists>d. current = Some d \<and> data_validate bits d \<noteq> Inr () \<and>
                             m' = m \<lparr> cm_last_synced := Some d \<rparr>))"
  by (auto simp: poll_compare_def Let_def split: option.splits if_splits sum.splits)

section \<open>Properties\<close>

text \<open>While sharing is off nothing moves: a poll and a remote update both report that it is
  disabled, neither touches the operating system's clipboard, and turning it off forgets what was
  shared.\<close>
theorem disabled_is_inert:
  assumes "m = set_enabled False m0"
  shows "poll_local_change bits read m = (Inl ClipboardDisabled, m) \<and>
    handle_remote_update bits write d m = (Inl ClipboardDisabled, m) \<and>
    cm_port m = cm_port m0 \<and> cm_last_synced m = None"
  using assms
  by (simp add: set_enabled_def poll_local_change_def poll_read_def handle_remote_update_def)

lemma disabled_is_inert_witness:
  "fst (poll_local_change 64 mock_read
     (set_enabled False (clipboard_new \<lparr> mock_content = Some (Text ''secret'') \<rparr> True))) =
   Inl ClipboardDisabled"
  using disabled_is_inert [OF refl, of 64 mock_read
      "clipboard_new \<lparr> mock_content = Some (Text ''secret'') \<rparr> True"] by simp



text \<open>A payload that is malformed or over the size limit is never sent and never reaches the
  operating system's clipboard.\<close>
theorem invalid_payload_stops:
  assumes "data_validate bits d = Inl e" "cm_enabled m"
  shows "handle_remote_update bits write d m = (Inl (Validation e), m) \<and>
    (read (cm_port m) = Inr (Some d) \<longrightarrow> fst (poll_local_change bits read m) = Inr None)"
  using assms by (simp add: handle_remote_update_def poll_local_change_def poll_read_def
      poll_compare_def Let_def)

lemma invalid_payload_stops_witness:
  "\<exists>e. fst (handle_remote_update 64 mock_write (Image \<lparr> image_width = 1, image_height = 1,
     image_bytes = [] \<rparr>) (clipboard_new \<lparr> mock_content = None \<rparr> True)) = Inl (Validation e)"
proof -
  obtain e where e: "data_validate 64 (Image \<lparr> image_width = 1, image_height = 1, image_bytes = [] \<rparr>) = Inl e"
    by (simp add: image_validate_def checked_mul_def)
  have "cm_enabled (clipboard_new \<lparr> mock_content = None \<rparr> True)" by (simp add: clipboard_new_def)
  from invalid_payload_stops [OF e this] show ?thesis by simp
qed

text \<open>The poll is not atomic: a remote update that lands between the read and the comparison
  makes the poll hand out the old content as if it had just been copied, which sends the stale
  content back over the newer one.\<close>
theorem stale_poll_broadcasts:
  assumes "cm_enabled m" "cm_last_synced m = Some old" "mock_content (cm_port m) = Some old"
    and "data_validate bits old = Inr ()" "data_validate bits new = Inr ()" "new \<noteq> old"
    and "poll_read mock_read m = Inr current"
    and "handle_remote_update bits mock_write new m = (Inr (), m')"
  shows "fst (poll_compare bits current m) = None \<and> fst (poll_compare bits current m') = Some old"
proof -
  have cur: "current = Some old" using assms(1,3,7) by (simp add: poll_read_def mock_read_def)
  have "cm_last_synced m' = Some new"
    using assms(1,5,8) by (auto simp: handle_remote_update_def mock_write_def)
  then show ?thesis using cur assms(2,4,6) by (simp add: poll_compare_def)
qed

lemma stale_poll_broadcasts_witness:
  "\<exists>m' :: mock_clipboard clipboard_manager.
     fst (poll_compare 64 (Some (Text ''old'')) m') = Some (Text ''old'')"
proof -
  define m where "m = \<lparr> cm_port = \<lparr> mock_content = Some (Text ''old'') \<rparr>, cm_enabled = True,
    cm_last_synced = Some (Text ''old'') \<rparr>"
  have "fst (handle_remote_update 64 mock_write (Text ''new'') m) = Inr ()"
    by (simp add: m_def handle_remote_update_def mock_write_def MAX_CLIPBOARD_BYTES_def)
  then obtain m' where "handle_remote_update 64 mock_write (Text ''new'') m = (Inr (), m')"
    by (metis prod.collapse)
  then have "fst (poll_compare 64 (Some (Text ''old'')) m') = Some (Text ''old'')"
    by (intro stale_poll_broadcasts [where m = m and new = "Text ''new''", THEN conjunct2])
      (simp_all add: m_def MAX_CLIPBOARD_BYTES_def poll_read_def mock_read_def)
  then show ?thesis by blast
qed

end
