(* ===== verification/Config.thy ===== *)
theory Config
  imports Protocol Geometry
begin

text \<open>
  \<^verbatim>\<open>crates/omni-runtime/src/config.rs\<close>, and the edge names of \<^verbatim>\<open>daemon.rs\<close> that the \<^verbatim>\<open>layout\<close>
  command shares with it.  The file on disk is what reading it gives: nothing, a configuration in
  the JSON form \<^verbatim>\<open>serde_json\<close> writes, or a failure with the operating system's or the parser's
  message.  A write that fails may leave anything in the file.
\<close>

section \<open>The configuration\<close>

record config =
  cfg_port :: "u16 option"
  cfg_screen :: "(u32 \<times> u32) option"
  cfg_placements :: "string \<rightharpoonup> edge"
  cfg_clipboard_sharing :: bool
  cfg_modifier_swaps :: "string \<rightharpoonup> modifier_swap"

definition config_default :: config where
  "config_default = \<lparr> cfg_port = None, cfg_screen = None, cfg_placements = Map.empty,
     cfg_clipboard_sharing = False, cfg_modifier_swaps = Map.empty \<rparr>"

definition default_port :: u16 where "default_port = 4733"

definition config_port :: "config \<Rightarrow> u16" where
  "config_port c = (case cfg_port c of Some p \<Rightarrow> p | None \<Rightarrow> default_port)"

definition edge_for :: "config \<Rightarrow> string \<Rightarrow> edge option" where
  "edge_for c host = cfg_placements c host"

definition modifier_swap_for :: "config \<Rightarrow> string \<Rightarrow> modifier_swap" where
  "modifier_swap_for c host =
     (case cfg_modifier_swaps c host of Some s \<Rightarrow> s | None \<Rightarrow> SwapNone)"

datatype config_error = NoConfigDir | ConfigIo string | ConfigParse string

fun config_error_text :: "config_error \<Rightarrow> string" where
  "config_error_text NoConfigDir = ''no configuration directory on this platform''"
| "config_error_text (ConfigIo e) = ''config i/o failed: '' @ e"
| "config_error_text (ConfigParse e) = ''config file is invalid: '' @ e"

datatype config_file = ConfigAbsent | ConfigHolds config | ConfigUnreadable string | ConfigGarbled string

fun config_load :: "config_file \<Rightarrow> config_error + config" where
  "config_load ConfigAbsent = Inr config_default"
| "config_load (ConfigHolds c) = Inr c"
| "config_load (ConfigUnreadable e) = Inl (ConfigIo e)"
| "config_load (ConfigGarbled e) = Inl (ConfigParse e)"

text \<open>The first argument is the outcome of the write: success, or the error with what it left.\<close>
definition config_save ::
  "(config_error \<times> config_file) option \<Rightarrow> config \<Rightarrow> config_file \<Rightarrow>
   (config_error + unit) \<times> config_file" where
  "config_save io c file = (case io of
      Some (e, left) \<Rightarrow> (Inl e, left)
    | None \<Rightarrow> (Inr (), ConfigHolds c))"

text \<open>How \<^verbatim>\<open>set_layout\<close>, \<^verbatim>\<open>set_clipboard\<close> and \<^verbatim>\<open>set_modifier_swap\<close> persist a change: load, change the
  one field, save; the error of the step that failed tells the two failures apart.\<close>
datatype persist_error = NotSaved config_error | NotRead config_error

definition config_update ::
  "(config_error \<times> config_file) option \<Rightarrow> (config \<Rightarrow> config) \<Rightarrow> config_file \<Rightarrow>
   (persist_error + unit) \<times> config_file" where
  "config_update io change file = (case config_load file of
      Inl e \<Rightarrow> (Inl (NotRead e), file)
    | Inr c \<Rightarrow> (case config_save io (change c) file of
          (Inl e, file) \<Rightarrow> (Inl (NotSaved e), file)
        | (Inr _, file) \<Rightarrow> (Inr (), file)))"

section \<open>Edge names\<close>

definition parse_edge :: "string \<Rightarrow> edge option" where
  "parse_edge name = (let word = to_ascii_lowercase (trim name) in
     if word = ''left'' then Some LeftEdge
     else if word = ''right'' then Some RightEdge
     else if word = ''top'' \<or> word = ''up'' then Some TopEdge
     else if word = ''bottom'' \<or> word = ''down'' then Some BottomEdge
     else None)"

fun edge_name :: "edge \<Rightarrow> string" where
  "edge_name LeftEdge = ''left''"
| "edge_name RightEdge = ''right''"
| "edge_name TopEdge = ''top''"
| "edge_name BottomEdge = ''bottom''"

lemma edge_name_inject: "edge_name e = edge_name f \<longleftrightarrow> e = f"
  by (cases e; cases f) simp_all

lemma graphic_edge_name: "c \<in> set (edge_name e) \<Longrightarrow> graphic c"
  by (cases e) (auto simp: graphic_def)

section \<open>Properties\<close>

text \<open>What the daemon prints for an edge it also reads back, in any letter case and with blanks
  around it, and nothing but the six names of the command is read as an edge.\<close>
theorem edge_names_round_trip:
  assumes "to_ascii_lowercase word = edge_name e"
  shows "parse_edge (replicate m CHR 0x20 @ word @ replicate n CHR 0x20) = Some e \<and>
    (\<forall>s f. parse_edge s = Some f \<longrightarrow> to_ascii_lowercase (trim s) = edge_name f \<or>
       (f, to_ascii_lowercase (trim s)) \<in> {(TopEdge, ''up''), (BottomEdge, ''down'')})"
proof -
  have ne: "word \<noteq> []" using assms by (cases e) (auto simp: to_ascii_lowercase_def)
  have "graphic c" if "c \<in> set word" for c
  proof (rule graphic_ascii_lower)
    have "ascii_lower c \<in> set (edge_name e)"
      using that assms unfolding to_ascii_lowercase_def by (metis image_eqI set_map)
    then show "graphic (ascii_lower c)" by (rule graphic_edge_name)
  qed
  then have "trim (replicate m CHR 0x20 @ word @ replicate n CHR 0x20) = word"
    using ne by (intro trim_blanks) auto
  then have "parse_edge (replicate m CHR 0x20 @ word @ replicate n CHR 0x20) = Some e"
    using assms by (cases e) (simp_all add: parse_edge_def)
  moreover have "to_ascii_lowercase (trim s) = edge_name f \<or>
       (f, to_ascii_lowercase (trim s)) \<in> {(TopEdge, ''up''), (BottomEdge, ''down'')}"
    if "parse_edge s = Some f" for s f
    using that by (auto simp: parse_edge_def Let_def split: if_splits)
  ultimately show ?thesis by blast
qed

lemma edge_names_round_trip_witness: "parse_edge ''  ToP '' = Some TopEdge"
proof -
  have "to_ascii_lowercase ''ToP'' = edge_name TopEdge" by code_simp
  from edge_names_round_trip [OF this, of 2 1] show ?thesis by (simp add: numeral_2_eq_2)
qed

text \<open>Persisting one setting keeps every other one: a successful update of a readable file
  loads back as exactly the old configuration with that change, and an unreadable file is neither
  overwritten nor reset to the defaults.\<close>
theorem config_update_persists:
  "(case config_load file of
      Inl e \<Rightarrow> config_update io change file = (Inl (NotRead e), file)
    | Inr c \<Rightarrow> config_update None change file = (Inr (), ConfigHolds (change c)) \<and>
        config_load (snd (config_update None change file)) = Inr (change c))"
  by (simp add: config_update_def config_save_def split: sum.split)

end
