(* ===== verification/Daemon.thy ===== *)
theory Daemon
  imports Session TrustFile Clipboard Config
begin

text \<open>
  \<^verbatim>\<open>crates/omni-runtime/src/daemon.rs\<close>: the state the daemon's tasks share, and the handlers that
  decide where the cursor is and where input goes: capture routing, the virtual desktop, and the
  hand-over messages.  A handler runs under the state lock, so each is one atomic function on the
  shared state.

  Iterating over a hash map visits the entries in an arbitrary order: a function that iterates
  takes the order as its first argument, a list of the keys.  A peer's command channel is the list
  of the commands sent and not yet taken by its task; the local sink is the list of calls made to
  it (\<^const>\<open>None\<close> when injection is denied), its errors are only logged.  Where the Rust code may
  panic the result is an option.
\<close>

section \<open>The shared state\<close>

datatype peer_command =
    InputCmd input_event
  | WarpCmd i32 i32
  | CursorReturnedCmd i32 i32
  | ClipboardCmd clipboard_data
  | DisconnectCmd

record peer_link =
  link_host :: string
  link_fingerprint :: fingerprint
  link_session :: session_id
  link_role :: role
  link_screen :: screen
  link_edge :: edge
  link_modifier_swap :: modifier_swap
  link_commands :: "peer_command list"

text \<open>The sender of a decision is named by a number; \<open>sh_decisions\<close> records what was sent.\<close>
record pending_request =
  pending_host :: string
  pending_fingerprint :: fingerprint
  pending_decision :: nat

record daemon_state =
  ds_sessions :: "recording_events session_manager"
  ds_layout :: virtual_layout
  ds_cursor :: cursor_state
  ds_links :: "machine_id \<rightharpoonup> peer_link"
  ds_pending :: "pending_request list"
  ds_placements :: "string \<rightharpoonup> edge"
  ds_modifier_swaps :: "string \<rightharpoonup> modifier_swap"

datatype sink_call = SinkInject input_event | SinkWarp i32 i32

record 'p shared =
  sh_state :: daemon_state
  sh_trust :: trust_state
  sh_sink :: "sink_call list option"
  sh_suppress :: bool
  sh_local_machine :: machine_id
  sh_local_fingerprint :: fingerprint
  sh_local_screen :: screen
  sh_port :: u16
  sh_config :: config_file
  sh_capturing :: bool
  sh_clipboard :: "'p clipboard_manager"
  sh_clipboard_on :: bool
  sh_changes :: u64
  sh_decisions :: "nat \<rightharpoonup> bool"

abbreviation sessions :: "'p shared \<Rightarrow> recording_events session_manager" where
  "sessions sh \<equiv> ds_sessions (sh_state sh)"
abbreviation layout :: "'p shared \<Rightarrow> virtual_layout" where
  "layout sh \<equiv> ds_layout (sh_state sh)"
abbreviation cursor :: "'p shared \<Rightarrow> cursor_state" where
  "cursor sh \<equiv> ds_cursor (sh_state sh)"
abbreviation plinks :: "'p shared \<Rightarrow> machine_id \<rightharpoonup> peer_link" where
  "plinks sh \<equiv> ds_links (sh_state sh)"
abbreviation active :: "'p shared \<Rightarrow> active_target" where
  "active sh \<equiv> sm_active (sessions sh)"

definition set_sessions :: "recording_events session_manager \<Rightarrow> 'p shared \<Rightarrow> 'p shared" where
  "set_sessions s sh = sh \<lparr> sh_state := (sh_state sh) \<lparr> ds_sessions := s \<rparr> \<rparr>"
definition set_layout_field :: "virtual_layout \<Rightarrow> 'p shared \<Rightarrow> 'p shared" where
  "set_layout_field l sh = sh \<lparr> sh_state := (sh_state sh) \<lparr> ds_layout := l \<rparr> \<rparr>"
definition set_cursor :: "cursor_state \<Rightarrow> 'p shared \<Rightarrow> 'p shared" where
  "set_cursor c sh = sh \<lparr> sh_state := (sh_state sh) \<lparr> ds_cursor := c \<rparr> \<rparr>"
definition set_links :: "(machine_id \<rightharpoonup> peer_link) \<Rightarrow> 'p shared \<Rightarrow> 'p shared" where
  "set_links m sh = sh \<lparr> sh_state := (sh_state sh) \<lparr> ds_links := m \<rparr> \<rparr>"

lemmas setters = set_sessions_def set_layout_field_def set_cursor_def set_links_def

text \<open>A list of keys in the order some iteration of the hash map visits them.\<close>
definition iterates :: "'k list \<Rightarrow> ('k \<rightharpoonup> 'v) \<Rightarrow> bool" where
  "iterates ord m \<longleftrightarrow> distinct ord \<and> set ord = dom m"

section \<open>Small steps of the shared state\<close>

definition machine_id_of :: "fingerprint \<Rightarrow> machine_id" where
  "machine_id_of f = MachineId (peer_value (peer_id_of f))"

definition detect_screen :: "(u32 \<times> u32) option \<Rightarrow> (u32 \<times> u32) option \<Rightarrow> screen" where
  "detect_screen os_size configured =
     (let (w, h) = (case os_size of Some s \<Rightarrow> s
        | None \<Rightarrow> (case configured of Some s \<Rightarrow> s | None \<Rightarrow> (1920, 1080)))
      in \<lparr> width = w, height = h \<rparr>)"

definition home_cursor :: "'p shared \<Rightarrow> cursor_state" where
  "home_cursor sh = \<lparr> cursor_machine = sh_local_machine sh, cursor_position = \<lparr> px = 0, py = 0 \<rparr> \<rparr>"

definition sync_suppression :: "'p shared \<Rightarrow> 'p shared" where
  "sync_suppression sh =
     sh \<lparr> sh_suppress := (case active sh of Remote _ \<Rightarrow> True | Local \<Rightarrow> False) \<rparr>"

text \<open>\<^verbatim>\<open>wrapping_add\<close> on a 64-bit counter.\<close>
definition notify_change :: "'p shared \<Rightarrow> 'p shared" where
  "notify_change sh = sh \<lparr> sh_changes := sh_changes sh + 1 \<rparr>"

definition or_keep :: "'a \<Rightarrow> 'e + 'a \<Rightarrow> 'a" where
  "or_keep a r = (case r of Inr a' \<Rightarrow> a' | Inl _ \<Rightarrow> a)"

definition place_link :: "machine_id \<Rightarrow> (machine_id \<rightharpoonup> peer_link) \<Rightarrow> virtual_layout \<Rightarrow>
    machine_id \<Rightarrow> virtual_layout" where
  "place_link loc ls l m = (case ls m of
      None \<Rightarrow> l
    | Some lk \<Rightarrow>
        let l = or_keep l (add_machine l \<lparr> machine_id = m, machine_screen = link_screen lk \<rparr>)
        in or_keep l (link l loc (link_edge lk) m))"

definition rebuild_layout :: "machine_id list \<Rightarrow> 'p shared \<Rightarrow> 'p shared" where
  "rebuild_layout ord sh =
     (let l = or_keep layout_new (add_machine layout_new
                \<lparr> machine_id = sh_local_machine sh, machine_screen = sh_local_screen sh \<rparr>);
          l = foldl (place_link (sh_local_machine sh) (plinks sh)) l ord;
          sh = set_layout_field l sh
      in if layout_screen l (cursor_machine (cursor sh)) = None
         then set_cursor (home_cursor sh) sh else sh)"

text \<open>\<^verbatim>\<open>commands.send\<close>: a peer that is not there gets nothing.\<close>
definition send_command :: "peer_command \<Rightarrow> machine_id \<Rightarrow> 'p shared \<Rightarrow> 'p shared" where
  "send_command cmd m sh = (case plinks sh m of
      None \<Rightarrow> sh
    | Some lk \<Rightarrow> set_links ((plinks sh)(m \<mapsto> lk \<lparr> link_commands := link_commands lk @ [cmd] \<rparr>)) sh)"

definition broadcast :: "machine_id list \<Rightarrow> peer_command \<Rightarrow> 'p shared \<Rightarrow> 'p shared" where
  "broadcast ord cmd sh = foldl (\<lambda>sh m. send_command cmd m sh) sh ord"

definition call_sink :: "sink_call \<Rightarrow> 'p shared \<Rightarrow> 'p shared" where
  "call_sink c sh = sh \<lparr> sh_sink := map_option (\<lambda>cs. cs @ [c]) (sh_sink sh) \<rparr>"

definition inject :: "input_event \<Rightarrow> 'p shared \<Rightarrow> 'p shared" where
  "inject ev sh = call_sink (SinkInject ev) sh"

definition warp :: "i32 \<Rightarrow> i32 \<Rightarrow> 'p shared \<Rightarrow> 'p shared" where
  "warp x y sh = call_sink (SinkWarp x y) sh"

section \<open>Capture\<close>

definition clamp_to_screen :: "screen \<Rightarrow> i32 \<Rightarrow> i32 \<Rightarrow> point" where
  "clamp_to_screen s x y =
     \<lparr> px = min (if sint x < 0 then 0 else x) (saturating_sub (width s) 1),
       py = min (if sint y < 0 then 0 else y) (saturating_sub (height s) 1) \<rparr>"

definition sync_cursor_to_os :: "(i32 \<times> i32) option \<Rightarrow> 'p shared \<Rightarrow> 'p shared" where
  "sync_cursor_to_os os_cursor sh = (case os_cursor of
      None \<Rightarrow> sh
    | Some (x, y) \<Rightarrow> set_cursor \<lparr> cursor_machine = sh_local_machine sh,
        cursor_position = clamp_to_screen (sh_local_screen sh) x y \<rparr> sh)"

definition place_cursor_after_crossing :: "machine_id list \<Rightarrow> crossing \<Rightarrow> 'p shared \<Rightarrow> 'p shared" where
  "place_cursor_after_crossing ord c sh =
     (let x = px (crossing_entry c); y = py (crossing_entry c) in
      if crossing_peer c = sh_local_machine sh
      then broadcast ord (CursorReturnedCmd x y) (warp x y sh)
      else send_command (WarpCmd x y) (crossing_peer c) sh)"

definition forward_to :: "machine_id \<Rightarrow> input_event \<Rightarrow> 'p shared \<Rightarrow> 'p shared" where
  "forward_to peer ev sh = (case plinks sh peer of
      None \<Rightarrow> sh
    | Some lk \<Rightarrow> send_command (InputCmd (swap_apply (link_modifier_swap lk) ev)) peer sh)"

text \<open>Returns whether the move crossed an edge.\<close>
definition advance_cursor ::
  "machine_id list \<Rightarrow> mouse_delta \<Rightarrow> 'p shared \<Rightarrow> (bool \<times> 'p shared) option" where
  "advance_cursor ord delta sh =
     (let delta = (case layout_screen (layout sh) (cursor_machine (cursor sh)) of
            Some s \<Rightarrow> if cursor_machine (cursor sh) \<noteq> sh_local_machine sh
                      then scale_delta delta (sh_local_screen sh) s else delta
          | None \<Rightarrow> delta)
      in case advance (layout sh) (cursor sh) delta of
           None \<Rightarrow> None
         | Some (Inl e) \<Rightarrow> Some (False, set_cursor (home_cursor sh) sh)
         | Some (Inr a) \<Rightarrow>
             (case advance_crossing a of
                None \<Rightarrow> Some (False, set_cursor (advance_cursor_state a) sh)
              | Some c \<Rightarrow>
                  (case handle_crossing recording_emit c (sessions sh) of
                     Inl _ \<Rightarrow> Some (False, sh)
                   | Inr s \<Rightarrow> Some (True, place_cursor_after_crossing ord c
                               (set_cursor (advance_cursor_state a) (set_sessions s sh))))))"

definition route_captured ::
  "machine_id list \<Rightarrow> (i32 \<times> i32) option \<Rightarrow> input_event \<Rightarrow> 'p shared \<Rightarrow> 'p shared option" where
  "route_captured ord os_cursor ev sh =
     do { (crossed, sh) \<leftarrow>
            (case active sh of
               Local \<Rightarrow> (case ev of
                   Motion delta \<Rightarrow> advance_cursor ord delta (sync_cursor_to_os os_cursor sh)
                 | _ \<Rightarrow> Some (False, sh))
             | Remote peer \<Rightarrow> (case ev of
                   Motion delta \<Rightarrow> do {
                     (crossed, sh) \<leftarrow> advance_cursor ord delta sh;
                     Some (crossed, if crossed then sh
                       else forward_to peer (Pointer (px (cursor_position (cursor sh)))
                                                     (py (cursor_position (cursor sh)))) sh) }
                 | other \<Rightarrow> Some (False, forward_to peer other sh)));
          let sh = sync_suppression sh;
          Some (if crossed then notify_change sh else sh) }"

section \<open>The hand-over\<close>

definition yield_control_to_peer :: "'p shared \<Rightarrow> 'p shared" where
  "yield_control_to_peer sh =
     (let (gave_way, s) = yield_control recording_emit (sessions sh);
          sh = set_sessions s sh
      in if gave_way then notify_change (sync_suppression (set_cursor (home_cursor sh) sh)) else sh)"

definition follow_peer_cursor :: "machine_id \<Rightarrow> i32 \<Rightarrow> i32 \<Rightarrow> 'p shared \<Rightarrow> 'p shared" where
  "follow_peer_cursor peer x y sh =
     (case layout_screen (layout sh) peer of
        None \<Rightarrow> sh
      | Some s \<Rightarrow>
          let before = active sh in
          (case follow_peer recording_emit peer (sessions sh) of
             Inl _ \<Rightarrow> sh
           | Inr m \<Rightarrow>
               let sh = sync_suppression (set_cursor \<lparr> cursor_machine = peer,
                          cursor_position = clamp_to_screen s x y \<rparr> (set_sessions m sh))
               in if before \<noteq> Remote peer then notify_change sh else sh))"

definition cleanup_peer :: "machine_id list \<Rightarrow> machine_id \<Rightarrow> 'p shared \<Rightarrow> 'p shared" where
  "cleanup_peer ord m sh =
     (let sh = (case plinks sh m of
            None \<Rightarrow> sh
          | Some lk \<Rightarrow>
              let sh = set_links ((plinks sh)(m := None)) sh
              in set_sessions (or_keep (sessions sh)
                   (session_close recording_emit (link_session lk) (sessions sh))) sh)
      in notify_change (sync_suppression (rebuild_layout ord sh)))"

definition disconnect_all :: "machine_id list \<Rightarrow> 'p shared \<Rightarrow> 'p shared" where
  "disconnect_all ord sh = broadcast ord DisconnectCmd sh"

section \<open>Field lemmas\<close>

lemma call_sink_fields [simp]:
  "sh_state (call_sink c sh) = sh_state sh"
  "sh_suppress (call_sink c sh) = sh_suppress sh"
  "sh_local_machine (call_sink c sh) = sh_local_machine sh"
  "sh_local_screen (call_sink c sh) = sh_local_screen sh"
  "sh_trust (call_sink c sh) = sh_trust sh"
  "sh_clipboard (call_sink c sh) = sh_clipboard sh"
  by (simp_all add: call_sink_def)

lemma warp_fields [simp]:
  "sh_state (warp x y sh) = sh_state sh"
  "sh_suppress (warp x y sh) = sh_suppress sh"
  "sh_local_machine (warp x y sh) = sh_local_machine sh"
  "sh_local_screen (warp x y sh) = sh_local_screen sh"
  by (simp_all add: warp_def)

lemma setters_env [simp]:
  "sh_local_machine (set_sessions s sh) = sh_local_machine sh"
  "sh_local_machine (set_layout_field l sh) = sh_local_machine sh"
  "sh_local_machine (set_cursor c sh) = sh_local_machine sh"
  "sh_local_machine (set_links ls sh) = sh_local_machine sh"
  "sh_local_screen (set_sessions s sh) = sh_local_screen sh"
  "sh_local_screen (set_layout_field l sh) = sh_local_screen sh"
  "sh_local_screen (set_cursor c sh) = sh_local_screen sh"
  "sh_local_screen (set_links ls sh) = sh_local_screen sh"
  "sh_suppress (set_sessions s sh) = sh_suppress sh"
  "sh_suppress (set_layout_field l sh) = sh_suppress sh"
  "sh_suppress (set_cursor c sh) = sh_suppress sh"
  "sh_suppress (set_links ls sh) = sh_suppress sh"
  by (simp_all add: setters)

lemma setters_state [simp]:
  "sessions (set_sessions s sh) = s" "layout (set_sessions s sh) = layout sh"
  "cursor (set_sessions s sh) = cursor sh" "plinks (set_sessions s sh) = plinks sh"
  "sessions (set_layout_field l sh) = sessions sh" "layout (set_layout_field l sh) = l"
  "cursor (set_layout_field l sh) = cursor sh" "plinks (set_layout_field l sh) = plinks sh"
  "sessions (set_cursor c sh) = sessions sh" "layout (set_cursor c sh) = layout sh"
  "cursor (set_cursor c sh) = c" "plinks (set_cursor c sh) = plinks sh"
  "sessions (set_links ls sh) = sessions sh" "layout (set_links ls sh) = layout sh"
  "cursor (set_links ls sh) = cursor sh" "plinks (set_links ls sh) = ls"
  by (simp_all add: setters)

lemma send_command_fields [simp]:
  "sessions (send_command c m sh) = sessions sh"
  "layout (send_command c m sh) = layout sh"
  "cursor (send_command c m sh) = cursor sh"
  "sh_suppress (send_command c m sh) = sh_suppress sh"
  "sh_local_machine (send_command c m sh) = sh_local_machine sh"
  "sh_local_screen (send_command c m sh) = sh_local_screen sh"
  by (simp_all add: send_command_def split: option.splits)

text \<open>Sending a command changes the receiver's queue and nothing else of any link.\<close>
lemma plinks_send_command:
  "plinks (send_command c m sh) x =
   (if x = m then map_option (\<lambda>lk. lk \<lparr> link_commands := link_commands lk @ [c] \<rparr>) (plinks sh x)
    else plinks sh x)"
  by (auto simp: send_command_def split: option.splits)

lemma send_command_links [simp]:
  "map_option link_session (plinks (send_command c m sh) x) = map_option link_session (plinks sh x)"
  "map_option link_screen (plinks (send_command c m sh) x) = map_option link_screen (plinks sh x)"
  "map_option link_edge (plinks (send_command c m sh) x) = map_option link_edge (plinks sh x)"
  by (simp_all add: plinks_send_command option.map_comp comp_def)

lemma broadcast_fields [simp]:
  "sessions (broadcast ord c sh) = sessions sh"
  "layout (broadcast ord c sh) = layout sh"
  "cursor (broadcast ord c sh) = cursor sh"
  "sh_suppress (broadcast ord c sh) = sh_suppress sh"
  "sh_local_machine (broadcast ord c sh) = sh_local_machine sh"
  "sh_local_screen (broadcast ord c sh) = sh_local_screen sh"
  unfolding broadcast_def by (induction ord arbitrary: sh) simp_all

lemma broadcast_links [simp]:
  "map_option link_session (plinks (broadcast ord c sh) x) = map_option link_session (plinks sh x)"
  "map_option link_screen (plinks (broadcast ord c sh) x) = map_option link_screen (plinks sh x)"
  "map_option link_edge (plinks (broadcast ord c sh) x) = map_option link_edge (plinks sh x)"
  unfolding broadcast_def by (induction ord arbitrary: sh) simp_all

text \<open>In whatever order the peers are visited, each gets the command once.\<close>
lemma plinks_broadcast:
  "distinct ord \<Longrightarrow> plinks (broadcast ord c sh) x =
   (if x \<in> set ord then map_option (\<lambda>lk. lk \<lparr> link_commands := link_commands lk @ [c] \<rparr>) (plinks sh x)
    else plinks sh x)"
  unfolding broadcast_def by (induction ord arbitrary: sh) (auto simp: plinks_send_command)

lemma sync_suppression_fields [simp]:
  "sh_state (sync_suppression sh) = sh_state sh"
  "sh_suppress (sync_suppression sh) \<longleftrightarrow> active sh \<noteq> Local"
  "sh_local_machine (sync_suppression sh) = sh_local_machine sh"
  "sh_local_screen (sync_suppression sh) = sh_local_screen sh"
  by (auto simp: sync_suppression_def split: active_target.splits)

lemma notify_change_fields [simp]:
  "sh_state (notify_change sh) = sh_state sh"
  "sh_suppress (notify_change sh) = sh_suppress sh"
  "sh_local_machine (notify_change sh) = sh_local_machine sh"
  "sh_local_screen (notify_change sh) = sh_local_screen sh"
  by (simp_all add: notify_change_def)

section \<open>The virtual desktop rebuilt from the links\<close>

lemma screens_or_keep_add:
  "screens (or_keep l (add_machine l m)) =
   (if screens l (machine_id m) = None then (screens l)(machine_id m \<mapsto> machine_screen m) else screens l)"
  by (simp add: or_keep_def add_machine_def)

lemma screens_place_link:
  "screens (place_link loc ls l m) = (case ls m of None \<Rightarrow> screens l
     | Some lk \<Rightarrow> if screens l m = None then (screens l)(m \<mapsto> link_screen lk) else screens l)"
  by (auto simp: place_link_def Let_def or_keep_def add_machine_def link_def split: option.splits)

lemma layout_ok_place_link [inv_intros]: "layout_ok l \<Longrightarrow> layout_ok (place_link loc ls l m)"
  by (auto simp: place_link_def Let_def or_keep_def split: option.splits sum.splits
      intro: layout_ok_add_machine layout_ok_link)

lemma neighbor_or_keep_add: "neighbor (or_keep l (add_machine l m)) = neighbor l"
  by (simp add: or_keep_def add_machine_def neighbor_def fun_eq_iff)

lemma neighbor_place_link:
  assumes "screens l loc \<noteq> None" "ls m = Some lk"
  shows "neighbor (place_link loc ls l m) x e =
    (if x = m \<and> e = opposite (link_edge lk) then Some loc
     else if x = loc \<and> e = link_edge lk then Some m else neighbor l x e)"
proof -
  define l1 where "l1 = or_keep l (add_machine l \<lparr> machine_id = m, machine_screen = link_screen lk \<rparr>)"
  have "screens l1 m \<noteq> None" "screens l1 loc \<noteq> None"
    using assms(1) by (auto simp: l1_def screens_or_keep_add)
  then obtain l2 where l2: "link l1 loc (link_edge lk) m = Inr l2"
    by (auto simp: link_def)
  have "place_link loc ls l m = l2"
    using assms(2) l2 by (simp add: place_link_def Let_def l1_def or_keep_def)
  moreover have "neighbor l1 = neighbor l" by (simp add: l1_def neighbor_or_keep_add)
  ultimately show ?thesis by (simp add: neighbor_link [OF l2])
qed

definition built_layout ::
  "machine_id \<Rightarrow> screen \<Rightarrow> (machine_id \<rightharpoonup> peer_link) \<Rightarrow> machine_id list \<Rightarrow> virtual_layout" where
  "built_layout loc scr ls ord = foldl (place_link loc ls)
     (or_keep layout_new (add_machine layout_new \<lparr> machine_id = loc, machine_screen = scr \<rparr>)) ord"

lemma built_layout_snoc:
  "built_layout loc scr ls (ord @ [m]) = place_link loc ls (built_layout loc scr ls ord) m"
  by (simp add: built_layout_def)

lemma screens_built_layout:
  "screens (built_layout loc scr ls ord) x =
   (if x = loc then Some scr else if x \<in> set ord then map_option link_screen (ls x) else None)"
proof (induction ord arbitrary: x rule: rev_induct)
  case Nil
  then show ?case by (simp add: built_layout_def screens_or_keep_add layout_new_def)
next
  case (snoc m ord)
  then show ?case
    by (cases "ls m") (simp_all add: built_layout_snoc screens_place_link)
qed

lemma layout_ok_built_layout: "layout_ok (built_layout loc scr ls ord)"
proof (induction ord rule: rev_induct)
  case Nil
  then show ?case
    by (simp add: built_layout_def or_keep_def add_machine_def layout_new_def layout_ok_def)
next
  case (snoc m ord)
  then show ?case by (simp add: built_layout_snoc layout_ok_place_link)
qed

text \<open>Every peer's way home is linked, whatever the other peers' edges.\<close>
lemma built_layout_home:
  assumes "m \<in> set ord" "ls m = Some lk" "m \<noteq> loc"
  shows "neighbor (built_layout loc scr ls ord) m (opposite (link_edge lk)) = Some loc"
  using assms(1)
proof (induction ord rule: rev_induct)
  case Nil
  then show ?case by simp
next
  case (snoc n ord)
  have "screens (built_layout loc scr ls ord) loc \<noteq> None" by (simp add: screens_built_layout)
  note nb = neighbor_place_link [where ls = ls and m = n, OF this]
  show ?case
  proof (cases "ls n")
    case None
    then have "n \<noteq> m" using assms(2) by auto
    then show ?thesis using snoc None by (simp add: built_layout_snoc place_link_def)
  next
    case (Some lk')
    then show ?thesis
      using snoc assms(2,3) nb [OF Some] by (cases "n = m") (auto simp: built_layout_snoc)
  qed
qed

text \<open>Across a local edge lies the peer visited last among those placed there.\<close>
lemma built_layout_local:
  assumes "loc \<notin> set ord" "set ord \<subseteq> dom ls"
  shows "neighbor (built_layout loc scr ls ord) loc e =
    List.find (\<lambda>m. map_option link_edge (ls m) = Some e) (rev ord)"
  using assms
proof (induction ord rule: rev_induct)
  case Nil
  then show ?case
    by (simp add: built_layout_def or_keep_def add_machine_def layout_new_def neighbor_def)
next
  case (snoc n ord)
  have s: "screens (built_layout loc scr ls ord) loc \<noteq> None" by (simp add: screens_built_layout)
  obtain lk where lk: "ls n = Some lk" using snoc.prems(2) by auto
  show ?case
    using snoc neighbor_place_link [where ls = ls and m = n, OF s lk] lk by (auto simp: built_layout_snoc)
qed

lemma rebuild_layout_eq:
  "rebuild_layout ord sh =
   (let l = built_layout (sh_local_machine sh) (sh_local_screen sh) (plinks sh) ord
    in if screens l (cursor_machine (cursor sh)) = None
       then set_cursor (home_cursor sh) (set_layout_field l sh) else set_layout_field l sh)"
  by (simp add: rebuild_layout_def built_layout_def Let_def layout_screen_def home_cursor_def)

lemma rebuild_layout_fields [simp]:
  "sessions (rebuild_layout ord sh) = sessions sh"
  "plinks (rebuild_layout ord sh) = plinks sh"
  "sh_suppress (rebuild_layout ord sh) = sh_suppress sh"
  "sh_local_machine (rebuild_layout ord sh) = sh_local_machine sh"
  "sh_local_screen (rebuild_layout ord sh) = sh_local_screen sh"
  "layout (rebuild_layout ord sh) =
     built_layout (sh_local_machine sh) (sh_local_screen sh) (plinks sh) ord"
  by (simp_all add: rebuild_layout_eq Let_def)

section \<open>The daemon's invariant\<close>

text \<open>The machine every keyboard and mouse of this daemon works on.\<close>
definition holder :: "'p shared \<Rightarrow> machine_id" where
  "holder sh = (case active sh of Local \<Rightarrow> sh_local_machine sh | Remote p \<Rightarrow> p)"

definition known_screens :: "'p shared \<Rightarrow> machine_id \<rightharpoonup> screen" where
  "known_screens sh m = (if m = sh_local_machine sh then Some (sh_local_screen sh)
                         else map_option link_screen (plinks sh m))"

text \<open>Sessions and links are the same set of peers; the virtual desktop shows exactly the local
  machine and the linked peers; the tracked cursor is on the machine input goes to, at a real spot
  of its screen; local input is withheld exactly while it goes to a peer.\<close>
definition daemon_inv :: "'p shared \<Rightarrow> bool" where
  "daemon_inv sh \<longleftrightarrow>
     session_ok (sessions sh) \<and> sm_local (sessions sh) = sh_local_machine sh \<and>
     (\<forall>m. sm_by_peer (sessions sh) m = map_option link_session (plinks sh m)) \<and>
     screens (layout sh) = known_screens sh \<and> layout_ok (layout sh) \<and>
     cursor_machine (cursor sh) = holder sh \<and>
     (\<forall>s. screens (layout sh) (cursor_machine (cursor sh)) = Some s \<longrightarrow>
          width s \<noteq> 0 \<longrightarrow> height s \<noteq> 0 \<longrightarrow> in_bounds s (cursor_position (cursor sh))) \<and>
     (sh_suppress sh \<longleftrightarrow> active sh \<noteq> Local)"

lemma daemon_invD:
  assumes "daemon_inv sh"
  shows "session_ok (sessions sh)" "sm_local (sessions sh) = sh_local_machine sh"
    "sm_by_peer (sessions sh) m = map_option link_session (plinks sh m)"
    "screens (layout sh) = known_screens sh" "layout_ok (layout sh)"
    "cursor_machine (cursor sh) = holder sh"
    "screens (layout sh) (cursor_machine (cursor sh)) = Some s \<Longrightarrow> width s \<noteq> 0 \<Longrightarrow> height s \<noteq> 0 \<Longrightarrow>
       in_bounds s (cursor_position (cursor sh))"
    "sh_suppress sh \<longleftrightarrow> active sh \<noteq> Local"
  using assms by (auto simp: daemon_inv_def)

lemma known_screens_congs [simp]:
  "known_screens (send_command c m sh) = known_screens sh"
  "known_screens (broadcast ord c sh) = known_screens sh"
  "known_screens (set_sessions s sh) = known_screens sh"
  "known_screens (set_cursor cu sh) = known_screens sh"
  "known_screens (sync_suppression sh) = known_screens sh"
  "known_screens (notify_change sh) = known_screens sh"
  "known_screens (warp x y sh) = known_screens sh"
  "known_screens (call_sink k sh) = known_screens sh"
  "known_screens (rebuild_layout ord sh) = known_screens sh"
  by (simp_all add: known_screens_def fun_eq_iff)

lemma holder_known: "daemon_inv sh \<Longrightarrow> screens (layout sh) (holder sh) \<noteq> None"
proof -
  assume inv: "daemon_inv sh"
  show ?thesis
  proof (cases "active sh")
    case Local
    then show ?thesis by (simp add: daemon_invD(4) [OF inv] known_screens_def holder_def)
  next
    case (Remote p)
    then obtain sid where "sm_by_peer (sessions sh) p = Some sid"
      using session_okD(4) [OF daemon_invD(1) [OF inv]] by blast
    then show ?thesis
      using Remote daemon_invD(3) [OF inv, of p]
      by (auto simp: daemon_invD(4) [OF inv] known_screens_def holder_def)
  qed
qed

lemma in_bounds_origin: "width s \<noteq> 0 \<Longrightarrow> height s \<noteq> 0 \<Longrightarrow> in_bounds s \<lparr> px = 0, py = 0 \<rparr>"
  by (simp add: in_bounds_def u32_nonzero_uint)

lemma min_saturating_less: "(w :: u32) \<noteq> 0 \<Longrightarrow> uint (min k (saturating_sub w 1)) < uint w"
  using uint_saturating_sub_1 [of w] by (auto simp: min_def word_le_def)

lemma clamp_to_screen_in_bounds:
  "width s \<noteq> 0 \<Longrightarrow> height s \<noteq> 0 \<Longrightarrow> in_bounds s (clamp_to_screen s x y)"
  by (simp add: in_bounds_def clamp_to_screen_def min_saturating_less)

lemma holder_congs [simp]:
  "holder (send_command c m sh) = holder sh"
  "holder (broadcast ord c sh) = holder sh"
  "holder (set_cursor cu sh) = holder sh"
  "holder (sync_suppression sh) = holder sh"
  "holder (notify_change sh) = holder sh"
  "holder (warp x y sh) = holder sh"
  "holder (call_sink k sh) = holder sh"
  "holder (rebuild_layout ord sh) = holder sh"
  by (simp_all add: holder_def split: active_target.split)

lemma daemon_inv_send_command [inv_intros]: "daemon_inv (send_command c m sh) = daemon_inv sh"
  by (simp add: daemon_inv_def)

lemma daemon_inv_broadcast [inv_intros]: "daemon_inv (broadcast ord c sh) = daemon_inv sh"
  by (simp add: daemon_inv_def)

lemma daemon_inv_notify [inv_intros]: "daemon_inv (notify_change sh) = daemon_inv sh"
  by (simp add: daemon_inv_def)

lemma daemon_inv_call_sink [inv_intros]: "daemon_inv (call_sink c sh) = daemon_inv sh"
  by (simp add: daemon_inv_def)

lemma daemon_inv_sync: "daemon_inv sh \<Longrightarrow> daemon_inv (sync_suppression sh)"
  by (simp add: daemon_inv_def)

text \<open>Everything but the suppression flag, which the handlers re-derive at their end.\<close>
definition tracking_inv :: "'p shared \<Rightarrow> bool" where
  "tracking_inv sh \<longleftrightarrow>
     session_ok (sessions sh) \<and> sm_local (sessions sh) = sh_local_machine sh \<and>
     (\<forall>m. sm_by_peer (sessions sh) m = map_option link_session (plinks sh m)) \<and>
     screens (layout sh) = known_screens sh \<and> layout_ok (layout sh) \<and>
     cursor_machine (cursor sh) = holder sh \<and>
     (\<forall>s. screens (layout sh) (cursor_machine (cursor sh)) = Some s \<longrightarrow>
          width s \<noteq> 0 \<longrightarrow> height s \<noteq> 0 \<longrightarrow> in_bounds s (cursor_position (cursor sh)))"

lemma daemon_inv_iff: "daemon_inv sh \<longleftrightarrow> tracking_inv sh \<and> (sh_suppress sh \<longleftrightarrow> active sh \<noteq> Local)"
  by (auto simp: daemon_inv_def tracking_inv_def)

lemma tracking_inv_sync: "tracking_inv sh \<Longrightarrow> daemon_inv (sync_suppression sh)"
  by (simp add: daemon_inv_def tracking_inv_def)

lemma tracking_inv_congs [simp]:
  "tracking_inv (send_command c m sh) = tracking_inv sh"
  "tracking_inv (broadcast ord c sh) = tracking_inv sh"
  "tracking_inv (warp x y sh) = tracking_inv sh"
  "tracking_inv (notify_change sh) = tracking_inv sh"
  by (simp_all add: tracking_inv_def)

lemma tracking_invD:
  assumes "tracking_inv sh"
  shows "session_ok (sessions sh)" "sm_local (sessions sh) = sh_local_machine sh"
    "sm_by_peer (sessions sh) m = map_option link_session (plinks sh m)"
    "screens (layout sh) = known_screens sh" "layout_ok (layout sh)"
    "cursor_machine (cursor sh) = holder sh"
  using assms by (auto simp: tracking_inv_def)

lemma tracking_holder_known: "tracking_inv sh \<Longrightarrow> screens (layout sh) (holder sh) \<noteq> None"
  using holder_known [OF tracking_inv_sync, of sh] by simp

section \<open>Every handler keeps the invariant\<close>

lemma handle_crossing_effect:
  assumes "handle_crossing emit c m = Inr m'"
  shows "sm_by_peer m' = sm_by_peer m" "sm_sessions m' = sm_sessions m" "sm_local m' = sm_local m"
    "sm_active m' = (if crossing_peer c = sm_local m then Local else Remote (crossing_peer c))"
  using assms by (auto simp: handle_crossing_def split: if_splits)

lemma tracking_set_cursor:
  assumes "tracking_inv sh" "cursor_machine c = holder sh"
    and "\<And>s. screens (layout sh) (cursor_machine c) = Some s \<Longrightarrow> width s \<noteq> 0 \<Longrightarrow> height s \<noteq> 0 \<Longrightarrow>
           in_bounds s (cursor_position c)"
  shows "tracking_inv (set_cursor c sh)"
  using assms by (simp add: tracking_inv_def)

text \<open>The session changes where input goes, the cursor moves to that machine at the same time.\<close>
lemma tracking_switch:
  assumes "tracking_inv sh" "session_ok m" "sm_local m = sm_local (sessions sh)"
    and "sm_by_peer m = sm_by_peer (sessions sh)"
    and "cursor_machine c = (case sm_active m of Local \<Rightarrow> sh_local_machine sh | Remote p \<Rightarrow> p)"
    and "\<And>s. screens (layout sh) (cursor_machine c) = Some s \<Longrightarrow> width s \<noteq> 0 \<Longrightarrow> height s \<noteq> 0 \<Longrightarrow>
           in_bounds s (cursor_position c)"
  shows "tracking_inv (set_cursor c (set_sessions m sh))"
proof -
  have "holder (set_cursor c (set_sessions m sh)) = cursor_machine c"
    using assms(5) by (simp add: holder_def split: active_target.split)
  then show ?thesis using assms by (simp add: tracking_inv_def)
qed

lemma advance_cursor_env:
  assumes "advance_cursor ord d sh = Some (crossed, sh')"
  shows "sh_local_machine sh' = sh_local_machine sh" "sh_local_screen sh' = sh_local_screen sh"
    "sh_suppress sh' = sh_suppress sh" "layout sh' = layout sh"
  using assms
  by (auto simp: advance_cursor_def Let_def place_cursor_after_crossing_def
      split: option.splits sum.splits if_splits)

text \<open>The movement the virtual desktop gets: rescaled while the cursor is on a peer.\<close>
definition tracked_delta :: "mouse_delta \<Rightarrow> 'p shared \<Rightarrow> mouse_delta" where
  "tracked_delta delta sh = (case layout_screen (layout sh) (cursor_machine (cursor sh)) of
            Some s \<Rightarrow> if cursor_machine (cursor sh) \<noteq> sh_local_machine sh
                      then scale_delta delta (sh_local_screen sh) s else delta
          | None \<Rightarrow> delta)"

lemma advance_cursor_cases:
  assumes "tracking_inv sh" "advance_cursor ord d sh = Some (crossed, sh')"
  obtains (stay) a where "\<not> crossed" "sh' = set_cursor (advance_cursor_state a) sh"
      "advance (layout sh) (cursor sh) (tracked_delta d sh) = Some (Inr a)"
      "cursor_machine (advance_cursor_state a) = cursor_machine (cursor sh)"
      "tracking_inv sh'"
  | (cross) c m where "crossed" "handle_crossing recording_emit c (sessions sh) = Inr m"
      "sh' = place_cursor_after_crossing ord c (set_cursor
         \<lparr> cursor_machine = crossing_peer c, cursor_position = crossing_entry c \<rparr> (set_sessions m sh))"
      "tracking_inv sh'"
proof -
  note inv = tracking_invD [OF assms(1)]
  have known: "screens (layout sh) (cursor_machine (cursor sh)) \<noteq> None"
    using tracking_holder_known [OF assms(1)] inv(6) by simp
  show thesis
  proof (rule advance_outcomes [OF inv(5) known, where d = "tracked_delta d sh"])
    assume "advance (layout sh) (cursor sh) (tracked_delta d sh) = None"
    then show thesis using assms(2) by (simp add: advance_cursor_def tracked_delta_def Let_def)
  next
    fix a s
    assume adv: "advance (layout sh) (cursor sh) (tracked_delta d sh) = Some (Inr a)"
      and scr: "screens (layout sh) (cursor_machine (advance_cursor_state a)) = Some s"
      and inb: "width s \<noteq> 0 \<Longrightarrow> height s \<noteq> 0 \<Longrightarrow> in_bounds s (cursor_position (advance_cursor_state a))"
      and crs: "case advance_crossing a of
         None \<Rightarrow> cursor_machine (advance_cursor_state a) = cursor_machine (cursor sh)
       | Some k \<Rightarrow> crossing_peer k = cursor_machine (advance_cursor_state a) \<and>
           crossing_entry k = cursor_position (advance_cursor_state a)"
    show thesis
    proof (cases "advance_crossing a")
      case None
      have sh': "\<not> crossed" "sh' = set_cursor (advance_cursor_state a) sh"
        using assms(2) adv None by (auto simp: advance_cursor_def tracked_delta_def [symmetric] Let_def)
      have "tracking_inv sh'"
        unfolding sh'(2) using crs None inv(6) scr inb
        by (intro tracking_set_cursor [OF assms(1)]) auto
      with sh' adv crs None show thesis by (intro stay [of a]) auto
    next
      case (Some c)
      have st: "advance_cursor_state a = \<lparr> cursor_machine = crossing_peer c, cursor_position = crossing_entry c \<rparr>"
        using crs Some by simp
      have "\<exists>m. handle_crossing recording_emit c (sessions sh) = Inr m"
      proof (cases "crossing_peer c = sh_local_machine sh")
        case True
        then show ?thesis using inv(2) by (simp add: handle_crossing_def)
      next
        case False
        then have "map_option link_screen (plinks sh (crossing_peer c)) \<noteq> None"
          using scr st by (auto simp: inv(4) known_screens_def)
        then show ?thesis using inv(3) [of "crossing_peer c"] by (auto simp: handle_crossing_def)
      qed
      then obtain m where m: "handle_crossing recording_emit c (sessions sh) = Inr m" by auto
      have sh': "crossed" "sh' = place_cursor_after_crossing ord c (set_cursor
         \<lparr> cursor_machine = crossing_peer c, cursor_position = crossing_entry c \<rparr> (set_sessions m sh))"
        using assms(2) adv Some m st by (auto simp: advance_cursor_def tracked_delta_def [symmetric] Let_def)
      have "tracking_inv (set_cursor \<lparr> cursor_machine = crossing_peer c,
          cursor_position = crossing_entry c \<rparr> (set_sessions m sh))"
      proof (rule tracking_switch [OF assms(1)])
        show "session_ok m" by (rule session_ok_handle_crossing [OF inv(1) m])
      qed (use handle_crossing_effect [OF m] inv(2) scr inb st in auto)
      then have "tracking_inv sh'"
        unfolding sh'(2) by (auto simp: place_cursor_after_crossing_def Let_def)
      with sh' m show thesis by (intro cross [of c m]) auto
    qed
  qed
qed

lemma tracking_sync_cursor:
  "tracking_inv sh \<Longrightarrow> active sh = Local \<Longrightarrow> tracking_inv (sync_cursor_to_os os sh)"
  unfolding sync_cursor_to_os_def
  by (auto split: option.splits intro!: tracking_set_cursor clamp_to_screen_in_bounds
      simp: holder_def tracking_invD(4) known_screens_def)

lemma tracking_forward_to: "tracking_inv (forward_to p ev sh) = tracking_inv sh"
  by (simp add: forward_to_def split: option.split)

lemma sync_cursor_active [simp]: "active (sync_cursor_to_os os sh) = active sh"
  by (simp add: sync_cursor_to_os_def split: option.split)

lemma daemon_inv_route_captured [inv_intros]:
  assumes "daemon_inv sh" "route_captured ord os ev sh = Some sh'"
  shows "daemon_inv sh'"
proof -
  have tr: "tracking_inv sh" using assms(1) by (simp add: daemon_inv_iff)
  have adv: "tracking_inv s2" if "tracking_inv s1" "advance_cursor ord d s1 = Some (k, s2)" for d k s1 s2
    using that by (rule advance_cursor_cases) auto
  have "\<exists>sh1. tracking_inv sh1 \<and>
      (sh' = sync_suppression sh1 \<or> sh' = notify_change (sync_suppression sh1))"
  proof (cases "active sh")
    case Local
    show ?thesis
    proof (cases "\<exists>d. ev = Motion d")
      case True
      then obtain d where d: "ev = Motion d" by blast
      then obtain k sh1 where "advance_cursor ord d (sync_cursor_to_os os sh) = Some (k, sh1)"
        and "sh' = (if k then notify_change (sync_suppression sh1) else sync_suppression sh1)"
        using assms(2) Local by (auto simp: route_captured_def bind_eq_Some_conv Let_def)
      then show ?thesis using adv [OF tracking_sync_cursor [OF tr Local]] by (metis (full_types))
    next
      case False
      then show ?thesis using assms(2) Local tr
        by (auto simp: route_captured_def split: input_event.splits)
    qed
  next
    case (Remote p)
    show ?thesis
    proof (cases "\<exists>d. ev = Motion d")
      case True
      then obtain d where "ev = Motion d" by blast
      then obtain k sh1 where "advance_cursor ord d sh = Some (k, sh1)"
        and "sh' = (if k then notify_change (sync_suppression sh1) else sync_suppression
          (forward_to p (Pointer (px (cursor_position (cursor sh1))) (py (cursor_position (cursor sh1)))) sh1))"
        using assms(2) Remote by (auto simp: route_captured_def bind_eq_Some_conv Let_def split: if_splits)
      then show ?thesis using adv [OF tr] tracking_forward_to by (metis (full_types))
    next
      case False
      then have "sh' = sync_suppression (forward_to p ev sh)" using assms(2) Remote
        by (auto simp: route_captured_def split: input_event.splits)
      then show ?thesis using tr tracking_forward_to by blast
    qed
  qed
  then show ?thesis by (auto simp: daemon_inv_notify tracking_inv_sync)
qed

lemma set_active_same: "sm_active m = t \<Longrightarrow> set_active emit t m = m"
  by (simp add: set_active_def)

lemma set_sessions_same: "set_sessions (sessions sh) sh = sh"
  by (simp add: set_sessions_def)

lemma yield_control_to_peer_eq:
  "yield_control_to_peer sh =
     (if active sh = Local then sh
      else notify_change (sync_suppression (set_cursor (home_cursor sh)
             (set_sessions (set_active recording_emit Local (sessions sh)) sh))))"
  by (simp add: yield_control_to_peer_def yield_control_def set_active_same set_sessions_same
      home_cursor_def)

lemma daemon_inv_yield [inv_intros]:
  assumes "daemon_inv sh"
  shows "daemon_inv (yield_control_to_peer sh)"
proof (cases "active sh = Local")
  case True
  then show ?thesis using assms by (simp add: yield_control_to_peer_eq)
next
  case False
  have tr: "tracking_inv sh" using assms by (simp add: daemon_inv_iff)
  have "tracking_inv (set_cursor (home_cursor sh)
      (set_sessions (set_active recording_emit Local (sessions sh)) sh))"
    by (rule tracking_switch [OF tr])
      (auto simp: home_cursor_def in_bounds_origin intro!: session_ok_set_active daemon_invD(1) [OF assms])
  then show ?thesis
    using False by (simp add: yield_control_to_peer_eq daemon_inv_notify tracking_inv_sync)
qed

lemma daemon_inv_follow [inv_intros]:
  assumes "daemon_inv sh"
  shows "daemon_inv (follow_peer_cursor peer x y sh)"
proof (cases "layout_screen (layout sh) peer")
  case None
  then show ?thesis using assms by (simp add: follow_peer_cursor_def)
next
  case (Some s)
  show ?thesis
  proof (cases "follow_peer recording_emit peer (sessions sh)")
    case (Inl e)
    then show ?thesis using assms Some by (simp add: follow_peer_cursor_def Let_def)
  next
    case (Inr m)
    then have m: "m = set_active recording_emit (Remote peer) (sessions sh)"
      by (auto simp: follow_peer_def split: if_splits)
    have tr: "tracking_inv sh" using assms by (simp add: daemon_inv_iff)
    have "tracking_inv (set_cursor \<lparr> cursor_machine = peer,
        cursor_position = clamp_to_screen s x y \<rparr> (set_sessions m sh))"
      by (rule tracking_switch [OF tr])
        (use Some session_ok_follow_peer [OF daemon_invD(1) [OF assms] Inr] m
          in \<open>auto simp: layout_screen_def clamp_to_screen_in_bounds\<close>)
    then show ?thesis
      using Some Inr by (simp add: follow_peer_cursor_def Let_def daemon_inv_notify tracking_inv_sync)
  qed
qed

lemma tracking_rebuild:
  assumes "session_ok (sessions sh)" "sm_local (sessions sh) = sh_local_machine sh"
    and "\<And>m. sm_by_peer (sessions sh) m = map_option link_session (plinks sh m)"
    and "iterates ord (plinks sh)"
    and "if known_screens sh (cursor_machine (cursor sh)) = None then holder sh = sh_local_machine sh
         else cursor_machine (cursor sh) = holder sh"
    and "\<And>s. known_screens sh (cursor_machine (cursor sh)) = Some s \<Longrightarrow> width s \<noteq> 0 \<Longrightarrow>
           height s \<noteq> 0 \<Longrightarrow> in_bounds s (cursor_position (cursor sh))"
  shows "tracking_inv (rebuild_layout ord sh)"
proof -
  have scr: "screens (layout (rebuild_layout ord sh)) = known_screens sh"
    using assms(4) by (auto simp: screens_built_layout known_screens_def iterates_def fun_eq_iff)
  have cur: "cursor (rebuild_layout ord sh) =
     (if known_screens sh (cursor_machine (cursor sh)) = None then home_cursor sh else cursor sh)"
    using scr by (auto simp: rebuild_layout_eq Let_def split: if_splits)
  have home: "known_screens sh (sh_local_machine sh) = Some (sh_local_screen sh)"
    by (simp add: known_screens_def)
  show ?thesis
    unfolding tracking_inv_def
    using assms scr cur home layout_ok_built_layout
    by (auto simp: home_cursor_def in_bounds_origin split: if_splits)
qed

lemma session_close_by_peer:
  assumes "session_ok m" "sm_by_peer m p = Some sid"
  obtains m' where "session_close emit sid m = Inr m'" "session_ok m'" "sm_local m' = sm_local m"
    "sm_by_peer m' = (sm_by_peer m)(p := None)"
    "sm_active m' = (if sm_active m = Remote p then Local else sm_active m)"
proof -
  obtain s where s: "sm_sessions m sid = Some s" "session_peer s = p"
    using session_okD(3) [OF assms(1,2)] by auto
  then obtain m' where m': "session_close emit sid m = Inr m'"
    by (simp add: session_close_def Let_def)
  show thesis
    by (rule that [OF m' session_ok_close [OF assms(1) m']])
      (use m' s in \<open>auto simp: session_close_def Let_def\<close>)
qed

lemma daemon_inv_cleanup [inv_intros]:
  assumes "daemon_inv sh" "iterates ord ((plinks sh)(m := None))"
  shows "daemon_inv (cleanup_peer ord m sh)"
proof -
  define sh1 where "sh1 = (case plinks sh m of
            None \<Rightarrow> sh
          | Some lk \<Rightarrow> let sh = set_links ((plinks sh)(m := None)) sh
              in set_sessions (or_keep (sessions sh)
                   (session_close recording_emit (link_session lk) (sessions sh))) sh)"
  have cl: "cleanup_peer ord m sh = notify_change (sync_suppression (rebuild_layout ord sh1))"
    by (simp add: cleanup_peer_def sh1_def Let_def)
  note inv = daemon_invD [OF assms(1)]
  have cur: "cursor_machine (cursor sh) = holder sh" by (rule inv(6))
  have "tracking_inv (rebuild_layout ord sh1)"
  proof (cases "plinks sh m")
    case None
    then have "sh1 = sh" by (simp add: sh1_def)
    moreover have "(plinks sh)(m := None) = plinks sh" using None by auto
    ultimately show ?thesis
      using assms(2) inv holder_known [OF assms(1)]
      by (intro tracking_rebuild) (auto simp: inv(4) [symmetric])
  next
    case (Some lk)
    then have bp: "sm_by_peer (sessions sh) m = Some (link_session lk)" using inv(3) [of m] by simp
    obtain s' where s': "session_close recording_emit (link_session lk) (sessions sh) = Inr s'"
      "session_ok s'" "sm_local s' = sm_local (sessions sh)"
      "sm_by_peer s' = (sm_by_peer (sessions sh))(m := None)"
      "sm_active s' = (if active sh = Remote m then Local else active sh)"
      by (rule session_close_by_peer [OF inv(1) bp])
    have sh1: "sh1 = set_sessions s' (set_links ((plinks sh)(m := None)) sh)"
      using Some s'(1) by (simp add: sh1_def Let_def or_keep_def)
    have known: "known_screens sh1 x = (if x = m \<and> m \<noteq> sh_local_machine sh then None else known_screens sh x)" for x
      by (simp add: sh1 known_screens_def)
    have hold: "holder sh1 = (if active sh = Remote m then sh_local_machine sh else holder sh)"
      by (simp add: sh1 holder_def s'(5) split: active_target.split)
    have hm: "holder sh = m" if "active sh = Remote m" using that by (simp add: holder_def)
    have hm': "holder sh = sh_local_machine sh \<or> active sh = Remote (holder sh)"
      by (simp add: holder_def split: active_target.split)
    show ?thesis
    proof (rule tracking_rebuild)
      show "session_ok (sessions sh1)" "sm_local (sessions sh1) = sh_local_machine sh1"
        using s' inv(2) by (simp_all add: sh1)
      show "sm_by_peer (sessions sh1) x = map_option link_session (plinks sh1 x)" for x
        using s'(4) inv(3) [of x] by (simp add: sh1)
      show "iterates ord (plinks sh1)" using assms(2) by (simp add: sh1)
      have c1: "cursor sh1 = cursor sh" and l1: "sh_local_machine sh1 = sh_local_machine sh"
        by (simp_all add: sh1)
      show "if known_screens sh1 (cursor_machine (cursor sh1)) = None
            then holder sh1 = sh_local_machine sh1 else cursor_machine (cursor sh1) = holder sh1"
        using holder_known [OF assms(1)] hm hm' unfolding c1 l1 known hold cur inv(4) [symmetric]
        by (auto split: if_splits)
      show "in_bounds s (cursor_position (cursor sh1))"
        if "known_screens sh1 (cursor_machine (cursor sh1)) = Some s" "width s \<noteq> 0" "height s \<noteq> 0" for s
        using that inv(7) [of s] unfolding c1 known inv(4) [symmetric] by (auto split: if_splits)
    qed
  qed
  then show ?thesis unfolding cl by (simp add: daemon_inv_notify tracking_inv_sync)
qed

end
