(* ===== verification/Routing.thy ===== *)
theory Routing
  imports Daemon
begin

text \<open>
  What the handlers of \<^verbatim>\<open>daemon.rs\<close> do with captured input and with the hand-over messages, and the
  daemon's start: who gets an event, what a crossing tells whom, and the invariant that the virtual
  desktop is always the one the present links describe.
\<close>

section \<open>The daemon at its start\<close>

text \<open>\<^verbatim>\<open>run_with_paths\<close>: the shared state before the tasks start.  The sink is missing when the
  operating system denies injection, the source when it denies capture.\<close>
definition daemon_start ::
  "config \<Rightarrow> config_file \<Rightarrow> fingerprint \<Rightarrow> trust_state \<Rightarrow> (u32 \<times> u32) option \<Rightarrow> bool \<Rightarrow> bool \<Rightarrow> 'p \<Rightarrow>
   'p shared" where
  "daemon_start cfg file fp trust os_size can_inject can_capture port =
     rebuild_layout []
       \<lparr> sh_state = \<lparr> ds_sessions = manager_new (machine_id_of fp) \<lparr> recorded = [] \<rparr>,
            ds_layout = layout_new,
            ds_cursor = \<lparr> cursor_machine = machine_id_of fp, cursor_position = \<lparr> px = 0, py = 0 \<rparr> \<rparr>,
            ds_links = Map.empty, ds_pending = [],
            ds_placements = cfg_placements cfg, ds_modifier_swaps = cfg_modifier_swaps cfg \<rparr>,
         sh_trust = trust, sh_sink = (if can_inject then Some [] else None), sh_suppress = False,
         sh_local_machine = machine_id_of fp, sh_local_fingerprint = fp,
         sh_local_screen = detect_screen os_size (cfg_screen cfg),
         sh_port = config_port cfg, sh_config = file, sh_capturing = can_capture,
         sh_clipboard = clipboard_new port (cfg_clipboard_sharing cfg),
         sh_clipboard_on = cfg_clipboard_sharing cfg, sh_changes = 0, sh_decisions = Map.empty \<rparr>"

lemma daemon_start_inv: "daemon_inv (daemon_start cfg file fp trust os i c port)"
proof -
  have "tracking_inv (daemon_start cfg file fp trust os i c port)"
    unfolding daemon_start_def
    by (rule tracking_rebuild)
      (auto simp: manager_new_def session_ok_def iterates_def known_screens_def holder_def in_bounds_origin)
  then show ?thesis by (simp add: daemon_inv_iff daemon_start_def manager_new_def)
qed

section \<open>The virtual desktop is the one the links describe\<close>

definition layout_current :: "'p shared \<Rightarrow> bool" where
  "layout_current sh \<longleftrightarrow> (\<exists>ord. iterates ord (plinks sh) \<and>
     layout sh = built_layout (sh_local_machine sh) (sh_local_screen sh) (plinks sh) ord)"

lemma layout_current_rebuild: "iterates ord (plinks sh) \<Longrightarrow> layout_current (rebuild_layout ord sh)"
  by (auto simp: layout_current_def)

lemma place_link_cong:
  assumes "map_option link_screen (ls m) = map_option link_screen (ls' m)"
    and "map_option link_edge (ls m) = map_option link_edge (ls' m)"
  shows "place_link loc ls l m = place_link loc ls' l m"
  using assms by (cases "ls m"; cases "ls' m") (auto simp: place_link_def)

text \<open>Only the screens and edges of the links matter, not what is queued for them.\<close>
lemma built_layout_cong:
  assumes "\<And>m. map_option link_screen (ls m) = map_option link_screen (ls' m)"
    and "\<And>m. map_option link_edge (ls m) = map_option link_edge (ls' m)"
  shows "built_layout loc scr ls ord = built_layout loc scr ls' ord"
proof (induction ord rule: rev_induct)
  case Nil
  then show ?case by (simp add: built_layout_def)
next
  case (snoc m ord)
  then show ?case
    using place_link_cong [where ls = ls and ls' = ls' and m = m, OF assms] by (simp add: built_layout_snoc)
qed

lemma layout_current_cong:
  assumes "layout_current sh" "layout sh' = layout sh" "sh_local_machine sh' = sh_local_machine sh"
    and "sh_local_screen sh' = sh_local_screen sh"
    and "\<And>m. map_option link_screen (plinks sh' m) = map_option link_screen (plinks sh m)"
    and "\<And>m. map_option link_edge (plinks sh' m) = map_option link_edge (plinks sh m)"
  shows "layout_current sh'"
proof -
  obtain ord where ord: "iterates ord (plinks sh)"
    "layout sh = built_layout (sh_local_machine sh) (sh_local_screen sh) (plinks sh) ord"
    using assms(1) by (auto simp: layout_current_def)
  have "dom (plinks sh') = dom (plinks sh)"
  proof -
    have "plinks sh' m = None \<longleftrightarrow> plinks sh m = None" for m
      using assms(5) [of m] by (metis option.map_disc_iff)
    then show ?thesis by (auto simp: dom_def)
  qed
  then have "iterates ord (plinks sh')" using ord(1) by (simp add: iterates_def)
  moreover have "built_layout (sh_local_machine sh') (sh_local_screen sh') (plinks sh') ord = layout sh'"
    using built_layout_cong [of "plinks sh'" "plinks sh", OF assms(5,6)] ord(2) assms(2-4) by simp
  ultimately show ?thesis by (auto simp: layout_current_def)
qed

lemma layout_current_simps [simp]:
  "layout_current sh \<Longrightarrow> layout_current (send_command k m sh)"
  "layout_current sh \<Longrightarrow> layout_current (broadcast ord k sh)"
  "layout_current sh \<Longrightarrow> layout_current (call_sink j sh)"
  "layout_current sh \<Longrightarrow> layout_current (warp x y sh)"
  "layout_current sh \<Longrightarrow> layout_current (set_sessions s sh)"
  "layout_current sh \<Longrightarrow> layout_current (set_cursor c sh)"
  "layout_current sh \<Longrightarrow> layout_current (sync_suppression sh)"
  "layout_current sh \<Longrightarrow> layout_current (notify_change sh)"
  by (erule layout_current_cong; simp)+

lemma layout_current_forward [simp]: "layout_current sh \<Longrightarrow> layout_current (forward_to p ev sh)"
  by (simp add: forward_to_def split: option.split)

lemma layout_current_place [simp]:
  "layout_current sh \<Longrightarrow> layout_current (place_cursor_after_crossing ord c sh)"
  by (simp add: place_cursor_after_crossing_def Let_def)

lemma layout_current_advance:
  "layout_current sh \<Longrightarrow> advance_cursor ord d sh = Some (k, sh') \<Longrightarrow> layout_current sh'"
  by (auto simp: advance_cursor_def Let_def split: option.splits sum.splits if_splits)

lemma layout_current_route:
  assumes "layout_current sh" "route_captured ord os ev sh = Some sh'"
  shows "layout_current sh'"
proof -
  have os: "layout_current (sync_cursor_to_os os sh)"
    using assms(1) by (simp add: sync_cursor_to_os_def split: option.split)
  show ?thesis using assms
    by (auto simp: route_captured_def bind_eq_Some_conv Let_def split: active_target.splits
        input_event.splits if_splits dest: layout_current_advance [OF os] layout_current_advance)
qed

lemma layout_current_yield: "layout_current sh \<Longrightarrow> layout_current (yield_control_to_peer sh)"
  by (simp add: yield_control_to_peer_eq)

lemma layout_current_follow: "layout_current sh \<Longrightarrow> layout_current (follow_peer_cursor p x y sh)"
  by (auto simp: follow_peer_cursor_def Let_def split: option.split sum.split)

lemma layout_current_cleanup:
  assumes "iterates ord ((plinks sh)(m := None))"
  shows "layout_current (cleanup_peer ord m sh)"
proof (cases "plinks sh m")
  case None
  then have "(plinks sh)(m := None) = plinks sh" by auto
  then show ?thesis using assms None by (simp add: cleanup_peer_def Let_def layout_current_rebuild)
next
  case (Some lk)
  then show ?thesis using assms by (simp add: cleanup_peer_def Let_def layout_current_rebuild)
qed

lemma layout_current_start: "layout_current (daemon_start cfg file fp trust os i c port)"
  unfolding daemon_start_def by (rule layout_current_rebuild) (simp add: iterates_def)

text \<open>The desktop is a star around this machine.\<close>
lemma built_layout_star:
  "neighbor (built_layout loc scr ls ord) m e = Some n \<Longrightarrow> m = loc \<or> n = loc"
proof (induction ord rule: rev_induct)
  case Nil
  then show ?case
    by (simp add: built_layout_def or_keep_def add_machine_def layout_new_def neighbor_def)
next
  case (snoc k ord)
  have s: "screens (built_layout loc scr ls ord) loc \<noteq> None" by (simp add: screens_built_layout)
  show ?case
  proof (cases "ls k")
    case None
    then show ?thesis using snoc by (simp add: built_layout_snoc place_link_def)
  next
    case (Some lk)
    then show ?thesis
      using snoc neighbor_place_link [where ls = ls and m = k, OF s Some]
      by (auto simp: built_layout_snoc split: if_splits)
  qed
qed

lemma layout_current_star:
  "layout_current sh \<Longrightarrow> neighbor (layout sh) m e = Some n \<Longrightarrow>
     m = sh_local_machine sh \<or> n = sh_local_machine sh"
  by (auto simp: layout_current_def dest: built_layout_star)

section \<open>Where captured input goes\<close>

text \<open>\<open>queued c lk\<close>: the link with one more command in its channel.\<close>
definition queued :: "peer_command \<Rightarrow> peer_link \<Rightarrow> peer_link" where
  "queued c lk = lk \<lparr> link_commands := link_commands lk @ [c] \<rparr>"

lemma plinks_forward_to:
  "plinks (forward_to p ev sh) m =
   map_option (\<lambda>lk. if p = m then queued (InputCmd (swap_apply (link_modifier_swap lk) ev)) lk else lk)
     (plinks sh m)"
  by (cases "plinks sh m") (auto simp: forward_to_def queued_def plinks_send_command split: option.split)

lemma plinks_forward_pointer:
  "plinks (forward_to p (Pointer x y) sh) =
   (\<lambda>m. map_option (\<lambda>lk. if m = p then queued (InputCmd (Pointer x y)) lk else lk) (plinks sh m))"
proof
  fix m
  show "plinks (forward_to p (Pointer x y) sh) m =
     map_option (\<lambda>lk. if m = p then queued (InputCmd (Pointer x y)) lk else lk) (plinks sh m)"
    unfolding plinks_forward_to by (cases "plinks sh m") (auto simp: swap_apply.simps)
qed

lemma forward_to_fields [simp]:
  "sessions (forward_to p ev sh) = sessions sh" "cursor (forward_to p ev sh) = cursor sh"
  "layout (forward_to p ev sh) = layout sh" "sh_sink (forward_to p ev sh) = sh_sink sh"
  "sh_local_machine (forward_to p ev sh) = sh_local_machine sh"
  by (auto simp: forward_to_def send_command_def set_links_def split: option.split)

lemma sink_simps [simp]:
  "sh_sink (sync_suppression sh) = sh_sink sh" "sh_sink (notify_change sh) = sh_sink sh"
  "sh_sink (set_cursor c sh) = sh_sink sh" "sh_sink (set_sessions s sh) = sh_sink sh"
  "sh_sink (set_links ls sh) = sh_sink sh" "sh_sink (set_layout_field l sh) = sh_sink sh"
  "sh_sink (rebuild_layout ord sh) = sh_sink sh"
  by (simp_all add: sync_suppression_def notify_change_def setters rebuild_layout_def Let_def)

lemma send_command_sink [simp]: "sh_sink (send_command k m sh) = sh_sink sh"
  by (simp add: send_command_def split: option.split)

lemma broadcast_sink [simp]: "sh_sink (broadcast ord k sh) = sh_sink sh"
  unfolding broadcast_def by (induction ord arbitrary: sh) simp_all

lemma warp_sink [simp]: "sh_sink (warp x y sh) = map_option (\<lambda>cs. cs @ [SinkWarp x y]) (sh_sink sh)"
  by (simp add: warp_def call_sink_def)

lemma captured_input_outcome:
  assumes "route_captured ord os ev sh = Some sh'" "\<And>d. ev \<noteq> Motion d"
  shows "plinks sh' = (\<lambda>m. map_option (\<lambda>lk. if active sh = Remote m
           then queued (InputCmd (swap_apply (link_modifier_swap lk) ev)) lk else lk) (plinks sh m)) \<and>
    sessions sh' = sessions sh \<and> cursor sh' = cursor sh \<and> sh_sink sh' = sh_sink sh \<and>
    (sh_suppress sh' \<longleftrightarrow> active sh \<noteq> Local)"
proof (cases "active sh")
  case Local
  then have "sh' = sync_suppression sh"
    using assms by (auto simp: route_captured_def split: input_event.splits)
  then show ?thesis using Local by (auto simp: option.map_ident)
next
  case (Remote p)
  then have "sh' = sync_suppression (forward_to p ev sh)"
    using assms by (auto simp: route_captured_def split: input_event.splits)
  then show ?thesis using Remote by (auto simp: plinks_forward_to fun_eq_iff)
qed

text \<open>C4. A captured key, button or scroll goes to exactly one machine: while a peer is controlled it
  is queued for that peer alone, after everything queued before and with that peer's modifier
  relabelling; while this machine is controlled nothing is queued for anyone.  Neither the target,
  the cursor nor the local sink changes, and local input is withheld exactly in the first case.\<close>
theorem captured_input_has_one_receiver:
  assumes "route_captured ord os ev sh = Some sh'" "\<And>d. ev \<noteq> Motion d"
  shows "plinks sh' = (\<lambda>m. map_option (\<lambda>lk. if active sh = Remote m
           then queued (InputCmd (swap_apply (link_modifier_swap lk) ev)) lk else lk) (plinks sh m)) \<and>
    sessions sh' = sessions sh \<and> cursor sh' = cursor sh \<and> sh_sink sh' = sh_sink sh \<and>
    (sh_suppress sh' \<longleftrightarrow> active sh \<noteq> Local)"
  using assms by (rule captured_input_outcome)

lemma advance_crossing_linked:
  assumes "layout_ok l" "advance l c d = Some (Inr a)" "advance_crossing a = Some k"
  shows "\<exists>e. neighbor l (cursor_machine c) e = Some (crossing_peer k)"
    "advance_cursor_state a = \<lparr> cursor_machine = crossing_peer k, cursor_position = crossing_entry k \<rparr>"
proof -
  obtain s where s: "screens l (cursor_machine c) = Some s"
    using assms(2) by (cases "screens l (cursor_machine c)") (auto simp: advance_unknown)
  have ns: "\<not> stays l (cursor_machine c) s (candidate c d)"
  proof
    assume st: "stays l (cursor_machine c) s (candidate c d)"
    show False
      using assms(2,3) advance_stays [OF s st] advance_panics [OF s st]
      by (cases "width s = 0 \<or> height s = 0") auto
  qed
  obtain e p ps where "leaves_across l (cursor_machine c) s (candidate c d) e p"
    "advance l c d = Some (Inr \<lparr>
       advance_cursor_state = \<lparr> cursor_machine = p, cursor_position =
         entry_point e ps s (fst (candidate c d)) (snd (candidate c d)) \<rparr>,
       advance_crossing = Some \<lparr> crossing_peer = p, crossing_entry =
         entry_point e ps s (fst (candidate c d)) (snd (candidate c d)) \<rparr> \<rparr>)"
    by (rule advance_leaves [OF assms(1) s ns])
  then show "\<exists>e. neighbor l (cursor_machine c) e = Some (crossing_peer k)"
    "advance_cursor_state a = \<lparr> cursor_machine = crossing_peer k, cursor_position = crossing_entry k \<rparr>"
    using assms(2,3) by (auto simp: leaves_across_def)
qed

lemma advance_cursor_crossed:
  assumes "tracking_inv sh" "advance_cursor ord d sh = Some (True, sh')"
  obtains c m e where "neighbor (layout sh) (cursor_machine (cursor sh)) e = Some (crossing_peer c)"
    "handle_crossing recording_emit c (sessions sh) = Inr m"
    "sh' = place_cursor_after_crossing ord c (set_cursor
       \<lparr> cursor_machine = crossing_peer c, cursor_position = crossing_entry c \<rparr> (set_sessions m sh))"
proof -
  obtain a c m where *: "advance (layout sh) (cursor sh) (tracked_delta d sh) = Some (Inr a)"
    "advance_crossing a = Some c" "handle_crossing recording_emit c (sessions sh) = Inr m"
    "sh' = place_cursor_after_crossing ord c (set_cursor (advance_cursor_state a) (set_sessions m sh))"
    using assms(2)
    by (auto simp: advance_cursor_def tracked_delta_def [symmetric] Let_def
        split: option.splits sum.splits)
  note linked = advance_crossing_linked [OF tracking_invD(5) [OF assms(1)] *(1,2)]
  then obtain e where "neighbor (layout sh) (cursor_machine (cursor sh)) e = Some (crossing_peer c)" by blast
  then show thesis by (rule that [OF _ *(3)]) (use linked(2) *(4) in simp)
qed

lemma crossing_home:
  assumes "crossing_peer c = sh_local_machine sh" "distinct ord" "set ord = dom (plinks sh)"
  shows "plinks (place_cursor_after_crossing ord c sh) m =
      map_option (queued (CursorReturnedCmd (px (crossing_entry c)) (py (crossing_entry c)))) (plinks sh m)"
    "sh_sink (place_cursor_after_crossing ord c sh) =
      map_option (\<lambda>cs. cs @ [SinkWarp (px (crossing_entry c)) (py (crossing_entry c))]) (sh_sink sh)"
proof -
  have *: "place_cursor_after_crossing ord c sh = broadcast ord
      (CursorReturnedCmd (px (crossing_entry c)) (py (crossing_entry c)))
      (warp (px (crossing_entry c)) (py (crossing_entry c)) sh)"
    using assms(1) by (simp add: place_cursor_after_crossing_def Let_def)
  show "plinks (place_cursor_after_crossing ord c sh) m =
      map_option (queued (CursorReturnedCmd (px (crossing_entry c)) (py (crossing_entry c)))) (plinks sh m)"
    using assms(3) unfolding * plinks_broadcast [OF assms(2)]
    by (cases "plinks sh m") (auto simp: queued_def)
  show "sh_sink (place_cursor_after_crossing ord c sh) =
      map_option (\<lambda>cs. cs @ [SinkWarp (px (crossing_entry c)) (py (crossing_entry c))]) (sh_sink sh)"
    unfolding * by simp
qed

lemma crossing_away:
  assumes "crossing_peer c \<noteq> sh_local_machine sh"
  shows "plinks (place_cursor_after_crossing ord c sh) m = map_option (\<lambda>lk. if m = crossing_peer c
       then queued (WarpCmd (px (crossing_entry c)) (py (crossing_entry c))) lk else lk) (plinks sh m)"
    "sh_sink (place_cursor_after_crossing ord c sh) = sh_sink sh"
proof -
  have *: "place_cursor_after_crossing ord c sh =
      send_command (WarpCmd (px (crossing_entry c)) (py (crossing_entry c))) (crossing_peer c) sh"
    using assms by (simp add: place_cursor_after_crossing_def Let_def)
  show "plinks (place_cursor_after_crossing ord c sh) m = map_option (\<lambda>lk. if m = crossing_peer c
       then queued (WarpCmd (px (crossing_entry c)) (py (crossing_entry c))) lk else lk) (plinks sh m)"
    unfolding * plinks_send_command by (cases "plinks sh m") (auto simp: queued_def)
  show "sh_sink (place_cursor_after_crossing ord c sh) = sh_sink sh" unfolding * by simp
qed

lemma place_cursor_fields [simp]:
  "sessions (place_cursor_after_crossing ord c sh) = sessions sh"
  "cursor (place_cursor_after_crossing ord c sh) = cursor sh"
  "layout (place_cursor_after_crossing ord c sh) = layout sh"
  by (simp_all add: place_cursor_after_crossing_def Let_def)

lemma route_motion_remote:
  assumes "active sh = Remote p" "route_captured ord os (Motion d) sh = Some sh'"
  obtains (stay) sh1 where "advance_cursor ord d sh = Some (False, sh1)"
      "sh' = sync_suppression (forward_to p (Pointer (px (cursor_position (cursor sh1)))
          (py (cursor_position (cursor sh1)))) sh1)"
  | (cross) sh1 where "advance_cursor ord d sh = Some (True, sh1)"
      "sh' = notify_change (sync_suppression sh1)"
  using assms by (auto simp: route_captured_def bind_eq_Some_conv Let_def split: if_splits)

lemma route_motion_local:
  assumes "active sh = Local" "route_captured ord os (Motion d) sh = Some sh'"
  obtains (stay) sh1 where "advance_cursor ord d (sync_cursor_to_os os sh) = Some (False, sh1)"
      "sh' = sync_suppression sh1"
  | (cross) sh1 where "advance_cursor ord d (sync_cursor_to_os os sh) = Some (True, sh1)"
      "sh' = notify_change (sync_suppression sh1)"
  using assms by (auto simp: route_captured_def bind_eq_Some_conv Let_def split: if_splits)

lemma active_of_holder: "holder sh = sh_local_machine sh \<Longrightarrow> active sh = Local \<or> active sh = Remote (sh_local_machine sh)"
  by (auto simp: holder_def split: active_target.splits)

lemma motion_away_outcome:
  assumes "daemon_inv sh" "layout_current sh" "iterates ord (plinks sh)"
    and "active sh = Remote p" "p \<noteq> sh_local_machine sh"
    and "route_captured ord os (Motion d) sh = Some sh'"
  shows "(active sh' = Remote p \<and> cursor_machine (cursor sh') = p \<and> sh_sink sh' = sh_sink sh \<and>
      plinks sh' = (\<lambda>m. map_option (\<lambda>lk. if m = p then queued (InputCmd
          (Pointer (px (cursor_position (cursor sh'))) (py (cursor_position (cursor sh'))))) lk else lk)
          (plinks sh m))) \<or>
    (active sh' = Local \<and> cursor_machine (cursor sh') = sh_local_machine sh \<and> \<not> sh_suppress sh' \<and>
      sh_sink sh' = map_option (\<lambda>cs. cs @ [SinkWarp (px (cursor_position (cursor sh')))
          (py (cursor_position (cursor sh')))]) (sh_sink sh) \<and>
      plinks sh' = (\<lambda>m. map_option (queued (CursorReturnedCmd (px (cursor_position (cursor sh')))
          (py (cursor_position (cursor sh'))))) (plinks sh m)))"
  using assms(4,6)
proof (cases rule: route_motion_remote)
  case (stay sh1)
  have tr: "tracking_inv sh" using assms(1) by (simp add: daemon_inv_iff)
  from tr stay(1) show ?thesis
  proof (cases rule: advance_cursor_cases)
    case (stay a)
    have "cursor_machine (cursor sh) = p"
      using daemon_invD(6) [OF assms(1)] assms(4) by (simp add: holder_def)
    have cur: "cursor sh' = cursor sh1" using \<open>sh' = _\<close> by simp
    have links: "plinks sh1 = plinks sh" using stay by simp
    have "plinks sh' = plinks (forward_to p (Pointer (px (cursor_position (cursor sh1)))
        (py (cursor_position (cursor sh1)))) sh1)" using \<open>sh' = _\<close> by simp
    also have "\<dots> = (\<lambda>m. map_option (\<lambda>lk. if m = p then queued (InputCmd
        (Pointer (px (cursor_position (cursor sh1))) (py (cursor_position (cursor sh1))))) lk else lk)
        (plinks sh m))" unfolding plinks_forward_pointer links ..
    finally show ?thesis
      unfolding cur using stay \<open>sh' = _\<close> assms(4) \<open>cursor_machine (cursor sh) = p\<close> by auto
  next
    case (cross c m)
    then show ?thesis by simp
  qed
next
  case (cross sh1)
  have tr: "tracking_inv sh" using assms(1) by (simp add: daemon_inv_iff)
  have on: "cursor_machine (cursor sh) = p"
    using daemon_invD(6) [OF assms(1)] assms(4) by (simp add: holder_def)
  obtain c m e where c: "neighbor (layout sh) (cursor_machine (cursor sh)) e = Some (crossing_peer c)"
    "handle_crossing recording_emit c (sessions sh) = Inr m"
    "sh1 = place_cursor_after_crossing ord c (set_cursor
       \<lparr> cursor_machine = crossing_peer c, cursor_position = crossing_entry c \<rparr> (set_sessions m sh))"
    by (rule advance_cursor_crossed [OF tr cross(1)])
  have home: "crossing_peer c = sh_local_machine sh"
    using layout_current_star [OF assms(2) c(1)] on assms(5) by simp
  have "sm_active m = Local"
    using handle_crossing_effect(4) [OF c(2)] home daemon_invD(2) [OF assms(1)] by simp
  moreover have "cursor sh' = \<lparr> cursor_machine = crossing_peer c, cursor_position = crossing_entry c \<rparr>"
    using cross(2) c(3) by simp
  ultimately show ?thesis
    using cross(2) c(3) crossing_home [of c "set_cursor
       \<lparr> cursor_machine = crossing_peer c, cursor_position = crossing_entry c \<rparr> (set_sessions m sh)" ord]
      home assms(3) by (auto simp: iterates_def fun_eq_iff)
qed

text \<open>C2. Moving the mouse while a peer is controlled either keeps control there, and queues the
  tracked position for that peer alone, or carries the cursor back: on the star-shaped desktop the
  only place to go is this machine.  Then input is local again, the local cursor is warped to the
  tracked spot, and every linked peer, not only the one that was controlled, is told so.\<close>
theorem motion_on_a_peer:
  assumes "daemon_inv sh" "layout_current sh" "iterates ord (plinks sh)"
    and "active sh = Remote p" "p \<noteq> sh_local_machine sh"
    and "route_captured ord os (Motion d) sh = Some sh'"
  shows "(active sh' = Remote p \<and> cursor_machine (cursor sh') = p \<and> sh_sink sh' = sh_sink sh \<and>
      plinks sh' = (\<lambda>m. map_option (\<lambda>lk. if m = p then queued (InputCmd
          (Pointer (px (cursor_position (cursor sh'))) (py (cursor_position (cursor sh'))))) lk else lk)
          (plinks sh m))) \<or>
    (active sh' = Local \<and> cursor_machine (cursor sh') = sh_local_machine sh \<and> \<not> sh_suppress sh' \<and>
      sh_sink sh' = map_option (\<lambda>cs. cs @ [SinkWarp (px (cursor_position (cursor sh')))
          (py (cursor_position (cursor sh')))]) (sh_sink sh) \<and>
      plinks sh' = (\<lambda>m. map_option (queued (CursorReturnedCmd (px (cursor_position (cursor sh')))
          (py (cursor_position (cursor sh'))))) (plinks sh m)))"
  using assms by (rule motion_away_outcome)

lemma motion_home_outcome:
  assumes "daemon_inv sh" "layout_current sh" "active sh = Local"
    and "\<And>e. neighbor (layout sh) (sh_local_machine sh) e \<noteq> Some (sh_local_machine sh)"
    and "route_captured ord os (Motion d) sh = Some sh'"
  shows "sh_sink sh' = sh_sink sh \<and>
    (active sh' = Local \<and> cursor_machine (cursor sh') = sh_local_machine sh \<and> plinks sh' = plinks sh \<or>
     (\<exists>p. active sh' = Remote p \<and> cursor_machine (cursor sh') = p \<and> sh_suppress sh' \<and>
       plinks sh p \<noteq> None \<and>
       plinks sh' = (\<lambda>m. map_option (\<lambda>lk. if m = p then queued (WarpCmd
          (px (cursor_position (cursor sh'))) (py (cursor_position (cursor sh')))) lk else lk)
          (plinks sh m))))"
proof -
  define sh0 where "sh0 = sync_cursor_to_os os sh"
  have same: "sessions sh0 = sessions sh" "plinks sh0 = plinks sh" "sh_sink sh0 = sh_sink sh"
    "layout sh0 = layout sh" "sh_local_machine sh0 = sh_local_machine sh"
    by (simp_all add: sh0_def sync_cursor_to_os_def split: option.split)
  have tr: "tracking_inv sh0" unfolding sh0_def
    using assms(1,3) by (intro tracking_sync_cursor) (simp_all add: daemon_inv_iff)
  have on: "cursor_machine (cursor sh0) = sh_local_machine sh"
    using tracking_invD(6) [OF tr] assms(3) same by (simp add: holder_def)
  show ?thesis
    using assms(3,5)
  proof (cases rule: route_motion_local)
    case (stay sh1)
    from tr stay(1) [folded sh0_def] show ?thesis
    proof (cases rule: advance_cursor_cases)
      case (stay a)
      then show ?thesis using \<open>sh' = _\<close> assms(3) same on by auto
    next
      case (cross c m)
      then show ?thesis by simp
    qed
  next
    case (cross sh1)
    obtain c m e where c: "neighbor (layout sh0) (cursor_machine (cursor sh0)) e = Some (crossing_peer c)"
      "handle_crossing recording_emit c (sessions sh0) = Inr m"
      "sh1 = place_cursor_after_crossing ord c (set_cursor
         \<lparr> cursor_machine = crossing_peer c, cursor_position = crossing_entry c \<rparr> (set_sessions m sh0))"
      by (rule advance_cursor_crossed [OF tr cross(1) [folded sh0_def]])
    have away: "crossing_peer c \<noteq> sh_local_machine sh" using c(1) assms(4) on same by auto
    have act: "sm_active m = Remote (crossing_peer c)"
      using handle_crossing_effect(4) [OF c(2)] away daemon_invD(2) [OF assms(1)] same by simp
    have "plinks sh (crossing_peer c) \<noteq> None"
      using c(2) away daemon_invD(2,3) [OF assms(1)] same
      by (auto simp: handle_crossing_def split: if_splits)
    moreover have cur: "cursor sh' = \<lparr> cursor_machine = crossing_peer c, cursor_position = crossing_entry c \<rparr>"
      using cross(2) c(3) by simp
    have "plinks sh' = (\<lambda>m. map_option (\<lambda>lk. if m = crossing_peer c then queued (WarpCmd
          (px (crossing_entry c)) (py (crossing_entry c))) lk else lk) (plinks sh m))"
      using cross(2) c(3) crossing_away(1) [of c "set_cursor
         \<lparr> cursor_machine = crossing_peer c, cursor_position = crossing_entry c \<rparr> (set_sessions m sh0)" ord]
        away same by (simp add: fun_eq_iff)
    moreover have "sh_sink sh' = sh_sink sh"
      using cross(2) c(3) crossing_away(2) [of c "set_cursor
         \<lparr> cursor_machine = crossing_peer c, cursor_position = crossing_entry c \<rparr> (set_sessions m sh0)" ord]
        away same by simp
    moreover have "active sh' = Remote (crossing_peer c)" "sh_suppress sh'"
      using cross(2) c(3) act by simp_all
    ultimately show ?thesis unfolding cur cursor_state.select_convs by simp
  qed
qed


section \<open>A session begins\<close>

text \<open>The part of \<^verbatim>\<open>handle_incoming\<close> and of \<^verbatim>\<open>do_connect\<close> that runs under the state lock: the
  session is registered, the peer's link recorded at its configured edge or the default one, and
  the virtual desktop rebuilt.\<close>
definition establish_peer ::
  "machine_id list \<Rightarrow> role \<Rightarrow> edge \<Rightarrow> string \<Rightarrow> fingerprint \<Rightarrow> session_id \<Rightarrow> screen \<Rightarrow> 'p shared \<Rightarrow>
   session_error + 'p shared" where
  "establish_peer ord r default_edge host f sid scr sh =
     (let m = machine_id_of f in
      case establish recording_emit sid m r (sessions sh) of
        Inl e \<Rightarrow> Inl e
      | Inr s \<Rightarrow>
          let e = (case ds_placements (sh_state sh) host of Some e \<Rightarrow> e | None \<Rightarrow> default_edge);
              swap = (case ds_modifier_swaps (sh_state sh) host of Some w \<Rightarrow> w | None \<Rightarrow> SwapNone);
              lk = \<lparr> link_host = host, link_fingerprint = f, link_session = sid, link_role = r,
                     link_screen = scr, link_edge = e, link_modifier_swap = swap, link_commands = [] \<rparr>
          in Inr (rebuild_layout ord (set_links ((plinks sh)(m \<mapsto> lk)) (set_sessions s sh))))"

lemma establish_peer_cases:
  assumes "establish_peer ord r de host f sid scr sh = Inr sh'"
  obtains s lk where "establish recording_emit sid (machine_id_of f) r (sessions sh) = Inr s"
    "link_session lk = sid" "link_screen lk = scr" "link_fingerprint lk = f" "link_host lk = host"
    "link_role lk = r" "link_commands lk = []"
    "link_edge lk = (case ds_placements (sh_state sh) host of Some e \<Rightarrow> e | None \<Rightarrow> de)"
    "sh' = rebuild_layout ord (set_links ((plinks sh)(machine_id_of f \<mapsto> lk)) (set_sessions s sh))"
proof -
  obtain s where s: "establish recording_emit sid (machine_id_of f) r (sessions sh) = Inr s"
    using assms by (auto simp: establish_peer_def Let_def split: sum.splits)
  show thesis
    by (rule that [OF s, of "\<lparr> link_host = host, link_fingerprint = f, link_session = sid, link_role = r,
           link_screen = scr,
           link_edge = (case ds_placements (sh_state sh) host of Some e \<Rightarrow> e | None \<Rightarrow> de),
           link_modifier_swap = (case ds_modifier_swaps (sh_state sh) host of Some w \<Rightarrow> w | None \<Rightarrow> SwapNone),
           link_commands = [] \<rparr>"])
      (use assms s in \<open>simp_all add: establish_peer_def Let_def\<close>)
qed

lemma establish_effect:
  assumes "establish emit sid p r m = Inr m'"
  shows "sm_by_peer m p = None" "sm_by_peer m' = (sm_by_peer m)(p \<mapsto> sid)" "sm_local m' = sm_local m"
    "sm_active m' = sm_active m"
  using assms by (auto simp: establish_def emit_event_def split: if_splits)

lemma daemon_inv_establish [inv_intros]:
  assumes "daemon_inv sh" "establish_peer ord r de host f sid scr sh = Inr sh'"
    and "distinct ord" "set ord = insert (machine_id_of f) (dom (plinks sh))"
  shows "daemon_inv sh'"
proof -
  obtain s lk where s: "establish recording_emit sid (machine_id_of f) r (sessions sh) = Inr s"
    and lk: "link_session lk = sid" "link_screen lk = scr"
    and sh': "sh' = rebuild_layout ord (set_links ((plinks sh)(machine_id_of f \<mapsto> lk)) (set_sessions s sh))"
    by (rule establish_peer_cases [OF assms(2)])
  define sh1 where "sh1 = set_links ((plinks sh)(machine_id_of f \<mapsto> lk)) (set_sessions s sh)"
  note inv = daemon_invD [OF assms(1)] and eff = establish_effect [OF s]
  have new: "plinks sh (machine_id_of f) = None" using eff(1) inv(3) [of "machine_id_of f"] by simp
  have hold: "holder sh1 = holder sh" by (simp add: sh1_def holder_def eff(4) split: active_target.split)
  have cur: "cursor sh1 = cursor sh" and loc: "sh_local_machine sh1 = sh_local_machine sh"
    by (simp_all add: sh1_def)
  have known: "known_screens sh1 (holder sh) = known_screens sh (holder sh)"
    using holder_known [OF assms(1)] new
    by (auto simp: inv(4) sh1_def known_screens_def split: if_splits)
  have "tracking_inv (rebuild_layout ord sh1)"
  proof (rule tracking_rebuild)
    show "session_ok (sessions sh1)" "sm_local (sessions sh1) = sh_local_machine sh1"
      using session_ok_establish [OF inv(1) s] eff(3) inv(2) by (simp_all add: sh1_def)
    show "sm_by_peer (sessions sh1) m = map_option link_session (plinks sh1 m)" for m
      using eff(2) inv(3) [of m] lk(1) by (simp add: sh1_def)
    show "iterates ord (plinks sh1)" using assms(3,4) by (simp add: sh1_def iterates_def)
    show "if known_screens sh1 (cursor_machine (cursor sh1)) = None
          then holder sh1 = sh_local_machine sh1 else cursor_machine (cursor sh1) = holder sh1"
      using holder_known [OF assms(1)] unfolding cur hold inv(6) known inv(4) by auto
    show "in_bounds t (cursor_position (cursor sh1))"
      if "known_screens sh1 (cursor_machine (cursor sh1)) = Some t" "width t \<noteq> 0" "height t \<noteq> 0" for t
      using that inv(7) [of t] unfolding cur inv(6) known inv(4) by simp
  qed
  moreover have "sh_suppress sh' = sh_suppress sh" "active sh' = active sh"
    by (simp_all add: sh' eff(4))
  ultimately show ?thesis using inv(8) by (simp add: daemon_inv_iff sh' sh1_def)
qed

lemma layout_current_establish:
  assumes "establish_peer ord r de host f sid scr sh = Inr sh'"
    and "distinct ord" "set ord = insert (machine_id_of f) (dom (plinks sh))"
  shows "layout_current sh'"
  using assms by (elim establish_peer_cases) (auto intro!: layout_current_rebuild simp: iterates_def)

section \<open>Panics\<close>

lemma advance_cursor_returns:
  assumes "tracking_inv sh" "screens_nonzero (layout sh)"
  shows "advance_cursor ord d sh \<noteq> None"
proof -
  have "screens (layout sh) (cursor_machine (cursor sh)) \<noteq> None"
    using tracking_holder_known [OF assms(1)] tracking_invD(6) [OF assms(1)] by simp
  then obtain a where "advance (layout sh) (cursor sh) (tracked_delta d sh) = Some (Inr a)"
    using advance_ok [OF tracking_invD(5) [OF assms(1)] assms(2)] by blast
  then show ?thesis
    by (auto simp: advance_cursor_def tracked_delta_def [symmetric] Let_def
        split: option.splits sum.splits)
qed

lemma route_captured_returns:
  assumes "daemon_inv sh" "screens_nonzero (layout sh)"
  shows "route_captured ord os ev sh \<noteq> None"
proof -
  have tr: "tracking_inv sh" using assms(1) by (simp add: daemon_inv_iff)
  have lay: "layout (sync_cursor_to_os os sh) = layout sh"
    by (simp add: sync_cursor_to_os_def split: option.split)
  show ?thesis
  proof (cases ev)
    case (Motion d)
    show ?thesis
    proof (cases "active sh")
      case Local
      obtain k sh1 where "advance_cursor ord d (sync_cursor_to_os os sh) = Some (k, sh1)"
        using advance_cursor_returns [OF tracking_sync_cursor [OF tr Local], of os ord d] assms(2) lay
        by auto
      then show ?thesis using Motion Local by (simp add: route_captured_def Let_def)
    next
      case (Remote p)
      obtain k sh1 where "advance_cursor ord d sh = Some (k, sh1)"
        using advance_cursor_returns [OF tr assms(2), of ord d] by auto
      then show ?thesis using Motion Remote by (simp add: route_captured_def Let_def)
    qed
  qed (auto simp: route_captured_def Let_def split: active_target.split)
qed

section \<open>A small concrete desktop\<close>

definition demo_fingerprint :: "u8 \<Rightarrow> fingerprint" where
  "demo_fingerprint b = Fingerprint (replicate 32 b)"

definition demo_home :: "mock_clipboard shared" where
  "demo_home = daemon_start config_default ConfigAbsent (demo_fingerprint 1)
     \<lparr> trust_peers = [], trust_disk = None \<rparr> None True True \<lparr> mock_content = None \<rparr>"

abbreviation demo_local :: machine_id where "demo_local \<equiv> MachineId 0x0101010101010101"
abbreviation demo_peer :: machine_id where "demo_peer \<equiv> MachineId 0x0202020202020202"

text \<open>One peer to the right, with the given screen.\<close>
definition demo_desk :: "screen \<Rightarrow> mock_clipboard shared" where
  "demo_desk scr = (case establish_peer [demo_peer] Controller RightEdge ''mac'' (demo_fingerprint 2)
      (SessionId 9) scr demo_home of Inr sh \<Rightarrow> sh)"

lemma demo_ids: "machine_id_of (demo_fingerprint 1) = demo_local" "machine_id_of (demo_fingerprint 2) = demo_peer"
  by code_simp+

lemma demo_home_fields:
  "sessions demo_home = manager_new demo_local \<lparr> recorded = [] \<rparr>" "plinks demo_home = Map.empty"
  "sh_local_machine demo_home = demo_local" "sh_suppress demo_home = False"
  "sh_local_screen demo_home = \<lparr> width = 1920, height = 1080 \<rparr>"
  "ds_placements (sh_state demo_home) = Map.empty" "ds_modifier_swaps (sh_state demo_home) = Map.empty"
  by (simp_all add: demo_home_def daemon_start_def demo_ids detect_screen_def config_default_def
      rebuild_layout_eq Let_def setters)

lemma demo_desk_established:
  "establish_peer [demo_peer] Controller RightEdge ''mac'' (demo_fingerprint 2)
      (SessionId 9) scr demo_home = Inr (demo_desk scr)"
  by (simp add: demo_desk_def establish_peer_def demo_ids demo_home_fields manager_new_def
      establish_def Let_def)

definition demo_link :: "screen \<Rightarrow> peer_link" where
  "demo_link scr = \<lparr> link_host = ''mac'', link_fingerprint = demo_fingerprint 2, link_session = SessionId 9,
     link_role = Controller, link_screen = scr, link_edge = RightEdge, link_modifier_swap = SwapNone,
     link_commands = [] \<rparr>"

lemma demo_desk_fields:
  "active (demo_desk scr) = Local" "plinks (demo_desk scr) = [demo_peer \<mapsto> demo_link scr]"
  "sh_local_machine (demo_desk scr) = demo_local" "sh_suppress (demo_desk scr) = False"
  "sh_local_screen (demo_desk scr) = \<lparr> width = 1920, height = 1080 \<rparr>"
  "sm_by_peer (sessions (demo_desk scr)) = [demo_peer \<mapsto> SessionId 9]"
  by (simp_all add: demo_desk_def establish_peer_def demo_ids demo_home_fields manager_new_def
      establish_def Let_def demo_link_def emit_event_def)

lemma demo_desk_inv: "daemon_inv (demo_desk scr)"
proof (rule daemon_inv_establish [OF _ demo_desk_established])
  show "daemon_inv demo_home" unfolding demo_home_def by (rule daemon_start_inv)
qed (simp_all add: demo_ids demo_home_fields)

lemma demo_desk_current: "layout_current (demo_desk scr)"
  by (rule layout_current_establish [OF demo_desk_established]) (simp_all add: demo_ids demo_home_fields)

lemma demo_desk_iterates: "iterates [demo_peer] (plinks (demo_desk scr))"
  by (simp add: iterates_def demo_desk_fields)

lemma demo_desk_screens: "screens (layout (demo_desk scr)) =
    [demo_local \<mapsto> \<lparr> width = 1920, height = 1080 \<rparr>, demo_peer \<mapsto> scr]"
  unfolding daemon_invD(4) [OF demo_desk_inv]
  by (simp add: known_screens_def demo_desk_fields demo_link_def fun_eq_iff)

lemma demo_desk_nonzero: "screens_nonzero (layout (demo_desk \<lparr> width = 3840, height = 2160 \<rparr>))"
  by (auto simp: screens_nonzero_def demo_desk_screens split: if_splits)

text \<open>The same desktop once the cursor is on the peer.\<close>
definition demo_away :: "mock_clipboard shared" where
  "demo_away = follow_peer_cursor demo_peer 10 20 (demo_desk \<lparr> width = 3840, height = 2160 \<rparr>)"

lemma demo_away_fields:
  "active demo_away = Remote demo_peer" "sh_local_machine demo_away = demo_local"
  "plinks demo_away = [demo_peer \<mapsto> demo_link \<lparr> width = 3840, height = 2160 \<rparr>]"
  "layout demo_away = layout (demo_desk \<lparr> width = 3840, height = 2160 \<rparr>)"
  by (simp_all add: demo_away_def follow_peer_cursor_def layout_screen_def demo_desk_screens
      demo_desk_fields follow_peer_def Let_def set_active_def emit_event_def)

lemma demo_away_inv: "daemon_inv demo_away" "layout_current demo_away"
  unfolding demo_away_def by (intro daemon_inv_follow layout_current_follow demo_desk_inv demo_desk_current)+

lemma demo_away_returns: "\<exists>sh'. route_captured ord os ev demo_away = Some sh'"
proof -
  have "screens_nonzero (layout demo_away)" using demo_desk_nonzero by (simp add: demo_away_fields)
  from route_captured_returns [OF demo_away_inv(1) this, of ord os ev] show ?thesis by blast
qed

lemma demo_desk_returns:
  "\<exists>sh'. route_captured ord os ev (demo_desk \<lparr> width = 3840, height = 2160 \<rparr>) = Some sh'"
  using route_captured_returns [OF demo_desk_inv demo_desk_nonzero, of ord os ev] by blast

lemma captured_input_has_one_receiver_witness:
  "\<exists>sh'. route_captured [demo_peer] None (Button MouseLeft Press) demo_away = Some sh' \<and>
     map_option link_commands (plinks sh' demo_peer) = Some [InputCmd (Button MouseLeft Press)]"
proof -
  obtain sh' where sh': "route_captured [demo_peer] None (Button MouseLeft Press) demo_away = Some sh'"
    using demo_away_returns by blast
  from captured_input_has_one_receiver [OF sh'] sh' show ?thesis
    by (simp add: demo_away_fields demo_link_def queued_def swap_apply.simps)
qed

lemma motion_on_a_peer_witness:
  "\<exists>sh'. route_captured [demo_peer] None (Motion \<lparr> dx = - 90, dy = 3 \<rparr>) demo_away = Some sh' \<and>
     (active sh' = Remote demo_peer \<or> active sh' = Local)"
proof -
  obtain sh' where sh': "route_captured [demo_peer] None (Motion \<lparr> dx = - 90, dy = 3 \<rparr>) demo_away = Some sh'"
    using demo_away_returns by blast
  have "iterates [demo_peer] (plinks demo_away)" "demo_peer \<noteq> sh_local_machine demo_away"
    by (simp_all add: iterates_def demo_away_fields)
  from motion_on_a_peer [OF demo_away_inv this(1) demo_away_fields(1) this(2) sh'] sh' show ?thesis by auto
qed

lemma demo_desk_no_self_link: "neighbor (layout (demo_desk scr)) demo_local e \<noteq> Some demo_local"
proof -
  have "layout (demo_desk scr) = built_layout demo_local \<lparr> width = 1920, height = 1080 \<rparr>
      [demo_peer \<mapsto> demo_link scr] [demo_peer]"
    by (simp add: demo_desk_def establish_peer_def demo_ids demo_home_fields manager_new_def
      establish_def Let_def demo_link_def)
  then show ?thesis by (simp add: built_layout_local demo_link_def)
qed


lemma advance_None_empty:
  assumes "layout_ok l" "advance l c d = None"
  shows "\<exists>s. screens l (cursor_machine c) = Some s \<and> (width s = 0 \<or> height s = 0)"
proof -
  obtain s where s: "screens l (cursor_machine c) = Some s"
    using assms(2) by (cases "screens l (cursor_machine c)") (auto simp: advance_unknown)
  have "stays l (cursor_machine c) s (candidate c d)"
    using assms(2) by (rule_tac ccontr) (erule advance_leaves [OF assms(1) s], simp)
  then show ?thesis using assms(2) advance_stays [OF s] s by fastforce
qed

lemma advance_cursor_None:
  "advance_cursor ord d sh = None \<Longrightarrow> advance (layout sh) (cursor sh) (tracked_delta d sh) = None"
  by (auto simp: advance_cursor_def tracked_delta_def [symmetric] Let_def
      split: option.splits sum.splits)

text \<open>Capturing input can only panic, and with it poison the state lock every other handler takes,
  on a mouse movement while the cursor is on a screen with no pixels.  The daemon measures its own
  screen, but takes a peer's from its handshake message unchecked, so a peer can bring this
  about.\<close>
theorem capture_panics_on_empty_screen:
  assumes "daemon_inv sh" "route_captured ord os ev sh = None"
  shows "(\<exists>d. ev = Motion d) \<and>
    (\<exists>s. known_screens sh (holder sh) = Some s \<and> (width s = 0 \<or> height s = 0))"
proof -
  have tr: "tracking_inv sh" using assms(1) by (simp add: daemon_inv_iff)
  have empty: "\<exists>s. known_screens sh1 (holder sh1) = Some s \<and> (width s = 0 \<or> height s = 0)"
    if "tracking_inv sh1" "advance_cursor ord d sh1 = None" for sh1 :: "'a shared" and d
    using advance_None_empty [OF tracking_invD(5) [OF that(1)] advance_cursor_None [OF that(2)]]
      tracking_invD(4,6) [OF that(1)] by simp
  show ?thesis
  proof (cases ev)
    case (Motion d)
    show ?thesis
    proof (cases "active sh")
      case Local
      then have "advance_cursor ord d (sync_cursor_to_os os sh) = None"
        using assms(2) Motion
        by (cases "advance_cursor ord d (sync_cursor_to_os os sh)") (auto simp: route_captured_def Let_def)
      from empty [OF tracking_sync_cursor [OF tr Local] this] Motion show ?thesis
        by (auto simp: sync_cursor_to_os_def split: option.splits)
    next
      case (Remote p)
      then have "advance_cursor ord d sh = None"
        using assms(2) Motion by (cases "advance_cursor ord d sh") (auto simp: route_captured_def Let_def)
      from empty [OF tr this] Motion show ?thesis by simp
    qed
  qed (use assms(2) in \<open>auto simp: route_captured_def Let_def split: active_target.splits\<close>)
qed

lemma capture_panics_on_empty_screen_witness:
  "\<exists>s. known_screens (follow_peer_cursor demo_peer 0 0 (demo_desk \<lparr> width = 0, height = 2160 \<rparr>)) demo_peer = Some s \<and>
     (width s = 0 \<or> height s = 0)"
proof -
  have "Option.is_none (route_captured [demo_peer] None (Motion \<lparr> dx = 1, dy = 0 \<rparr>)
      (follow_peer_cursor demo_peer 0 0 (demo_desk \<lparr> width = 0, height = 2160 \<rparr>)))"
    by code_simp
  then have none: "route_captured [demo_peer] None (Motion \<lparr> dx = 1, dy = 0 \<rparr>)
      (follow_peer_cursor demo_peer 0 0 (demo_desk \<lparr> width = 0, height = 2160 \<rparr>)) = None"
    by (simp add: Option.is_none_def)
  have "holder (follow_peer_cursor demo_peer 0 0 (demo_desk \<lparr> width = 0, height = 2160 \<rparr>)) = demo_peer"
    by (simp add: follow_peer_cursor_def layout_screen_def demo_desk_screens
        demo_desk_fields follow_peer_def Let_def set_active_def emit_event_def holder_def)
  with capture_panics_on_empty_screen [OF daemon_inv_follow [OF demo_desk_inv] none] show ?thesis by simp
qed

text \<open>The cursor can never be stranded on a peer: past the edge of every linked peer that faces
  this machine lies this machine, whatever other peers are placed where, and no other edge of the
  peer leads anywhere else.  This machine's edge towards the peer leads to a peer placed there,
  which is another one when several share the edge.\<close>
theorem every_peer_leads_home:
  assumes "layout_current sh" "plinks sh m = Some lk"
    and "m \<noteq> sh_local_machine sh" "plinks sh (sh_local_machine sh) = None"
  shows "neighbor (layout sh) m (opposite (link_edge lk)) = Some (sh_local_machine sh) \<and>
    (\<forall>e n. neighbor (layout sh) m e = Some n \<longrightarrow> n = sh_local_machine sh) \<and>
    (\<exists>n lk'. neighbor (layout sh) (sh_local_machine sh) (link_edge lk) = Some n \<and>
       plinks sh n = Some lk' \<and> link_edge lk' = link_edge lk)"
proof -
  obtain ord where ord: "iterates ord (plinks sh)"
    "layout sh = built_layout (sh_local_machine sh) (sh_local_screen sh) (plinks sh) ord"
    using assms(1) by (auto simp: layout_current_def)
  have mem: "m \<in> set ord" using ord(1) assms(2) by (auto simp: iterates_def)
  have loc: "sh_local_machine sh \<notin> set ord" "set ord \<subseteq> dom (plinks sh)"
    using ord(1) assms(4) by (auto simp: iterates_def)
  have nb: "neighbor (layout sh) (sh_local_machine sh) (link_edge lk) =
      List.find (\<lambda>m. map_option link_edge (plinks sh m) = Some (link_edge lk)) (rev ord)"
    unfolding ord(2) by (rule built_layout_local [OF loc])
  have "List.find (\<lambda>m. map_option link_edge (plinks sh m) = Some (link_edge lk)) (rev ord) \<noteq> None"
    using mem assms(2) by (auto simp: find_None_iff)
  then obtain n where n: "List.find (\<lambda>m. map_option link_edge (plinks sh m) = Some (link_edge lk)) (rev ord) = Some n"
    by blast
  then have "map_option link_edge (plinks sh n) = Some (link_edge lk)" by (auto simp: find_Some_iff)
  then obtain lk' where "plinks sh n = Some lk'" "link_edge lk' = link_edge lk" by auto
  moreover have "neighbor (layout sh) m (opposite (link_edge lk)) = Some (sh_local_machine sh)"
    unfolding ord(2) by (rule built_layout_home [where ls = "plinks sh", OF mem assms(2,3)])
  ultimately show ?thesis
    using nb n layout_current_star [OF assms(1)] assms(3) by metis
qed

lemma every_peer_leads_home_witness:
  "neighbor (layout (demo_desk \<lparr> width = 0, height = 7 \<rparr>)) demo_peer LeftEdge = Some demo_local"
  using every_peer_leads_home [OF demo_desk_current, of "\<lparr> width = 0, height = 7 \<rparr>" demo_peer]
  by (simp add: demo_desk_fields demo_link_def)

text \<open>C9. When a session ends, however it ends, nothing is left pointing at the peer: its link and its
  session are gone, and if it was being controlled the keyboard and mouse are back on this machine
  with the cursor at home; control of another peer is not disturbed.\<close>
theorem session_end_brings_control_home:
  assumes "daemon_inv sh" "iterates ord ((plinks sh)(m := None))" "m \<noteq> sh_local_machine sh"
  shows "plinks (cleanup_peer ord m sh) = (plinks sh)(m := None) \<and>
    sm_by_peer (sessions (cleanup_peer ord m sh)) m = None \<and>
    (if active sh = Remote m
     then active (cleanup_peer ord m sh) = Local \<and> \<not> sh_suppress (cleanup_peer ord m sh) \<and>
       cursor (cleanup_peer ord m sh) = home_cursor sh
     else active (cleanup_peer ord m sh) = active sh \<and> cursor (cleanup_peer ord m sh) = cursor sh)"
proof -
  note inv = daemon_invD [OF assms(1)]
  note inv' = daemon_invD [OF daemon_inv_cleanup [OF assms(1,2)]]
  have links: "plinks (cleanup_peer ord m sh) = (plinks sh)(m := None)"
    by (cases "plinks sh m") (auto simp: cleanup_peer_def Let_def)
  have loc: "sh_local_machine (cleanup_peer ord m sh) = sh_local_machine sh"
    by (simp add: cleanup_peer_def Let_def split: option.split)
  have by_peer: "sm_by_peer (sessions (cleanup_peer ord m sh)) m = None"
    using inv'(3) [of m] links by simp
  have act: "active (cleanup_peer ord m sh) = (if active sh = Remote m then Local else active sh)"
  proof (cases "plinks sh m")
    case None
    then have "sm_by_peer (sessions sh) m = None" using inv(3) [of m] by simp
    then have "active sh \<noteq> Remote m" using session_okD(4) [OF inv(1)] by fastforce
    then show ?thesis using None by (simp add: cleanup_peer_def Let_def)
  next
    case (Some lk)
    then have bp: "sm_by_peer (sessions sh) m = Some (link_session lk)" using inv(3) [of m] by simp
    obtain s' where "session_close recording_emit (link_session lk) (sessions sh) = Inr s'"
      "sm_active s' = (if active sh = Remote m then Local else active sh)"
      by (rule session_close_by_peer [OF inv(1) bp])
    then show ?thesis using Some by (simp add: cleanup_peer_def Let_def or_keep_def)
  qed
  have scr: "layout_screen (layout (cleanup_peer ord m sh)) x =
      (if x = m then None else known_screens sh x)" for x
    using inv'(4) links assms(3) loc
    by (simp add: layout_screen_def known_screens_def cleanup_peer_def Let_def split: option.split)
  have cur: "cursor (cleanup_peer ord m sh) =
      (if layout_screen (layout (cleanup_peer ord m sh)) (cursor_machine (cursor sh)) = None
       then home_cursor sh else cursor sh)"
    by (auto simp: cleanup_peer_def Let_def rebuild_layout_def home_cursor_def split: option.split)
  have "known_screens sh (holder sh) \<noteq> None" using holder_known [OF assms(1)] inv(4) by simp
  moreover have "holder sh = m \<longleftrightarrow> active sh = Remote m"
    using assms(3) by (auto simp: holder_def split: active_target.split)
  ultimately have "cursor (cleanup_peer ord m sh) = (if active sh = Remote m then home_cursor sh else cursor sh)"
    unfolding cur scr inv(6) by auto
  then show ?thesis using links by_peer act inv'(8) by simp
qed

lemma session_end_brings_control_home_witness:
  "active (cleanup_peer [] demo_peer demo_away) = Local \<and> \<not> sh_suppress (cleanup_peer [] demo_peer demo_away)"
proof -
  have "iterates [] ((plinks demo_away)(demo_peer := None))" by (simp add: iterates_def demo_away_fields)
  from session_end_brings_control_home [OF demo_away_inv(1) this]
  show ?thesis by (simp add: demo_away_fields)
qed

text \<open>The two halves of the hand-over.  Giving way puts input back on this machine, releases the
  suppression and sends nothing, and is announced to subscribers only if control was elsewhere.
  Following a linked peer sends input there with the tracked cursor at the announced spot, clamped
  into that peer's screen; a peer without a link changes nothing.\<close>
theorem hand_over_effects:
  assumes "daemon_inv sh" "p \<noteq> sh_local_machine sh"
  shows "active (yield_control_to_peer sh) = Local \<and> \<not> sh_suppress (yield_control_to_peer sh) \<and>
    plinks (yield_control_to_peer sh) = plinks sh \<and>
    sh_changes (yield_control_to_peer sh) = sh_changes sh + (if active sh = Local then 0 else 1) \<and>
    (case plinks sh p of
       None \<Rightarrow> follow_peer_cursor p x y sh = sh
     | Some lk \<Rightarrow> active (follow_peer_cursor p x y sh) = Remote p \<and>
         sh_suppress (follow_peer_cursor p x y sh) \<and> plinks (follow_peer_cursor p x y sh) = plinks sh \<and>
         cursor (follow_peer_cursor p x y sh) = \<lparr> cursor_machine = p,
           cursor_position = clamp_to_screen (link_screen lk) x y \<rparr>)"
proof -
  note inv = daemon_invD [OF assms(1)]
  have changes: "sh_changes (notify_change (sync_suppression (set_cursor c (set_sessions s sh)))) = sh_changes sh + 1"
    for c s by (simp add: notify_change_def sync_suppression_def setters)
  have yield: "active (yield_control_to_peer sh) = Local \<and> \<not> sh_suppress (yield_control_to_peer sh) \<and>
    plinks (yield_control_to_peer sh) = plinks sh \<and>
    sh_changes (yield_control_to_peer sh) = sh_changes sh + (if active sh = Local then 0 else 1)"
    using inv(8) changes by (simp add: yield_control_to_peer_eq set_active_def emit_event_def)
  show ?thesis
  proof (cases "plinks sh p")
    case None
    then have "layout_screen (layout sh) p = None"
      using inv(4) assms(2) by (simp add: layout_screen_def known_screens_def)
    then show ?thesis using None yield by (simp add: follow_peer_cursor_def)
  next
    case (Some lk)
    then have scr: "layout_screen (layout sh) p = Some (link_screen lk)"
      using inv(4) assms(2) by (simp add: layout_screen_def known_screens_def)
    have "sm_by_peer (sessions sh) p \<noteq> None" using inv(3) [of p] Some by simp
    then have f: "follow_peer recording_emit p (sessions sh) =
        Inr (set_active recording_emit (Remote p) (sessions sh))"
      by (simp add: follow_peer_def)
    have "sm_active (set_active recording_emit (Remote p) (sessions sh)) = Remote p"
      by (simp add: set_active_def emit_event_def)
    then show ?thesis using Some scr f yield by (simp add: follow_peer_cursor_def Let_def)
  qed
qed

lemma hand_over_effects_witness:
  "active (yield_control_to_peer demo_away) = Local \<and>
   cursor (follow_peer_cursor demo_peer (- 5) 2160 demo_away) =
     \<lparr> cursor_machine = demo_peer, cursor_position = \<lparr> px = 0, py = 2159 \<rparr> \<rparr>"
proof -
  have "clamp_to_screen \<lparr> width = 3840, height = 2160 \<rparr> (- 5) 2160 = \<lparr> px = 0, py = 2159 \<rparr>"
    by (simp add: clamp_to_screen_def saturating_sub_def)
  then show ?thesis
    using hand_over_effects [OF demo_away_inv(1), of demo_peer "- 5" 2160]
    by (simp add: demo_away_fields demo_link_def)
qed

end
