(* ===== verification/RateLimit.thy ===== *)
theory RateLimit
  imports Prelude Complex_Main
begin

text \<open>
  \<^verbatim>\<open>crates/omni-runtime/src/ratelimit.rs\<close>: the token bucket every session's input passes.
  Times are seconds since some origin; the \<^verbatim>\<open>f64\<close> arithmetic of the code is modelled by exact
  arithmetic on the reals, so rounding is left out.
\<close>

definition EVENTS_PER_SECOND :: nat where "EVENTS_PER_SECOND = 2000"
definition BURST :: nat where "BURST = 4000"

record rate_limiter =
  rl_capacity :: real
  rl_tokens :: real
  rl_refill :: real
  rl_last :: real

definition limiter_new :: "nat \<Rightarrow> nat \<Rightarrow> real \<Rightarrow> rate_limiter" where
  "limiter_new rate burst now = \<lparr> rl_capacity = of_nat burst, rl_tokens = of_nat burst,
     rl_refill = of_nat rate, rl_last = now \<rparr>"

text \<open>\<^verbatim>\<open>Instant::duration_since\<close> is zero for an earlier instant.\<close>
definition allow_at :: "real \<Rightarrow> rate_limiter \<Rightarrow> bool \<times> rate_limiter" where
  "allow_at now l =
     (let elapsed = max 0 (now - rl_last l);
          l = l \<lparr> rl_last := now \<rparr>;
          l = l \<lparr> rl_tokens := min (rl_tokens l + elapsed * rl_refill l) (rl_capacity l) \<rparr>
      in if 1 \<le> rl_tokens l then (True, l \<lparr> rl_tokens := rl_tokens l - 1 \<rparr>) else (False, l))"

definition limiter_ok :: "rate_limiter \<Rightarrow> bool" where
  "limiter_ok l \<longleftrightarrow> 0 \<le> rl_tokens l \<and> rl_tokens l \<le> rl_capacity l \<and> 0 \<le> rl_refill l"

fun allow_all :: "real list \<Rightarrow> rate_limiter \<Rightarrow> nat \<times> rate_limiter" where
  "allow_all [] l = (0, l)"
| "allow_all (t # ts) l =
     (let (ok, l) = allow_at t l; (n, l) = allow_all ts l in (if ok then Suc n else n, l))"

lemma limiter_ok_new [inv_intros]: "limiter_ok (limiter_new rate burst now)"
  by (simp add: limiter_ok_def limiter_new_def)

lemma limiter_ok_allow [inv_intros]: "limiter_ok l \<Longrightarrow> limiter_ok (snd (allow_at now l))"
  by (auto simp: limiter_ok_def allow_at_def Let_def)

lemma allow_at_spends:
  assumes "limiter_ok l" "rl_last l \<le> now" "allow_at now l = (ok, l')"
  shows "(if ok then 1 else 0) + rl_tokens l' \<le> rl_tokens l + (now - rl_last l) * rl_refill l"
    "rl_refill l' = rl_refill l" "rl_capacity l' = rl_capacity l" "rl_last l' = now"
  using assms by (auto simp: allow_at_def Let_def split: if_splits)

lemma allow_all_spends:
  assumes "limiter_ok l" "sorted (rl_last l # ts)"
  shows "of_nat (fst (allow_all ts l)) + rl_tokens (snd (allow_all ts l)) \<le>
      rl_tokens l + (last (rl_last l # ts) - rl_last l) * rl_refill l \<and> limiter_ok (snd (allow_all ts l))"
  using assms
proof (induction ts arbitrary: l)
  case Nil
  then show ?case by simp
next
  case (Cons t ts)
  obtain ok l1 where l1: "allow_at t l = (ok, l1)" by (cases "allow_at t l")
  obtain n l2 where l2: "allow_all ts l1 = (n, l2)" by (cases "allow_all ts l1")
  have le: "rl_last l \<le> t" using Cons.prems(2) by simp
  note one = allow_at_spends [OF Cons.prems(1) le l1]
  have ok1: "limiter_ok l1" using limiter_ok_allow [OF Cons.prems(1), of t] l1 by simp
  have "of_nat n + rl_tokens l2 \<le> rl_tokens l1 + (last (t # ts) - t) * rl_refill l \<and> limiter_ok l2"
    using Cons.IH [OF ok1] Cons.prems(2) one l2 by simp
  moreover have "(last (t # ts) - rl_last l) * rl_refill l =
      (last (t # ts) - t) * rl_refill l + (t - rl_last l) * rl_refill l"
    by (simp add: left_diff_distrib)
  ultimately show ?case using one(1) l1 l2 by (auto split: if_splits)
qed

lemma allow_prefix:
  assumes "limiter_ok l" "rl_last l \<le> now" "1 \<le> rl_tokens l"
  shows "fst (allow_at now l)" "rl_tokens l - 1 \<le> rl_tokens (snd (allow_at now l))"
proof -
  define e where "e = (now - rl_last l) * rl_refill l"
  have e: "0 \<le> e" "max 0 (now - rl_last l) * rl_refill l = e"
    using assms by (simp_all add: limiter_ok_def e_def)
  have "min (rl_tokens l + e) (rl_capacity l) \<ge> rl_tokens l"
    using assms(1) e(1) by (simp add: limiter_ok_def)
  then show "fst (allow_at now l)" "rl_tokens l - 1 \<le> rl_tokens (snd (allow_at now l))"
    using assms(3) by (simp_all add: allow_at_def Let_def e(2))
qed

section \<open>Properties\<close>

text \<open>A flood is cut off: between any two moments a session delivers at most its burst plus the
  sustained rate times the time that passed, however many events arrive and whenever they do; and
  the bucket never overfills.\<close>
theorem flood_is_bounded:
  assumes "limiter_ok l" "sorted (rl_last l # ts)"
  shows "of_nat (fst (allow_all ts l)) \<le>
      rl_capacity l + (last (rl_last l # ts) - rl_last l) * rl_refill l \<and>
    limiter_ok (snd (allow_all ts l))"
  using allow_all_spends [OF assms] assms(1) by (auto simp: limiter_ok_def)

lemma flood_is_bounded_witness:
  "of_nat (fst (allow_all [0, 0, 1 / 10] (limiter_new 10 5 0))) \<le> (6 :: real)"
  using flood_is_bounded [OF limiter_ok_new, of 10 5 0 "[0, 0, 1 / 10]"]
  by (simp add: limiter_new_def)

text \<open>Ordinary use is never throttled: up to as many events as there are whole tokens are all
  delivered, at whatever moments they arrive.\<close>
theorem burst_is_delivered:
  assumes "limiter_ok l" "sorted (rl_last l # ts)" "of_nat (length ts) \<le> rl_tokens l"
  shows "fst (allow_all ts l) = length ts"
  using assms
proof (induction ts arbitrary: l)
  case Nil
  then show ?case by simp
next
  case (Cons t ts)
  have le: "rl_last l \<le> t" and one: "1 \<le> rl_tokens l" using Cons.prems by simp_all
  obtain ok l1 where l1: "allow_at t l = (ok, l1)" by (cases "allow_at t l")
  have ok: "ok" "rl_tokens l - 1 \<le> rl_tokens l1"
    using allow_prefix [OF Cons.prems(1) le one] l1 by simp_all
  have "limiter_ok l1" using limiter_ok_allow [OF Cons.prems(1), of t] l1 by simp
  moreover have "sorted (rl_last l1 # ts)"
    using Cons.prems(2) allow_at_spends(4) [OF Cons.prems(1) le l1] by simp
  ultimately have "fst (allow_all ts l1) = length ts"
    using Cons.IH Cons.prems(3) ok(2) by simp
  then show ?case using l1 ok(1) by (simp add: case_prod_beta)
qed

lemma burst_is_delivered_witness: "fst (allow_all [0, 0, 0] (limiter_new 10 5 0)) = 3"
  using burst_is_delivered [OF limiter_ok_new, of 10 5 0 "[0, 0, 0]"]
  by (simp add: limiter_new_def)

end
