(* ===== verification/PeerTask.thy ===== *)
theory PeerTask
  imports Routing RateLimit "HOL-Library.Sublist"
begin

text \<open>
  \<^verbatim>\<open>run_peer\<close> of \<^verbatim>\<open>crates/omni-runtime/src/daemon.rs\<close>: the task that serves one connection.  Its
  loop waits on six sources at once; every branch of the \<^verbatim>\<open>select!\<close> is one step here, so a run is
  any interleaving of them.  Times are seconds.  What leaves on the three ways out (datagrams,
  the control stream, the queue of the clipboard sender) is appended to the lists of the state.
\<close>

section \<open>Cursor motion in a backlog\<close>

fun is_pointer :: "peer_command \<Rightarrow> bool" where
  "is_pointer (InputCmd (Pointer x y)) = True"
| "is_pointer c = False"

definition coalesce_step :: "peer_command list \<Rightarrow> peer_command \<Rightarrow> peer_command list" where
  "coalesce_step out c =
     (if is_pointer c \<and> out \<noteq> [] \<and> is_pointer (last out) then butlast out @ [c] else out @ [c])"

definition coalesce_motion :: "peer_command list \<Rightarrow> peer_command list" where
  "coalesce_motion batch = foldl coalesce_step [] batch"

lemma coalesce_motion_snoc [simp]:
  "coalesce_motion (cs @ [c]) = coalesce_step (coalesce_motion cs) c" "coalesce_motion [] = []"
  by (simp_all add: coalesce_motion_def)

lemma coalesce_step_not_Nil [simp]: "coalesce_step out c \<noteq> []" "last (coalesce_step out c) = c"
  by (simp_all add: coalesce_step_def)

lemma coalesce_motion_Nil_iff [simp]: "coalesce_motion cs = [] \<longleftrightarrow> cs = []"
  by (cases cs rule: rev_cases) simp_all

lemma last_coalesce_motion: "cs \<noteq> [] \<Longrightarrow> last (coalesce_motion cs) = last cs"
  by (cases cs rule: rev_cases) simp_all

lemma subseq_coalesce: "subseq (coalesce_motion cs) cs"
proof (induction cs rule: rev_induct)
  case Nil
  then show ?case by simp
next
  case (snoc c cs)
  have "subseq (butlast (coalesce_motion cs)) (coalesce_motion cs)" by (rule prefix_imp_subseq [OF prefixeq_butlast])
  then have "subseq (butlast (coalesce_motion cs)) cs" using snoc subseq_order.trans by blast
  then show ?case using snoc by (simp add: coalesce_step_def list_emb_append_mono)
qed

lemma filter_coalesce: "filter (\<lambda>c. \<not> is_pointer c) (coalesce_motion cs) = filter (\<lambda>c. \<not> is_pointer c) cs"
proof (induction cs rule: rev_induct)
  case Nil
  then show ?case by simp
next
  case (snoc c cs)
  show ?case
  proof (cases "is_pointer c \<and> coalesce_motion cs \<noteq> [] \<and> is_pointer (last (coalesce_motion cs))")
    case True
    then have "filter (\<lambda>c. \<not> is_pointer c) (butlast (coalesce_motion cs)) =
        filter (\<lambda>c. \<not> is_pointer c) (coalesce_motion cs)"
      by (cases "coalesce_motion cs" rule: rev_cases) simp_all
    then show ?thesis using snoc True by (simp add: coalesce_step_def)
  next
    case False
    then show ?thesis using snoc by (auto simp: coalesce_step_def)
  qed
qed

text \<open>No two neighbours are both cursor positions.\<close>
definition spaced :: "peer_command list \<Rightarrow> bool" where
  "spaced cs \<longleftrightarrow> (\<forall>i. Suc i < length cs \<longrightarrow> \<not> (is_pointer (cs ! i) \<and> is_pointer (cs ! Suc i)))"

lemma spaced_snoc:
  "spaced (cs @ [c]) \<longleftrightarrow> spaced cs \<and> \<not> (cs \<noteq> [] \<and> is_pointer (last cs) \<and> is_pointer c)"
proof (cases cs rule: rev_cases)
  case Nil
  then show ?thesis by (simp add: spaced_def)
next
  case (snoc ys y)
  then show ?thesis by (fastforce simp: spaced_def nth_append less_Suc_eq)
qed

lemma spaced_butlast: "spaced cs \<Longrightarrow> spaced (butlast cs)"
  by (cases cs rule: rev_cases) (simp_all add: spaced_snoc)

lemma spaced_coalesce: "spaced (coalesce_motion cs)"
proof (induction cs rule: rev_induct)
  case Nil
  then show ?case by (simp add: spaced_def)
next
  case (snoc c cs)
  show ?case
  proof (cases "coalesce_motion cs" rule: rev_cases)
    case Nil
    then show ?thesis by (simp add: coalesce_step_def spaced_def coalesce_motion_def)
  next
    case (snoc ys y)
    have s: "spaced (ys @ [y])" using snoc.IH snoc by simp
    then have "spaced ys" "\<not> (ys \<noteq> [] \<and> is_pointer (last ys) \<and> is_pointer y)"
      by (simp_all add: spaced_snoc)
    then show ?thesis using s snoc spaced_snoc [of "ys @ [y]" c] by (auto simp: coalesce_step_def spaced_snoc)
  qed
qed

lemma coalesce_spaced: "spaced cs \<Longrightarrow> coalesce_motion cs = cs"
  by (induction cs rule: rev_induct) (auto simp: spaced_snoc coalesce_step_def)

text \<open>Where the cursor is when each of the other commands takes effect.\<close>
fun landings :: "peer_command option \<Rightarrow> peer_command list \<Rightarrow> (peer_command option \<times> peer_command) list" where
  "landings spot [] = []"
| "landings spot (c # cs) =
     (if is_pointer c then landings (Some c) cs else (spot, c) # landings spot cs)"

definition cursor_after :: "peer_command option \<Rightarrow> peer_command list \<Rightarrow> peer_command option" where
  "cursor_after spot cs = (case filter is_pointer cs of [] \<Rightarrow> spot | ps \<Rightarrow> Some (last ps))"

lemma landings_append: "landings spot (cs @ ds) = landings spot cs @ landings (cursor_after spot cs) ds"
  by (induction cs arbitrary: spot) (auto simp: cursor_after_def split: list.split)

lemma cursor_after_snoc [simp]: "cursor_after spot (cs @ [c]) = (if is_pointer c then Some c else cursor_after spot cs)"
  by (cases "filter is_pointer cs") (auto simp: cursor_after_def split: list.split)

lemma coalesce_landings:
  "landings spot (coalesce_motion cs) = landings spot cs \<and>
   cursor_after spot (coalesce_motion cs) = cursor_after spot cs"
proof (induction cs rule: rev_induct)
  case Nil
  then show ?case by simp
next
  case (snoc c cs)
  show ?case
  proof (cases "is_pointer c \<and> coalesce_motion cs \<noteq> [] \<and> is_pointer (last (coalesce_motion cs))")
    case True
    then obtain ys y where ys: "coalesce_motion cs = ys @ [y]" "is_pointer y"
      by (cases "coalesce_motion cs" rule: rev_cases) auto
    then have "landings spot ys = landings spot cs" using snoc by (simp add: landings_append)
    then show ?thesis using True ys by (simp add: coalesce_step_def landings_append)
  next
    case False
    then have "coalesce_motion (cs @ [c]) = coalesce_motion cs @ [c]"
      by (auto simp: coalesce_step_def)
    then show ?thesis using snoc by (simp add: landings_append del: coalesce_motion_snoc)
  qed
qed

text \<open>C26. Collapsing a backlog of cursor positions loses nothing that matters: the result is a
  subsequence of the backlog with every key, click, scroll and message in order, each taking effect
  at the same cursor position as before and the cursor ending at the same spot; no two positions
  are left next to each other, and collapsing again changes nothing.\<close>
theorem coalescing_keeps_meaning:
  "subseq (coalesce_motion cs) cs \<and>
   filter (\<lambda>c. \<not> is_pointer c) (coalesce_motion cs) = filter (\<lambda>c. \<not> is_pointer c) cs \<and>
   landings spot (coalesce_motion cs) = landings spot cs \<and>
   cursor_after spot (coalesce_motion cs) = cursor_after spot cs \<and>
   spaced (coalesce_motion cs) \<and> coalesce_motion (coalesce_motion cs) = coalesce_motion cs"
  using subseq_coalesce filter_coalesce coalesce_landings spaced_coalesce coalesce_spaced by blast

section \<open>The task's state\<close>

definition HEARTBEAT_TIMEOUT :: real where "HEARTBEAT_TIMEOUT = 8"

record 'p peer_task =
  pt_shared :: "'p shared"
  pt_session :: session_id
  pt_machine :: machine_id
  pt_limiter :: rate_limiter
  pt_dropped :: u64
  pt_deadline :: real
  pt_datagrams :: "wire_message list"
  pt_control :: "wire_message list"
  pt_bulk :: "clipboard_data list"

definition peer_task_new :: "real \<Rightarrow> session_id \<Rightarrow> machine_id \<Rightarrow> 'p shared \<Rightarrow> 'p peer_task" where
  "peer_task_new now sid m sh = \<lparr> pt_shared = sh, pt_session = sid, pt_machine = m,
     pt_limiter = limiter_new EVENTS_PER_SECOND BURST now, pt_dropped = 0,
     pt_deadline = now + HEARTBEAT_TIMEOUT, pt_datagrams = [], pt_control = [], pt_bulk = [] \<rparr>"

definition put_datagram :: "wire_message \<Rightarrow> 'p peer_task \<Rightarrow> 'p peer_task" where
  "put_datagram msg t = t \<lparr> pt_datagrams := pt_datagrams t @ [msg] \<rparr>"
definition put_control :: "control_message \<Rightarrow> 'p peer_task \<Rightarrow> 'p peer_task" where
  "put_control msg t = t \<lparr> pt_control := pt_control t @ [Control msg] \<rparr>"
definition put_bulk :: "clipboard_data \<Rightarrow> 'p peer_task \<Rightarrow> 'p peer_task" where
  "put_bulk d t = t \<lparr> pt_bulk := pt_bulk t @ [d] \<rparr>"
definition on_shared :: "('p shared \<Rightarrow> 'p shared) \<Rightarrow> 'p peer_task \<Rightarrow> 'p peer_task" where
  "on_shared f t = t \<lparr> pt_shared := f (pt_shared t) \<rparr>"
definition alive_at :: "real \<Rightarrow> 'p peer_task \<Rightarrow> 'p peer_task" where
  "alive_at now t = t \<lparr> pt_deadline := now + HEARTBEAT_TIMEOUT \<rparr>"

section \<open>The branches of the loop\<close>

text \<open>Each returns whether the loop is left.  \<open>ok i\<close> says whether sending the \<open>i\<close>-th command of
  the batch succeeds; a lost datagram is only logged, a failing stream ends the session.\<close>
fun send_commands ::
  "(nat \<Rightarrow> bool) \<Rightarrow> nat \<Rightarrow> peer_command list \<Rightarrow> 'p peer_task \<Rightarrow> bool \<times> 'p peer_task" where
  "send_commands ok i [] t = (False, t)"
| "send_commands ok i (InputCmd ev # cs) t =
     send_commands ok (Suc i) cs (if ok i then put_datagram (Input (pt_session t) ev) t else t)"
| "send_commands ok i (WarpCmd x y # cs) t =
     (if ok i then send_commands ok (Suc i) cs (put_control (CursorWarp (pt_session t) x y) t)
      else (True, t))"
| "send_commands ok i (CursorReturnedCmd x y # cs) t =
     (if ok i then send_commands ok (Suc i) cs (put_control (CursorReturned (pt_session t) x y) t)
      else (True, t))"
| "send_commands ok i (ClipboardCmd d # cs) t =
     (if ok i then send_commands ok (Suc i) cs (put_bulk d t) else (True, t))"
| "send_commands ok i (DisconnectCmd # cs) t =
     (True, if ok i then put_control (DisconnectMsg (pt_session t)) t else t)"

text \<open>The first command and everything queued behind it are taken out of the channel together.\<close>
definition on_commands :: "(nat \<Rightarrow> bool) \<Rightarrow> 'p peer_task \<Rightarrow> bool \<times> 'p peer_task" where
  "on_commands ok t = (case plinks (pt_shared t) (pt_machine t) of
      None \<Rightarrow> (True, if ok 0 then put_control (DisconnectMsg (pt_session t)) t else t)
    | Some lk \<Rightarrow>
        if link_commands lk = [] then (False, t)
        else send_commands ok 0 (coalesce_motion (link_commands lk))
          (on_shared (set_links ((plinks (pt_shared t))(pt_machine t \<mapsto> lk \<lparr> link_commands := [] \<rparr>))) t))"

datatype datagram_result = Datagram wire_message | DatagramsClosed | DatagramUndecodable | DatagramChannelFailed

definition on_datagram :: "real \<Rightarrow> datagram_result \<Rightarrow> 'p peer_task \<Rightarrow> bool \<times> 'p peer_task" where
  "on_datagram now r t =
     (let t = alive_at now t in
      case r of
        Datagram msg \<Rightarrow>
          (case msg of
             Input claimed ev \<Rightarrow>
               if claimed \<noteq> pt_session t then (False, t)
               else
                 let (ok, l) = allow_at now (pt_limiter t); t = t \<lparr> pt_limiter := l \<rparr>
                 in if \<not> ok then (False, t \<lparr> pt_dropped := pt_dropped t + 1 \<rparr>)
                    else (False, on_shared (inject ev) t)
           | _ \<Rightarrow> (False, t))
      | DatagramsClosed \<Rightarrow> (True, t)
      | DatagramUndecodable \<Rightarrow> (False, t)
      | DatagramChannelFailed \<Rightarrow> (True, t))"

datatype control_result = ControlGot wire_message | ControlClosed | ControlFailed

definition on_control :: "real \<Rightarrow> control_result \<Rightarrow> 'p peer_task \<Rightarrow> bool \<times> 'p peer_task" where
  "on_control now r t =
     (let t = alive_at now t in
      case r of
        ControlGot msg \<Rightarrow>
          (case msg of
             Control c \<Rightarrow>
               (case c of
                  DisconnectMsg sid \<Rightarrow> (True, t)
                | CursorWarp claimed x y \<Rightarrow>
                    (False, if claimed = pt_session t
                       then on_shared (\<lambda>sh. warp x y (yield_control_to_peer sh)) t else t)
                | CursorReturned claimed x y \<Rightarrow>
                    (False, if claimed = pt_session t
                       then on_shared (follow_peer_cursor (pt_machine t) x y) t else t)
                | _ \<Rightarrow> (False, t))
           | _ \<Rightarrow> (False, t))
      | ControlClosed \<Rightarrow> (True, t)
      | ControlFailed \<Rightarrow> (True, t))"

definition on_bulk ::
  "nat \<Rightarrow> (clipboard_data \<Rightarrow> 'p \<Rightarrow> clipboard_error + 'p) \<Rightarrow> real \<Rightarrow> wire_message option \<Rightarrow>
   'p peer_task \<Rightarrow> bool \<times> 'p peer_task" where
  "on_bulk bits write_clip now r t = (case r of
      Some (Clipboard d) \<Rightarrow> (False, on_shared (\<lambda>sh. sh \<lparr> sh_clipboard :=
          snd (handle_remote_update bits write_clip d (sh_clipboard sh)) \<rparr>) (alive_at now t))
    | Some _ \<Rightarrow> (False, t)
    | None \<Rightarrow> (True, t))"

definition on_heartbeat :: "bool \<Rightarrow> 'p peer_task \<Rightarrow> bool \<times> 'p peer_task" where
  "on_heartbeat ok t = (if ok then (False, put_control (Heartbeat (pt_session t)) t) else (True, t))"

text \<open>The deadline's timer only fires once its time has come.\<close>
definition on_liveness :: "real \<Rightarrow> 'p peer_task \<Rightarrow> bool \<times> 'p peer_task" where
  "on_liveness now t = (pt_deadline t \<le> now, t)"

datatype peer_event =
    CommandsReady "nat \<Rightarrow> bool"
  | DatagramIn datagram_result
  | ControlIn control_result
  | BulkIn "wire_message option"
  | HeartbeatTick bool
  | LivenessCheck

fun peer_step ::
  "nat \<Rightarrow> (clipboard_data \<Rightarrow> 'p \<Rightarrow> clipboard_error + 'p) \<Rightarrow> real \<Rightarrow> peer_event \<Rightarrow> 'p peer_task \<Rightarrow>
   bool \<times> 'p peer_task" where
  "peer_step bits w now (CommandsReady ok) t = on_commands ok t"
| "peer_step bits w now (DatagramIn r) t = on_datagram now r t"
| "peer_step bits w now (ControlIn r) t = on_control now r t"
| "peer_step bits w now (BulkIn r) t = on_bulk bits w now r t"
| "peer_step bits w now (HeartbeatTick ok) t = on_heartbeat ok t"
| "peer_step bits w now LivenessCheck t = on_liveness now t"

text \<open>A run of the loop: it stops at the first step that leaves it.\<close>
fun peer_run ::
  "nat \<Rightarrow> (clipboard_data \<Rightarrow> 'p \<Rightarrow> clipboard_error + 'p) \<Rightarrow> (real \<times> peer_event) list \<Rightarrow> 'p peer_task \<Rightarrow>
   bool \<times> 'p peer_task" where
  "peer_run bits w [] t = (False, t)"
| "peer_run bits w ((now, ev) # evs) t =
     (let (leave, t) = peer_step bits w now ev t in if leave then (True, t) else peer_run bits w evs t)"

text \<open>What follows the loop.\<close>
definition peer_end :: "machine_id list \<Rightarrow> 'p peer_task \<Rightarrow> 'p shared" where
  "peer_end ord t = cleanup_peer ord (pt_machine t) (pt_shared t)"

lemma put_fields [simp]:
  "pt_shared (put_datagram m t) = pt_shared t" "pt_shared (put_control c t) = pt_shared t"
  "pt_shared (put_bulk d t) = pt_shared t" "pt_shared (alive_at now t) = pt_shared t"
  "pt_shared (on_shared f t) = f (pt_shared t)"
  "pt_session (put_datagram m t) = pt_session t" "pt_session (put_control c t) = pt_session t"
  "pt_session (put_bulk d t) = pt_session t" "pt_session (alive_at now t) = pt_session t"
  "pt_session (on_shared f t) = pt_session t"
  "pt_machine (put_datagram m t) = pt_machine t" "pt_machine (put_control c t) = pt_machine t"
  "pt_machine (put_bulk d t) = pt_machine t" "pt_machine (alive_at now t) = pt_machine t"
  "pt_machine (on_shared f t) = pt_machine t"
  "pt_limiter (put_datagram m t) = pt_limiter t" "pt_limiter (put_control c t) = pt_limiter t"
  "pt_limiter (put_bulk d t) = pt_limiter t" "pt_limiter (alive_at now t) = pt_limiter t"
  "pt_limiter (on_shared f t) = pt_limiter t"
  "pt_deadline (put_datagram m t) = pt_deadline t" "pt_deadline (put_control c t) = pt_deadline t"
  "pt_deadline (put_bulk d t) = pt_deadline t" "pt_deadline (alive_at now t) = now + HEARTBEAT_TIMEOUT"
  "pt_deadline (on_shared f t) = pt_deadline t"
  by (simp_all add: put_datagram_def put_control_def put_bulk_def on_shared_def alive_at_def)

lemma send_commands_fields [simp]:
  "pt_shared (snd (send_commands ok i cs t)) = pt_shared t"
  "pt_session (snd (send_commands ok i cs t)) = pt_session t"
  "pt_machine (snd (send_commands ok i cs t)) = pt_machine t"
  "pt_limiter (snd (send_commands ok i cs t)) = pt_limiter t"
  "pt_deadline (snd (send_commands ok i cs t)) = pt_deadline t"
  by (induction ok i cs t rule: send_commands.induct) simp_all

section \<open>What goes out\<close>

fun datagram_of :: "session_id \<Rightarrow> peer_command \<Rightarrow> wire_message option" where
  "datagram_of sid (InputCmd ev) = Some (Input sid ev)"
| "datagram_of sid _ = None"

fun control_of :: "session_id \<Rightarrow> peer_command \<Rightarrow> wire_message option" where
  "control_of sid (WarpCmd x y) = Some (Control (CursorWarp sid x y))"
| "control_of sid (CursorReturnedCmd x y) = Some (Control (CursorReturned sid x y))"
| "control_of sid _ = None"

fun bulk_of :: "peer_command \<Rightarrow> clipboard_data option" where
  "bulk_of (ClipboardCmd d) = Some d"
| "bulk_of _ = None"

definition sent :: "peer_command list \<Rightarrow> 'p peer_task \<Rightarrow> 'p peer_task" where
  "sent cs t = t \<lparr>
    pt_datagrams := pt_datagrams t @ List.map_filter (datagram_of (pt_session t)) cs,
    pt_control := pt_control t @ List.map_filter (control_of (pt_session t)) cs,
    pt_bulk := pt_bulk t @ List.map_filter bulk_of cs \<rparr>"

lemma sent_fields [simp]:
  "pt_datagrams (sent cs t) = pt_datagrams t @ List.map_filter (datagram_of (pt_session t)) cs"
  "pt_control (sent cs t) = pt_control t @ List.map_filter (control_of (pt_session t)) cs"
  "pt_bulk (sent cs t) = pt_bulk t @ List.map_filter bulk_of cs"
  "pt_session (sent cs t) = pt_session t" "pt_shared (sent cs t) = pt_shared t"
  by (simp_all add: sent_def)

lemma sent_Cons: "sent (c # cs) t = sent cs (sent [c] t)"
  by (cases t) (auto simp: sent_def List.map_filter_def)

lemma send_command_ok:
  "ok i \<Longrightarrow> c \<noteq> DisconnectCmd \<Longrightarrow> send_commands ok i (c # cs) t = send_commands ok (Suc i) cs (sent [c] t)"
  by (cases c; cases t)
    (simp_all add: sent_def List.map_filter_def put_datagram_def put_control_def put_bulk_def)

lemma send_commands_all_ok:
  assumes "\<And>i. ok i" "DisconnectCmd \<notin> set cs"
  shows "send_commands ok i (cs @ ds) t = send_commands ok (i + length cs) ds (sent cs t)"
  using assms(2)
proof (induction cs arbitrary: i t)
  case Nil
  then show ?case by (cases t) (simp add: sent_def List.map_filter_def)
next
  case (Cons c cs)
  then have "c \<noteq> DisconnectCmd" "DisconnectCmd \<notin> set cs" by auto
  have "send_commands ok i ((c # cs) @ ds) t = send_commands ok (Suc i) (cs @ ds) (sent [c] t)"
    unfolding append_Cons by (rule send_command_ok [of ok, OF assms(1) \<open>c \<noteq> DisconnectCmd\<close>])
  also have "\<dots> = send_commands ok (Suc i + length cs) ds (sent cs (sent [c] t))"
    by (rule Cons.IH) fact
  finally show ?case by (simp add: sent_Cons [of c cs])
qed

lemma set_coalesce: "c \<in> set (coalesce_motion cs) \<Longrightarrow> c \<in> set cs"
  by (induction cs rule: rev_induct) (auto simp: coalesce_step_def split: if_splits dest: in_set_butlastD)

lemma disconnect_coalesce: "DisconnectCmd \<in> set (coalesce_motion cs) \<longleftrightarrow> DisconnectCmd \<in> set cs"
proof -
  have "DisconnectCmd \<in> set (filter (\<lambda>c. \<not> is_pointer c) (coalesce_motion cs)) \<longleftrightarrow>
      DisconnectCmd \<in> set (filter (\<lambda>c. \<not> is_pointer c) cs)"
    by (simp only: filter_coalesce)
  then show ?thesis by simp
qed


text \<open>A task for the demo peer with some commands queued.\<close>
definition demo_task :: "peer_command list \<Rightarrow> mock_clipboard peer_task" where
  "demo_task cs = peer_task_new 0 (SessionId 9) demo_peer
     (set_links [demo_peer \<mapsto> (demo_link \<lparr> width = 3840, height = 2160 \<rparr>) \<lparr> link_commands := cs \<rparr>]
       (demo_desk \<lparr> width = 3840, height = 2160 \<rparr>))"

lemma demo_task_fields:
  "pt_session (demo_task cs) = SessionId 9" "pt_machine (demo_task cs) = demo_peer"
  "plinks (pt_shared (demo_task cs)) =
     [demo_peer \<mapsto> (demo_link \<lparr> width = 3840, height = 2160 \<rparr>) \<lparr> link_commands := cs \<rparr>]"
  "pt_datagrams (demo_task cs) = []" "pt_control (demo_task cs) = []" "pt_bulk (demo_task cs) = []"
  "pt_deadline (demo_task cs) = 8" "limiter_ok (pt_limiter (demo_task cs))"
  "rl_last (pt_limiter (demo_task cs)) = 0" "rl_capacity (pt_limiter (demo_task cs)) = 4000"
  "rl_refill (pt_limiter (demo_task cs)) = 2000"
  by (simp_all add: demo_task_def peer_task_new_def HEARTBEAT_TIMEOUT_def limiter_new_def limiter_ok_def
      BURST_def EVENTS_PER_SECOND_def)


section \<open>What comes in\<close>

text \<open>Nothing that claims another session has any effect on the machine: a foreign input event is
  neither injected nor charged to the rate limiter, and foreign cursor messages neither take control
  nor move a cursor.  They only count as a sign of life.\<close>
theorem foreign_session_is_inert:
  assumes "claimed \<noteq> pt_session t"
    and "ev = DatagramIn (Datagram (Input claimed e)) \<or>
      ev = ControlIn (ControlGot (Control (CursorWarp claimed x y))) \<or>
      ev = ControlIn (ControlGot (Control (CursorReturned claimed x y)))"
  shows "peer_step bits w now ev t = (False, alive_at now t) \<and>
    pt_shared (alive_at now t) = pt_shared t \<and> pt_limiter (alive_at now t) = pt_limiter t"
  using assms by (auto simp: on_datagram_def on_control_def)

lemma foreign_session_is_inert_witness:
  "fst (peer_step 64 mock_write 1 (DatagramIn (Datagram (Input (SessionId 8) (Pointer 1 1)))) (demo_task [])) = False"
  using foreign_session_is_inert [of "SessionId 8" "demo_task []"
      "DatagramIn (Datagram (Input (SessionId 8) (Pointer 1 1)))" "Pointer 1 1" 0 0 64 mock_write 1]
  by (simp add: demo_task_fields)

text \<open>The input events this machine was told to inject so far.\<close>
definition injected :: "'p shared \<Rightarrow> nat" where
  "injected sh = (case sh_sink sh of None \<Rightarrow> 0
     | Some cs \<Rightarrow> length (filter (\<lambda>c. case c of SinkInject _ \<Rightarrow> True | SinkWarp _ _ \<Rightarrow> False) cs))"

lemma injected_simps [simp]:
  "injected (warp x y sh) = injected sh"
  "injected (inject ev sh) \<le> Suc (injected sh)"
  "injected (set_links ls sh) = injected sh"
  "injected (yield_control_to_peer sh) = injected sh"
  "injected (follow_peer_cursor p x y sh) = injected sh"
  "injected (sh \<lparr> sh_clipboard := c \<rparr>) = injected sh"
  by (auto simp: injected_def warp_def inject_def call_sink_def yield_control_to_peer_def
      follow_peer_cursor_def Let_def case_prod_beta split: option.split sum.split)

lemma peer_step_spends:
  assumes "limiter_ok (pt_limiter t)" "rl_last (pt_limiter t) \<le> now"
    and "peer_step bits w now ev t = (leave, t')"
  shows "real (injected (pt_shared t')) + rl_tokens (pt_limiter t') \<le>
      real (injected (pt_shared t)) + rl_tokens (pt_limiter t) +
        (now - rl_last (pt_limiter t)) * rl_refill (pt_limiter t) -
        (now - rl_last (pt_limiter t')) * rl_refill (pt_limiter t) \<and>
    limiter_ok (pt_limiter t') \<and> rl_last (pt_limiter t') \<le> now \<and>
    rl_refill (pt_limiter t') = rl_refill (pt_limiter t)"
proof (cases "\<exists>e. ev = DatagramIn (Datagram (Input (pt_session t) e))")
  case True
  then obtain e where ev: "ev = DatagramIn (Datagram (Input (pt_session t) e))" by blast
  obtain ok l where l: "allow_at now (pt_limiter t) = (ok, l)" by (cases "allow_at now (pt_limiter t)")
  note sp = allow_at_spends [OF assms(1,2) l] limiter_ok_allow [OF assms(1), of now]
  have "pt_limiter t' = l" "injected (pt_shared t') \<le> injected (pt_shared t) + (if ok then 1 else 0)"
    using assms(3) ev l by (auto simp: on_datagram_def Let_def split: if_splits)
  then show ?thesis using sp l by (auto split: if_splits)
next
  case False
  have "pt_limiter t' = pt_limiter t \<and> injected (pt_shared t') = injected (pt_shared t)"
  proof (cases ev)
    case (CommandsReady ok)
    then have "on_commands ok t = (leave, t')" using assms(3) by simp
    moreover have "pt_limiter (snd (on_commands ok t)) = pt_limiter t \<and>
        injected (pt_shared (snd (on_commands ok t))) = injected (pt_shared t)"
      by (simp add: on_commands_def split: option.split)
    ultimately show ?thesis by simp
  next
    case (DatagramIn r)
    then show ?thesis using False assms(3)
      by (cases r; cases "case r of Datagram m \<Rightarrow> m") (auto simp: on_datagram_def Let_def split: if_splits)
  next
    case (ControlIn r)
    then show ?thesis using assms(3)
      by (auto simp: on_control_def Let_def split: control_result.splits wire_message.splits
          control_message.splits if_splits)
  next
    case (BulkIn r)
    then show ?thesis using assms(3)
      by (auto simp: on_bulk_def split: option.splits wire_message.splits)
  next
    case (HeartbeatTick ok)
    then show ?thesis using assms(3) by (auto simp: on_heartbeat_def split: if_splits)
  next
    case LivenessCheck
    then show ?thesis using assms(3) by (auto simp: on_liveness_def)
  qed
  then show ?thesis using assms(1,2) by simp
qed

lemma peer_run_spends:
  assumes "limiter_ok (pt_limiter t)" "sorted (rl_last (pt_limiter t) # map fst evs)"
  shows "real (injected (pt_shared (snd (peer_run bits w evs t)))) +
      rl_tokens (pt_limiter (snd (peer_run bits w evs t))) \<le>
      real (injected (pt_shared t)) + rl_tokens (pt_limiter t) +
      (last (rl_last (pt_limiter t) # map fst evs) - rl_last (pt_limiter t)) * rl_refill (pt_limiter t) \<and>
    limiter_ok (pt_limiter (snd (peer_run bits w evs t)))"
  using assms
proof (induction evs arbitrary: t)
  case Nil
  then show ?case by simp
next
  case (Cons e evs)
  obtain now ev where e: "e = (now, ev)" by (cases e)
  obtain leave t1 where t1: "peer_step bits w now ev t = (leave, t1)" by (cases "peer_step bits w now ev t")
  have le: "rl_last (pt_limiter t) \<le> now" "\<And>x. x \<in> set (map fst evs) \<Longrightarrow> now \<le> x"
    using Cons.prems(2) e by auto
  note sp = peer_step_spends [OF Cons.prems(1) le(1) t1]
  define T where "T = last (now # map fst evs)"
  have T: "now \<le> T" "last (rl_last (pt_limiter t) # map fst (e # evs)) = T"
    using le(2) [OF last_in_set] by (cases "evs = []"; simp add: T_def e)+
  have nonneg: "0 \<le> rl_refill (pt_limiter t)" using Cons.prems(1) by (simp add: limiter_ok_def)
  show ?case
  proof (cases leave)
    case True
    have "(now - rl_last (pt_limiter t)) * rl_refill (pt_limiter t) -
        (now - rl_last (pt_limiter t1)) * rl_refill (pt_limiter t) \<le>
        (T - rl_last (pt_limiter t)) * rl_refill (pt_limiter t)"
    proof -
      have "0 \<le> (now - rl_last (pt_limiter t1)) * rl_refill (pt_limiter t)"
        using sp nonneg by simp
      moreover have "(now - rl_last (pt_limiter t)) * rl_refill (pt_limiter t) \<le>
          (T - rl_last (pt_limiter t)) * rl_refill (pt_limiter t)"
        using T(1) nonneg by (intro mult_right_mono) simp_all
      ultimately show ?thesis by linarith
    qed
    then show ?thesis unfolding T(2) using True e t1 sp by simp
  next
    case False
    have s1: "sorted (rl_last (pt_limiter t1) # map fst evs)"
    proof -
      have "rl_last (pt_limiter t1) \<le> x" if "x \<in> set (map fst evs)" for x
        using le(2) [OF that] sp by linarith
      then show ?thesis using Cons.prems(2) by simp
    qed
    have "last (rl_last (pt_limiter t1) # map fst evs) \<le> T"
      using sp by (cases evs) (simp_all add: T_def)
    then have "(last (rl_last (pt_limiter t1) # map fst evs) - rl_last (pt_limiter t1)) * rl_refill (pt_limiter t)
        \<le> (T - rl_last (pt_limiter t1)) * rl_refill (pt_limiter t)"
      using nonneg by (intro mult_right_mono) simp_all
    moreover have "(now - rl_last (pt_limiter t)) * rl_refill (pt_limiter t) -
        (now - rl_last (pt_limiter t1)) * rl_refill (pt_limiter t) +
        (T - rl_last (pt_limiter t1)) * rl_refill (pt_limiter t) =
        (T - rl_last (pt_limiter t)) * rl_refill (pt_limiter t)"
      by (simp add: algebra_simps)
    ultimately show ?thesis
      unfolding T(2) using Cons.IH [of t1] s1 sp False e t1 by simp
  qed
qed

text \<open>C12. However fast and in whatever order a peer sends, over any stretch of its session this machine
  injects at most a burst of events plus the sustained rate times the time that passed; hand-over
  and clipboard messages in between do not change that.\<close>
theorem peer_cannot_flood:
  assumes "limiter_ok (pt_limiter t)" "sorted (rl_last (pt_limiter t) # map fst evs)"
  shows "real (injected (pt_shared (snd (peer_run bits w evs t)))) - real (injected (pt_shared t)) \<le>
    rl_capacity (pt_limiter t) +
    (last (rl_last (pt_limiter t) # map fst evs) - rl_last (pt_limiter t)) * rl_refill (pt_limiter t)"
  using peer_run_spends [OF assms, of bits w] assms(1) by (auto simp: limiter_ok_def)

lemma peer_cannot_flood_witness:
  "real (injected (pt_shared (snd (peer_run 64 mock_write
     [(0, DatagramIn (Datagram (Input (SessionId 9) (Pointer 1 1)))), (1 / 2, LivenessCheck)] (demo_task []))))) -
   real (injected (pt_shared (demo_task []))) \<le> 5000"
  using peer_cannot_flood [of "demo_task []" "[(0, DatagramIn (Datagram (Input (SessionId 9) (Pointer 1 1)))),
      (1 / 2, LivenessCheck)]" 64 mock_write]
  by (simp add: demo_task_fields)

section \<open>Liveness\<close>

text \<open>What counts as word from the peer.\<close>
fun inbound :: "peer_event \<Rightarrow> bool" where
  "inbound (DatagramIn r) = True"
| "inbound (ControlIn r) = True"
| "inbound (BulkIn (Some (Clipboard d))) = True"
| "inbound _ = False"

lemma peer_step_deadline:
  assumes "peer_step bits w now ev t = (leave, t')"
  shows "pt_deadline t' = (if inbound ev then now + HEARTBEAT_TIMEOUT else pt_deadline t)"
proof (cases ev)
  case (CommandsReady ok)
  have "pt_deadline (snd (on_commands ok t)) = pt_deadline t"
    by (simp add: on_commands_def split: option.split)
  then show ?thesis using CommandsReady assms by simp
next
  case (DatagramIn r)
  then show ?thesis using assms
    by (auto simp: on_datagram_def Let_def case_prod_beta split: datagram_result.splits wire_message.splits if_splits)
next
  case (ControlIn r)
  then show ?thesis using assms
    by (auto simp: on_control_def Let_def split: control_result.splits wire_message.splits
        control_message.splits if_splits)
next
  case (BulkIn r)
  then show ?thesis using assms
    by (auto simp: on_bulk_def split: option.splits wire_message.splits)
next
  case (HeartbeatTick ok)
  then show ?thesis using assms by (auto simp: on_heartbeat_def split: if_splits)
next
  case LivenessCheck
  then show ?thesis using assms by (auto simp: on_liveness_def)
qed

lemma peer_run_deadline:
  "pt_deadline (snd (peer_run bits w evs t)) = pt_deadline t \<or>
   (\<exists>(now, ev)\<in>set evs. inbound ev \<and> pt_deadline (snd (peer_run bits w evs t)) = now + HEARTBEAT_TIMEOUT)"
proof (induction evs arbitrary: t)
  case Nil
  then show ?case by simp
next
  case (Cons e evs)
  obtain now ev where e: "e = (now, ev)" by (cases e)
  obtain leave t1 where t1: "peer_step bits w now ev t = (leave, t1)" by (cases "peer_step bits w now ev t")
  then show ?case
    using Cons.IH [of t1] peer_step_deadline [OF t1] e by (auto split: if_splits)
qed

text \<open>C27. A peer that has gone silent is dropped: if the timer's check at the end of a run does not end
  the session, then some word from the peer arrived within the last eight seconds, or the task is
  younger than that.  What this side sends, heartbeats included, does not keep a session alive.\<close>
theorem silent_peer_is_dropped:
  assumes "peer_run bits w (evs @ [(now, LivenessCheck)]) (peer_task_new t0 sid m sh) = (False, t')"
  shows "now < t0 + HEARTBEAT_TIMEOUT \<or>
    (\<exists>(when, ev)\<in>set evs. inbound ev \<and> now < when + HEARTBEAT_TIMEOUT)"
proof -
  have "peer_run bits w (es @ [(now, LivenessCheck)]) t = (False, t'') \<Longrightarrow>
      now < pt_deadline (snd (peer_run bits w es t))" for es t t''
  proof (induction es arbitrary: t)
    case Nil
    then show ?case by (auto simp: on_liveness_def split: if_splits)
  next
    case (Cons e es)
    then show ?case by (cases e) (auto simp: case_prod_beta Let_def split: if_splits)
  qed
  from this [OF assms] peer_run_deadline [of bits w evs "peer_task_new t0 sid m sh"]
  show ?thesis by (auto simp: peer_task_new_def)
qed

lemma silent_peer_is_dropped_witness:
  "\<exists>(when, ev)\<in>set [(5, ControlIn (ControlGot (Control (Heartbeat (SessionId 9)))))].
     inbound ev \<and> (12 :: real) < when + HEARTBEAT_TIMEOUT"
proof -
  have "peer_run 64 mock_write ([(5, ControlIn (ControlGot (Control (Heartbeat (SessionId 9)))))] @
      [(12, LivenessCheck)]) (peer_task_new 0 (SessionId 9) demo_peer demo_home) =
    (False, alive_at 5 (peer_task_new 0 (SessionId 9) demo_peer demo_home))"
    by (simp add: on_control_def on_liveness_def HEARTBEAT_TIMEOUT_def)
  from silent_peer_is_dropped [OF this] show ?thesis by (simp add: HEARTBEAT_TIMEOUT_def)
qed

section \<open>The task keeps the daemon's invariants\<close>

lemma daemon_inv_set_commands:
  assumes "daemon_inv sh" "plinks sh m = Some lk"
  shows "daemon_inv (set_links ((plinks sh)(m \<mapsto> lk \<lparr> link_commands := cs \<rparr>)) sh)"
proof -
  have "known_screens (set_links ((plinks sh)(m \<mapsto> lk \<lparr> link_commands := cs \<rparr>)) sh) = known_screens sh"
    using assms(2) by (simp add: known_screens_def fun_eq_iff)
  moreover have "holder (set_links ls sh) = holder sh" for ls
    by (simp add: holder_def split: active_target.split)
  ultimately show ?thesis using assms by (simp add: daemon_inv_def)
qed

lemma layout_current_set_commands:
  assumes "layout_current sh" "plinks sh m = Some lk"
  shows "layout_current (set_links ((plinks sh)(m \<mapsto> lk \<lparr> link_commands := cs \<rparr>)) sh)"
  by (rule layout_current_cong [OF assms(1)]) (use assms(2) in simp_all)

definition daemon_ok :: "'p shared \<Rightarrow> bool" where
  "daemon_ok sh \<longleftrightarrow> daemon_inv sh \<and> layout_current sh"

lemma peer_step_ok [inv_intros]:
  assumes "daemon_ok (pt_shared t)" "peer_step bits w now ev t = (leave, t')"
  shows "daemon_ok (pt_shared t')"
proof (cases ev)
  case (CommandsReady ok)
  have "daemon_ok (pt_shared (snd (on_commands ok t)))"
    using assms(1) unfolding daemon_ok_def
    by (simp add: on_commands_def daemon_inv_set_commands layout_current_set_commands split: option.split)
  then show ?thesis using CommandsReady assms(2) by simp
next
  case (DatagramIn r)
  then show ?thesis using assms unfolding daemon_ok_def
    by (auto simp: on_datagram_def Let_def case_prod_beta inject_def daemon_inv_call_sink
        split: datagram_result.splits wire_message.splits if_splits)
next
  case (ControlIn r)
  then show ?thesis using assms unfolding daemon_ok_def
    by (auto simp: on_control_def Let_def warp_def daemon_inv_call_sink layout_current_yield
        layout_current_follow daemon_inv_yield daemon_inv_follow
        split: control_result.splits wire_message.splits control_message.splits if_splits)
next
  case (BulkIn r)
  have "daemon_inv (sh \<lparr> sh_clipboard := c \<rparr>) = daemon_inv sh" for sh :: "'a shared" and c
    by (simp add: daemon_inv_def holder_def known_screens_def fun_eq_iff split: active_target.split)
  moreover have "layout_current (sh \<lparr> sh_clipboard := c \<rparr>) = layout_current sh" for sh :: "'a shared" and c
    by (simp add: layout_current_def)
  ultimately show ?thesis using BulkIn assms unfolding daemon_ok_def
    by (auto simp: on_bulk_def split: option.splits wire_message.splits)
next
  case (HeartbeatTick ok)
  then show ?thesis using assms by (auto simp: on_heartbeat_def split: if_splits)
next
  case LivenessCheck
  then show ?thesis using assms by (auto simp: on_liveness_def)
qed

end
