(* ===== verification/Connect.thy ===== *)
theory Connect
  imports PeerTask
begin

text \<open>
  How a session comes about in \<^verbatim>\<open>crates/omni-runtime/src/daemon.rs\<close>: \<^verbatim>\<open>handle_incoming\<close> for a peer
  that dials this machine, \<^verbatim>\<open>do_connect\<close> for a peer this machine dials.  Each handler is cut where
  it waits: other tasks run there, so what follows works on the shared state of that later moment.
  What the network answered is an argument.
\<close>

section \<open>The host argument\<close>

definition rsplit_once :: "char \<Rightarrow> string \<Rightarrow> (string \<times> string) option" where
  "rsplit_once c s = (if c \<in> set s
     then Some (rev (tl (dropWhile (\<lambda>x. x \<noteq> c) (rev s))), rev (takeWhile (\<lambda>x. x \<noteq> c) (rev s)))
     else None)"

fun digits_value :: "nat \<Rightarrow> string \<Rightarrow> nat option" where
  "digits_value acc [] = Some acc"
| "digits_value acc (c # cs) = (let n = of_char c :: nat in
     if 48 \<le> n \<and> n \<le> 57 then digits_value (10 * acc + (n - 48)) cs else None)"

text \<open>\<^verbatim>\<open>str::parse::<u16>\<close>: decimal digits after an optional plus sign, in range.\<close>
definition parse_u16 :: "string \<Rightarrow> u16 option" where
  "parse_u16 s = (let ds = (case s of c # cs \<Rightarrow> if c = CHR ''+'' then cs else s | [] \<Rightarrow> []) in
     if ds = [] then None
     else case digits_value 0 ds of
       Some n \<Rightarrow> if n < 65536 then Some (of_nat n) else None
     | None \<Rightarrow> None)"

definition split_host :: "string \<Rightarrow> u16 \<Rightarrow> string \<times> u16" where
  "split_host host_arg port = (case rsplit_once CHR '':'' host_arg of
      Some (h, p) \<Rightarrow>
        if CHR '':'' \<notin> set h then (case parse_u16 p of Some n \<Rightarrow> (h, n) | None \<Rightarrow> (host_arg, port))
        else (host_arg, port)
    | None \<Rightarrow> (host_arg, port))"

text \<open>\<^verbatim>\<open>tokio::net::lookup_host\<close> is the argument \<open>lookup\<close>.\<close>
definition resolve_host ::
  "(string \<Rightarrow> u16 \<Rightarrow> string + 'a list) \<Rightarrow> string \<Rightarrow> u16 \<Rightarrow> string + (string \<times> 'a)" where
  "resolve_host lookup host_arg dport =
     (let (host, port) = split_host host_arg dport in
      case lookup host port of
        Inl e \<Rightarrow> Inl (''could not resolve '' @ host @ '': '' @ e)
      | Inr [] \<Rightarrow> Inl (''no address for '' @ host)
      | Inr (a # _) \<Rightarrow> Inr (host, a))"

definition connect_error :: "string \<Rightarrow> string \<Rightarrow> string \<Rightarrow> string" where
  "connect_error host_arg host detail =
     (let base = ''could not connect to '' @ host_arg @ '': '' @ detail in
      if sublist ''certificate'' detail \<or> sublist ''handshake'' detail
      then base @ ''\<newline>hint: if '' @ host @ '' was reinstalled or its identity reset, its certificate '' @
        ''changed; run `omni peers remove '' @ host @ ''` here, then connect again to trust '' @
        ''the new one''
      else base)"

section \<open>Dialling a peer\<close>

datatype dial_reply = ReplyTimedOut | ReplyFailed string | ReplyGot "wire_message option"

text \<open>What the network does with one dial.  An error is its text.\<close>
record 'a dial =
  dial_lookup :: "string \<Rightarrow> u16 \<Rightarrow> string + 'a list"
  dial_connect :: "'a \<Rightarrow> string \<Rightarrow> string + fingerprint"
  dial_open :: "string option"
  dial_send :: "string option"
  dial_reply :: dial_reply
  dial_save :: "trust_error option"
  dial_save_text :: string

fun reject_text :: "reject_reason \<Rightarrow> string" where
  "reject_text Declined = ''the peer declined the request''"
| "reject_text Busy = ''the peer is busy with another session''"
| "reject_text NotAllowedReason = ''the peer does not allow this machine''"
| "reject_text FingerprintChanged =
     ''the peer rejected this machine's certificate (fingerprint changed)''"

definition screen_size_of :: "screen \<Rightarrow> screen_size" where
  "screen_size_of s = \<lparr> screen_width = width s, screen_height = height s \<rparr>"

definition screen_of_size :: "screen_size \<Rightarrow> screen" where
  "screen_of_size s = \<lparr> width = screen_width s, height = screen_height s \<rparr>"

definition connect_request :: "'p shared \<Rightarrow> wire_message" where
  "connect_request sh = Control (ConnectRequest (sh_local_machine sh) (sh_local_fingerprint sh)
     (screen_size_of (sh_local_screen sh)))"

text \<open>The answer to the request: the session and the screen it names, or the error text.\<close>
definition read_reply :: "dial_reply \<Rightarrow> string + (session_id \<times> screen_size)" where
  "read_reply r = (case r of
      ReplyTimedOut \<Rightarrow> Inl ''timed out waiting for the peer to accept''
    | ReplyFailed e \<Rightarrow> Inl (''connection failed while waiting: '' @ e)
    | ReplyGot (Some (Control (Accept sid m scr))) \<Rightarrow> Inr (sid, scr)
    | ReplyGot (Some (Control (Reject reason))) \<Rightarrow> Inl (reject_text reason)
    | ReplyGot _ \<Rightarrow> Inl ''the peer closed the connection without answering'')"

text \<open>\<open>do_connect\<close> up to the wait for the answer: the certificate the peer showed, or the error text,
  and what was sent.  Only fields of the shared state that never change are read.\<close>
definition dial_request :: "'a dial \<Rightarrow> string \<Rightarrow> 'p shared \<Rightarrow>
   (string + (string \<times> fingerprint)) \<times> wire_message list" where
  "dial_request d host_arg sh =
     (case resolve_host (dial_lookup d) host_arg (sh_port sh) of
        Inl e \<Rightarrow> (Inl e, [])
      | Inr (host, addr) \<Rightarrow>
          (case dial_connect d addr host of
             Inl e \<Rightarrow> (Inl (connect_error host_arg host e), [])
           | Inr f \<Rightarrow>
               (case dial_open d of
                  Some e \<Rightarrow> (Inl (''control stream failed: '' @ e), [])
                | None \<Rightarrow>
                    (case dial_send d of
                       Some e \<Rightarrow> (Inl (''could not send connect request: '' @ e), [])
                     | None \<Rightarrow> (Inr (host, f), [connect_request sh])))))"

fun decimal :: "nat \<Rightarrow> string" where
  "decimal n = (if n < 10 then [char_of (48 + n)] else decimal (n div 10) @ [char_of (48 + n mod 10)])"

declare decimal.simps [simp del]

fun session_error_text :: "session_error \<Rightarrow> string" where
  "session_error_text (DuplicateSession sid) = ''duplicate session '' @ decimal (unat (session_value sid))"
| "session_error_text (PeerAlreadyConnected p) = ''peer '' @ decimal (unat (machine_value p)) @ '' already connected''"
| "session_error_text (UnknownSession sid) = ''unknown session '' @ decimal (unat (session_value sid))"
| "session_error_text (NoSessionForPeer p) = ''no session for peer '' @ decimal (unat (machine_value p))"

text \<open>The rest, once the answer is there: pin the certificate, then establish the session and start
  its task, named by the session and the peer.\<close>
definition dial_finish ::
  "machine_id list \<Rightarrow> 'a dial \<Rightarrow> string \<Rightarrow> fingerprint \<Rightarrow> 'p shared \<Rightarrow>
   (string + (session_id \<times> machine_id)) \<times> 'p shared" where
  "dial_finish ord d host f sh =
     (case read_reply (dial_reply d) of
        Inl e \<Rightarrow> (Inl e, sh)
      | Inr (sid, scr) \<Rightarrow>
          (case trust_accept (dial_save d) f (Some host) (sh_trust sh) of
             (Inl _, st) \<Rightarrow> (Inl (''could not persist trust: '' @ dial_save_text d), sh \<lparr> sh_trust := st \<rparr>)
           | (Inr _, st) \<Rightarrow>
               let sh = sh \<lparr> sh_trust := st \<rparr> in
               (case establish_peer ord Controller RightEdge host f sid (screen_of_size scr) sh of
                  Inl e \<Rightarrow> (Inl (''cannot establish session: '' @ session_error_text e), sh)
                | Inr sh \<Rightarrow> (Inr (sid, machine_id_of f), notify_change sh))))"

section \<open>Being dialled\<close>

text \<open>The first message of an inbound connection must be a connect request.\<close>
definition read_request :: "dial_reply \<Rightarrow> screen_size option" where
  "read_request r = (case r of
      ReplyGot (Some (Control (ConnectRequest m f scr))) \<Rightarrow> Some scr
    | _ \<Rightarrow> None)"

text \<open>An unknown certificate waits for the user; \<open>k\<close> names the channel of the decision.\<close>
definition incoming_request :: "nat \<Rightarrow> string \<Rightarrow> fingerprint \<Rightarrow> 'p shared \<Rightarrow> bool \<times> 'p shared" where
  "incoming_request k host f sh =
     (if is_trusted (sh_trust sh) f then (True, sh)
      else (False, notify_change (sh \<lparr> sh_state := (sh_state sh) \<lparr> ds_pending :=
        ds_pending (sh_state sh) @ [\<lparr> pending_host = host, pending_fingerprint = f, pending_decision = k \<rparr>] \<rparr> \<rparr>)))"

text \<open>After the wait: \<open>approved\<close> is whether the user's yes arrived in time.\<close>
definition incoming_decision ::
  "bool \<Rightarrow> trust_error option \<Rightarrow> string \<Rightarrow> fingerprint \<Rightarrow> 'p shared \<Rightarrow> bool \<times> 'p shared" where
  "incoming_decision approved io host f sh =
     (let sh = notify_change (sh \<lparr> sh_state := (sh_state sh) \<lparr> ds_pending :=
          filter (\<lambda>p. pending_fingerprint p \<noteq> f) (ds_pending (sh_state sh)) \<rparr> \<rparr>)
      in if \<not> approved then (False, sh)
         else (True, sh \<lparr> sh_trust := snd (trust_accept io f (Some host) (sh_trust sh)) \<rparr>))"

datatype incoming_outcome =
    Refused reject_reason
  | AcceptNotSent
  | Serving session_id machine_id

text \<open>The session is established and accepted; \<open>delivered\<close> is whether the acceptance could be sent.\<close>
definition incoming_establish ::
  "machine_id list \<Rightarrow> machine_id list \<Rightarrow> bool \<Rightarrow> string \<Rightarrow> fingerprint \<Rightarrow> session_id \<Rightarrow> screen_size \<Rightarrow> 'p shared \<Rightarrow>
   incoming_outcome \<times> wire_message list \<times> 'p shared" where
  "incoming_establish ord ord' delivered host f sid scr sh =
     (case establish_peer ord Target LeftEdge host f sid (screen_of_size scr) sh of
        Inl e \<Rightarrow> (Refused Busy, [Control (Reject Busy)], sh)
      | Inr sh \<Rightarrow>
          let sh = notify_change sh in
          if delivered then (Serving sid (machine_id_of f),
            [Control (Accept sid (sh_local_machine sh) (screen_size_of (sh_local_screen sh)))], sh)
          else (AcceptNotSent, [], cleanup_peer ord' (machine_id_of f) sh))"

text \<open>The handler from the user's decision on.\<close>
definition incoming_resume ::
  "machine_id list \<Rightarrow> machine_id list \<Rightarrow> bool \<Rightarrow> trust_error option \<Rightarrow> bool \<Rightarrow> string \<Rightarrow> fingerprint \<Rightarrow>
   session_id \<Rightarrow> screen_size \<Rightarrow> 'p shared \<Rightarrow> incoming_outcome \<times> wire_message list \<times> 'p shared" where
  "incoming_resume ord ord' approved io delivered host f sid scr sh =
     (case incoming_decision approved io host f sh of
        (False, sh) \<Rightarrow> (Refused Declined, [Control (Reject Declined)], sh)
      | (True, sh) \<Rightarrow> incoming_establish ord ord' delivered host f sid scr sh)"

section \<open>Reading the host argument\<close>

lemma rsplit_once_last: "c \<notin> set y \<Longrightarrow> rsplit_once c (x @ c # y) = Some (x, y)"
proof -
  assume c: "c \<notin> set y"
  have "takeWhile (\<lambda>x. x \<noteq> c) (rev y @ c # rev x) = rev y"
    using c by (subst takeWhile_append2) auto
  moreover have "dropWhile (\<lambda>x. x \<noteq> c) (rev y @ c # rev x) = c # rev x"
    using c by (subst dropWhile_append2) auto
  ultimately show ?thesis by (simp add: rsplit_once_def)
qed

lemma digits_value_append:
  "digits_value acc (xs @ ys) = Option.bind (digits_value acc xs) (\<lambda>a. digits_value a ys)"
  by (induction acc xs rule: digits_value.induct) (simp_all add: Let_def)

definition is_digit :: "char \<Rightarrow> bool" where
  "is_digit c \<longleftrightarrow> 48 \<le> (of_char c :: nat) \<and> (of_char c :: nat) \<le> 57"

lemma of_char_digit: "n < 10 \<Longrightarrow> of_char (char_of (48 + n) :: char) = (48 + n :: nat)"
  by (simp add: of_char_mod_256)

lemma decimal_digits: "decimal n \<noteq> [] \<and> (\<forall>c\<in>set (decimal n). is_digit c)"
proof (induction n rule: decimal.induct)
  case (1 n)
  show ?case
  proof (cases "n < 10")
    case True
    then have "decimal n = [char_of (48 + n)]" by (subst decimal.simps) simp
    then show ?thesis using True by (simp add: is_digit_def of_char_digit)
  next
    case False
    then have "decimal n = decimal (n div 10) @ [char_of (48 + n mod 10)]" by (subst decimal.simps) simp
    moreover have "is_digit (char_of (48 + n mod 10))" by (simp add: is_digit_def of_char_digit)
    ultimately show ?thesis using 1 [OF False] by auto
  qed
qed

lemma digits_value_decimal: "digits_value 0 (decimal n) = Some n"
proof (induction n rule: decimal.induct)
  case (1 n)
  show ?case
  proof (cases "n < 10")
    case True
    then show ?thesis by (subst decimal.simps) (simp add: of_char_digit)
  next
    case False
    then have "digits_value 0 (decimal (n div 10)) = Some (n div 10)" by (rule 1)
    then have "digits_value 0 (decimal n) = Some (10 * (n div 10) + n mod 10)"
      using False by (subst decimal.simps) (simp add: digits_value_append of_char_digit)
    then show ?thesis by simp
  qed
qed

lemma parse_u16_decimal: "n < 65536 \<Longrightarrow> parse_u16 (decimal n) = Some (of_nat n)"
proof -
  assume n: "n < 65536"
  obtain c cs where cs: "decimal n = c # cs" "is_digit c"
    using decimal_digits [of n] by (cases "decimal n") auto
  have "c \<noteq> CHR ''+''" using cs(2) by (auto simp: is_digit_def)
  then show ?thesis using n cs(1) digits_value_decimal [of n] by (simp add: parse_u16_def)
qed

text \<open>C0. A host argument is read as the user means it: \<^verbatim>\<open>name:port\<close> gives that name and any decimal
  port, a name without a colon the default port, and anything with two colons, such as an IPv6
  literal, is the host as a whole.\<close>
theorem host_argument_splits:
  assumes "CHR '':'' \<notin> set h" "n < 65536"
  shows "split_host (h @ '':'' @ decimal n) p = (h, of_nat n) \<and> split_host h p = (h, p) \<and>
    (\<forall>a b. CHR '':'' \<in> set b \<longrightarrow> split_host (a @ '':'' @ b) p = (a @ '':'' @ b, p))"
proof (intro conjI allI impI)
  have "CHR '':'' \<notin> set (decimal n)" using decimal_digits [of n] by (auto simp: is_digit_def)
  then show "split_host (h @ '':'' @ decimal n) p = (h, of_nat n)"
    using assms by (simp add: split_host_def rsplit_once_last parse_u16_decimal)
  show "split_host h p = (h, p)" using assms(1) by (simp add: split_host_def rsplit_once_def)
next
  fix a b :: string
  assume "CHR '':'' \<in> set b"
  then obtain x y where "b = x @ CHR '':'' # y" "CHR '':'' \<notin> set y"
    by (metis split_list_last)
  then have "rsplit_once CHR '':'' (a @ '':'' @ b) = Some (a @ '':'' @ x, y)"
    using rsplit_once_last [of "CHR '':''" y "a @ '':'' @ x"] by simp
  then show "split_host (a @ '':'' @ b) p = (a @ '':'' @ b, p)" by (simp add: split_host_def)
qed

lemma host_argument_splits_witness: "split_host ''10.0.0.2:4733'' 9 = (''10.0.0.2'', 4733)"
proof -
  have d: "decimal 4733 = ''4733''" by (simp add: decimal.simps, code_simp)
  have "split_host (''10.0.0.2'' @ '':'' @ decimal 4733) 9 = (''10.0.0.2'', of_nat 4733)"
    by (rule host_argument_splits [THEN conjunct1]) simp_all
  then show ?thesis unfolding d by simp
qed

section \<open>Who gets a session\<close>

lemma trust_fields [simp]:
  "sh_state (sh \<lparr> sh_trust := st \<rparr>) = sh_state sh" by simp

lemma daemon_ok_trust [simp]: "daemon_ok (sh \<lparr> sh_trust := st \<rparr>) = daemon_ok sh"
  by (simp add: daemon_ok_def daemon_inv_def layout_current_def holder_def known_screens_def fun_eq_iff
      split: active_target.split)

lemma daemon_ok_pending [simp]:
  "daemon_ok (sh \<lparr> sh_state := (sh_state sh) \<lparr> ds_pending := ps \<rparr> \<rparr>) = daemon_ok sh"
  by (simp add: daemon_ok_def daemon_inv_def layout_current_def holder_def known_screens_def fun_eq_iff
      split: active_target.split)

lemma daemon_ok_notify [simp]: "daemon_ok (notify_change sh) = daemon_ok sh"
  by (simp add: daemon_ok_def daemon_inv_notify layout_current_def)

lemma daemon_ok_establish [inv_intros]:
  assumes "daemon_ok sh" "establish_peer ord r de host f sid scr sh = Inr sh'"
    and "distinct ord" "set ord = insert (machine_id_of f) (dom (plinks sh))"
  shows "daemon_ok sh'"
  using assms daemon_inv_establish layout_current_establish unfolding daemon_ok_def by blast

lemma daemon_ok_cleanup [inv_intros]:
  "daemon_ok sh \<Longrightarrow> iterates ord ((plinks sh)(m := None)) \<Longrightarrow> daemon_ok (cleanup_peer ord m sh)"
  by (simp add: daemon_ok_def daemon_inv_cleanup layout_current_cleanup)

lemma establish_peer_plinks:
  assumes "establish_peer ord r de host f sid scr sh = Inr sh'"
  obtains lk where "plinks sh' = (plinks sh)(machine_id_of f \<mapsto> lk)" "link_session lk = sid"
    "link_screen lk = scr" "link_role lk = r" "link_host lk = host" "link_fingerprint lk = f"
    "link_edge lk = (case ds_placements (sh_state sh) host of Some e \<Rightarrow> e | None \<Rightarrow> de)"
    "sm_by_peer (sessions sh') = (sm_by_peer (sessions sh))(machine_id_of f \<mapsto> sid)"
    "active sh' = active sh" "sh_trust sh' = sh_trust sh"
  by (rule establish_peer_cases [OF assms])
    (auto simp: establish_effect rebuild_layout_def Let_def setters intro: that)

lemma incoming_decision_state [simp]:
  "plinks (snd (incoming_decision b io host f sh)) = plinks sh"
  "sessions (snd (incoming_decision b io host f sh)) = sessions sh"
  "layout (snd (incoming_decision b io host f sh)) = layout sh"
  "cursor (snd (incoming_decision b io host f sh)) = cursor sh"
  "sh_suppress (snd (incoming_decision b io host f sh)) = sh_suppress sh"
  "sh_local_machine (snd (incoming_decision b io host f sh)) = sh_local_machine sh"
  "sh_local_screen (snd (incoming_decision b io host f sh)) = sh_local_screen sh"
  "ds_placements (sh_state (snd (incoming_decision b io host f sh))) = ds_placements (sh_state sh)"
  "fst (incoming_decision b io host f sh) = b"
  by (simp_all add: incoming_decision_def Let_def notify_change_def)

lemma incoming_decision_trust:
  "sh_trust (snd (incoming_decision b io host f sh)) =
     (if b then snd (trust_accept io f (Some host) (sh_trust sh)) else sh_trust sh)"
  by (simp add: incoming_decision_def Let_def notify_change_def)

lemma incoming_resume_eq:
  "incoming_resume ord ord' approved io delivered host f sid scr sh =
     (let sh1 = snd (incoming_decision approved io host f sh) in
      if approved then incoming_establish ord ord' delivered host f sid scr sh1
      else (Refused Declined, [Control (Reject Declined)], sh1))"
proof -
  obtain a sh1 where "incoming_decision approved io host f sh = (a, sh1)"
    by (cases "incoming_decision approved io host f sh")
  moreover from this have "a = approved" using incoming_decision_state(9) [of approved io host f sh] by simp
  ultimately show ?thesis by (cases approved) (simp_all add: incoming_resume_def Let_def)
qed

text \<open>C10. A stranger gets nothing without a person's consent.  A certificate that is not trusted only
  joins the pending list; and unless the yes arrived in time, the request is answered with a
  refusal, no session, link, screen or trust record is created, and control stays where it is.\<close>
theorem no_session_without_consent:
  assumes "\<not> is_trusted (sh_trust sh) f" "incoming_request k host f sh = (proceed, sh1)"
    and "incoming_resume ord ord' False io delivered host f sid scr sh2 = (out, msgs, sh3)"
  shows "\<not> proceed \<and> sessions sh1 = sessions sh \<and> plinks sh1 = plinks sh \<and> sh_trust sh1 = sh_trust sh \<and>
    (\<exists>p\<in>set (ds_pending (sh_state sh1)). pending_fingerprint p = f \<and> pending_decision p = k) \<and>
    out = Refused Declined \<and> msgs = [Control (Reject Declined)] \<and>
    sessions sh3 = sessions sh2 \<and> plinks sh3 = plinks sh2 \<and> layout sh3 = layout sh2 \<and>
    cursor sh3 = cursor sh2 \<and> sh_trust sh3 = sh_trust sh2 \<and> sh_suppress sh3 = sh_suppress sh2 \<and>
    (\<forall>p\<in>set (ds_pending (sh_state sh3)). pending_fingerprint p \<noteq> f)"
proof -
  have "\<not> proceed" "sh1 = notify_change (sh \<lparr> sh_state := (sh_state sh) \<lparr> ds_pending :=
      ds_pending (sh_state sh) @ [\<lparr> pending_host = host, pending_fingerprint = f, pending_decision = k \<rparr>] \<rparr> \<rparr>)"
    using assms(1,2) by (auto simp: incoming_request_def)
  moreover have out: "out = Refused Declined" "msgs = [Control (Reject Declined)]"
      "sh3 = snd (incoming_decision False io host f sh2)"
    using assms(3) by (auto simp: incoming_resume_eq Let_def)
  moreover have "\<forall>p\<in>set (ds_pending (sh_state sh3)). pending_fingerprint p \<noteq> f"
    unfolding out(3) by (simp add: incoming_decision_def Let_def)
  ultimately show ?thesis
    by (simp add: incoming_decision_trust notify_change_def)
qed

lemma no_session_without_consent_witness:
  "fst (incoming_request 7 ''10.0.0.9'' (demo_fingerprint 3) demo_home) = False"
proof -
  have no: "\<not> is_trusted (sh_trust demo_home) (demo_fingerprint 3)"
    by (simp add: demo_home_def daemon_start_def rebuild_layout_def Let_def setters is_trusted_iff
        file_fingerprints_def List.map_filter_simps)
  obtain b sh1 where req: "incoming_request 7 ''10.0.0.9'' (demo_fingerprint 3) demo_home = (b, sh1)"
    by (cases "incoming_request 7 ''10.0.0.9'' (demo_fingerprint 3) demo_home")
  obtain out msgs sh3 where res: "incoming_resume [] [] False None True ''10.0.0.9'' (demo_fingerprint 3)
      (SessionId 4) \<lparr> screen_width = 5, screen_height = 5 \<rparr> demo_home = (out, msgs, sh3)"
    by (cases "incoming_resume [] [] False None True ''10.0.0.9'' (demo_fingerprint 3)
      (SessionId 4) \<lparr> screen_width = 5, screen_height = 5 \<rparr> demo_home")
  show ?thesis using no_session_without_consent [OF no req res] req by simp
qed

text \<open>C18. An approved peer is served: its certificate is remembered for its host, it becomes a linked
  target-role session on the edge configured for the host or else the left one, and it is told this
  machine's identity and screen.  Control does not move.\<close>
theorem approved_peer_is_served:
  assumes "fingerprint_ok f" "sm_sessions (sessions sh) sid = None"
    and "sm_by_peer (sessions sh) (machine_id_of f) = None"
    and "incoming_resume ord ord' True io True host f sid scr sh = (out, msgs, sh')"
  shows "out = Serving sid (machine_id_of f) \<and>
    msgs = [Control (Accept sid (sh_local_machine sh) (screen_size_of (sh_local_screen sh)))] \<and>
    f \<in> set (file_fingerprints (trust_peers (sh_trust sh'))) \<and>
    pinned_for_host (sh_trust sh') host = Some f \<and>
    (\<exists>lk. plinks sh' = (plinks sh)(machine_id_of f \<mapsto> lk) \<and> link_role lk = Target \<and> link_session lk = sid \<and>
       link_screen lk = screen_of_size scr \<and> link_fingerprint lk = f \<and>
       link_edge lk = (case ds_placements (sh_state sh) host of Some e \<Rightarrow> e | None \<Rightarrow> LeftEdge)) \<and>
    active sh' = active sh"
proof -
  define sh1 where "sh1 = snd (incoming_decision True io host f sh)"
  obtain sh2 where sh2: "establish_peer ord Target LeftEdge host f sid (screen_of_size scr) sh1 = Inr sh2"
    using assms(2,3) by (simp add: establish_peer_def establish_def sh1_def Let_def)
  obtain lk where lk: "plinks sh2 = (plinks sh1)(machine_id_of f \<mapsto> lk)" "link_session lk = sid"
    "link_screen lk = screen_of_size scr" "link_role lk = Target" "link_fingerprint lk = f"
    "link_edge lk = (case ds_placements (sh_state sh1) host of Some e \<Rightarrow> e | None \<Rightarrow> LeftEdge)"
    "active sh2 = active sh1" "sh_trust sh2 = sh_trust sh1"
    by (rule establish_peer_plinks [OF sh2])
  have env: "sh_local_machine sh2 = sh_local_machine sh1" "sh_local_screen sh2 = sh_local_screen sh1"
    by (rule establish_peer_cases [OF sh2], simp)+
  have out: "out = Serving sid (machine_id_of f)" "sh' = notify_change sh2"
    "msgs = [Control (Accept sid (sh_local_machine sh2) (screen_size_of (sh_local_screen sh2)))]"
    using assms(4) sh2 by (auto simp: incoming_resume_eq incoming_establish_def sh1_def [symmetric] Let_def)
  have tr: "sh_trust sh' = snd (trust_accept io f (Some host) (sh_trust sh))"
    unfolding out(2) using lk(8) by (simp add: notify_change_def sh1_def incoming_decision_trust)
  have pin: "pinned_for_host (sh_trust sh') host = Some f"
    unfolding tr by (rule pinned_after_accept [OF assms(1)])
  have mem: "f \<in> set (file_fingerprints (trust_peers (sh_trust sh')))"
    unfolding tr using fingerprints_after_accept(1) [OF assms(1)] by simp
  have "plinks sh' = (plinks sh)(machine_id_of f \<mapsto> lk)" using out(2) lk(1) by (simp add: sh1_def)
  then show ?thesis using out(1,3) env pin mem lk by (auto simp: sh1_def out(2))
qed

lemma approved_peer_is_served_witness:
  "\<exists>msgs sh'. incoming_resume [demo_peer] [] True None True ''10.0.0.9'' (demo_fingerprint 2)
      (SessionId 4) \<lparr> screen_width = 5, screen_height = 5 \<rparr> demo_home = (Serving (SessionId 4) demo_peer, msgs, sh')"
proof -
  obtain out msgs sh' where r: "incoming_resume [demo_peer] [] True None True ''10.0.0.9'' (demo_fingerprint 2)
      (SessionId 4) \<lparr> screen_width = 5, screen_height = 5 \<rparr> demo_home = (out, msgs, sh')"
    by (cases "incoming_resume [demo_peer] [] True None True ''10.0.0.9'' (demo_fingerprint 2)
      (SessionId 4) \<lparr> screen_width = 5, screen_height = 5 \<rparr> demo_home")
  have "fingerprint_ok (demo_fingerprint 2)" by (simp add: fingerprint_ok_def demo_fingerprint_def)
  from approved_peer_is_served [OF this _ _ r] r show ?thesis
    by (simp add: demo_home_fields manager_new_def demo_ids)
qed

lemma dial_finish_cases:
  assumes "dial_finish ord d host f sh = (r, sh')"
  obtains (refused) e where "read_reply (dial_reply d) = Inl e" "r = Inl e" "sh' = sh"
  | (failed) e where "\<exists>ok. read_reply (dial_reply d) = Inr ok" "r = Inl e"
      "sh' = sh \<lparr> sh_trust := snd (trust_accept (dial_save d) f (Some host) (sh_trust sh)) \<rparr>"
  | (established) sid scr sh1 where "read_reply (dial_reply d) = Inr (sid, scr)"
      "r = Inr (sid, machine_id_of f)" "fst (trust_accept (dial_save d) f (Some host) (sh_trust sh)) = Inr ()"
      "establish_peer ord Controller RightEdge host f sid (screen_of_size scr)
         (sh \<lparr> sh_trust := snd (trust_accept (dial_save d) f (Some host) (sh_trust sh)) \<rparr>) = Inr sh1"
      "sh' = notify_change sh1"
proof (cases "read_reply (dial_reply d)")
  case (Inl e)
  then show thesis using assms by (intro refused) (auto simp: dial_finish_def)
next
  case (Inr ok)
  obtain sid scr where ok: "ok = (sid, scr)" by (cases ok)
  obtain res st where st: "trust_accept (dial_save d) f (Some host) (sh_trust sh) = (res, st)"
    by (cases "trust_accept (dial_save d) f (Some host) (sh_trust sh)")
  show thesis
  proof (cases res)
    case (Inl e)
    then show thesis using assms Inr ok st by (intro failed) (auto simp: dial_finish_def)
  next
    case (Inr u)
    show thesis
    proof (cases "establish_peer ord Controller RightEdge host f sid (screen_of_size scr) (sh \<lparr> sh_trust := st \<rparr>)")
      case (Inl e)
      then show thesis using assms \<open>read_reply _ = _\<close> ok st Inr
        by (intro failed) (auto simp: dial_finish_def Let_def)
    next
      case (Inr sh1)
      then show thesis using assms \<open>read_reply _ = _\<close> ok st \<open>res = Inr u\<close>
        by (intro established) (auto simp: dial_finish_def Let_def)
    qed
  qed
qed

text \<open>C19. Dialling either ends with a session or leaves everything about sessions, links and control as it
  was.  A session needs the peer's acceptance, gets the session id and the screen the peer named,
  the edge configured for the host or else the right one, and the peer's certificate is from then on
  the one this host must show; without the peer's acceptance the trust records do not change
  either.\<close>
theorem dial_outcome:
  assumes "fingerprint_ok f" "dial_finish ord d host f sh = (r, sh')"
  shows "(case r of
      Inl e \<Rightarrow> sh_state sh' = sh_state sh \<and> sh_suppress sh' = sh_suppress sh \<and>
        (sh_trust sh' \<noteq> sh_trust sh \<longrightarrow> (\<exists>sid m scr. dial_reply d = ReplyGot (Some (Control (Accept sid m scr)))))
    | Inr (sid, m) \<Rightarrow> m = machine_id_of f \<and> pinned_for_host (sh_trust sh') host = Some f \<and>
        (\<exists>m' scr lk. dial_reply d = ReplyGot (Some (Control (Accept sid m' scr))) \<and>
          plinks sh' = (plinks sh)(m \<mapsto> lk) \<and> link_role lk = Controller \<and> link_session lk = sid \<and>
          link_screen lk = screen_of_size scr \<and>
          link_edge lk = (case ds_placements (sh_state sh) host of Some e \<Rightarrow> e | None \<Rightarrow> RightEdge)) \<and>
        active sh' = active sh)"
proof -
  have reply: "\<exists>m. dial_reply d = ReplyGot (Some (Control (Accept sid m scr)))"
    if "read_reply (dial_reply d) = Inr (sid, scr)" for sid scr
    using that by (auto simp: read_reply_def split: dial_reply.splits option.splits wire_message.splits
        control_message.splits)
  from assms(2) show ?thesis
  proof (cases rule: dial_finish_cases)
    case (refused e)
    then show ?thesis by simp
  next
    case (failed e)
    then show ?thesis using reply by fastforce
  next
    case (established sid scr sh1)
    obtain lk where lk: "plinks sh1 = (plinks sh)(machine_id_of f \<mapsto> lk)" "link_session lk = sid"
      "link_screen lk = screen_of_size scr" "link_role lk = Controller"
      "link_edge lk = (case ds_placements (sh_state sh) host of Some e \<Rightarrow> e | None \<Rightarrow> RightEdge)"
      "active sh1 = active sh"
      "sh_trust sh1 = snd (trust_accept (dial_save d) f (Some host) (sh_trust sh))"
      using establish_peer_plinks [OF established(4)] by (metis shared.select_convs(1) shared.surjective
          shared.update_convs(2) shared.select_convs(2))
    have "pinned_for_host (sh_trust sh') host = Some f"
      using established(5) lk(7) pinned_after_accept [OF assms(1)] by (simp add: notify_change_def)
    then show ?thesis using established lk reply [OF established(1)] by auto
  qed
qed

text \<open>A dial that reaches the demo peer.\<close>
definition demo_dial :: "nat dial" where
  "demo_dial = \<lparr> dial_lookup = (\<lambda>h p. Inr [0]), dial_connect = (\<lambda>a h. Inr (demo_fingerprint 2)),
     dial_open = None, dial_send = None,
     dial_reply = ReplyGot (Some (Control (Accept (SessionId 9) demo_peer
       \<lparr> screen_width = 3840, screen_height = 2160 \<rparr>))),
     dial_save = None, dial_save_text = [] \<rparr>"

lemma demo_fingerprint_ok: "fingerprint_ok (demo_fingerprint b)"
  by (simp add: fingerprint_ok_def demo_fingerprint_def)

lemma dial_outcome_witness:
  "pinned_for_host (sh_trust (snd (dial_finish [demo_peer] demo_dial ''mac'' (demo_fingerprint 2) demo_home)))
     ''mac'' = Some (demo_fingerprint 2)"
proof -
  obtain r sh' where d: "dial_finish [demo_peer] demo_dial ''mac'' (demo_fingerprint 2) demo_home = (r, sh')"
    by (cases "dial_finish [demo_peer] demo_dial ''mac'' (demo_fingerprint 2) demo_home")
  obtain e where "r = Inr e"
    using d by (auto simp: dial_finish_def demo_dial_def read_reply_def trust_accept_def trust_save_def
        establish_peer_def establish_def demo_home_fields manager_new_def demo_ids Let_def)
  then show ?thesis
    using dial_outcome [OF demo_fingerprint_ok d] d by (cases e) simp
qed

section \<open>The handlers keep the invariants\<close>

lemma daemon_ok_incoming_request [inv_intros]:
  "daemon_ok sh \<Longrightarrow> daemon_ok (snd (incoming_request k host f sh))"
  by (simp add: incoming_request_def)

lemma daemon_ok_incoming_decision:
  "daemon_ok sh \<Longrightarrow> daemon_ok (snd (incoming_decision approved io host f sh))"
  by (simp add: incoming_decision_def Let_def)

lemma daemon_ok_incoming_resume [inv_intros]:
  assumes "daemon_ok sh" "distinct ord" "set ord = insert (machine_id_of f) (dom (plinks sh))"
    and "iterates ord' ((plinks sh)(machine_id_of f := None))"
    and "incoming_resume ord ord' approved io delivered host f sid scr sh = (out, msgs, sh')"
  shows "daemon_ok sh'"
proof -
  define sh1 where "sh1 = snd (incoming_decision approved io host f sh)"
  have ok1: "daemon_ok sh1" unfolding sh1_def by (rule daemon_ok_incoming_decision [OF assms(1)])
  have links: "plinks sh1 = plinks sh" by (simp add: sh1_def)
  show ?thesis
  proof (cases "approved \<and> (\<exists>sh2. establish_peer ord Target LeftEdge host f sid (screen_of_size scr) sh1 = Inr sh2)")
    case True
    then obtain sh2 where sh2: "establish_peer ord Target LeftEdge host f sid (screen_of_size scr) sh1 = Inr sh2"
      by blast
    have ok2: "daemon_ok sh2" using daemon_ok_establish [OF ok1 sh2 assms(2)] assms(3) links by simp
    obtain lk where "plinks sh2 = (plinks sh1)(machine_id_of f \<mapsto> lk)" by (rule establish_peer_plinks [OF sh2])
    then have "iterates ord' ((plinks (notify_change sh2))(machine_id_of f := None))"
      using assms(4) links by simp
    then have "daemon_ok (cleanup_peer ord' (machine_id_of f) (notify_change sh2))"
      using ok2 by (intro daemon_ok_cleanup) simp_all
    moreover have "incoming_establish ord ord' delivered host f sid scr sh1 = (out, msgs, sh')"
      using assms(5) True by (simp add: incoming_resume_eq sh1_def Let_def)
    ultimately show ?thesis
      using sh2 ok2 by (auto simp: incoming_establish_def Let_def split: if_splits)
  next
    case False
    then show ?thesis
      using assms(5) ok1
      by (auto simp: incoming_resume_eq incoming_establish_def sh1_def [symmetric] Let_def
          split: if_splits sum.splits)
  qed
qed

lemma daemon_ok_dial_finish [inv_intros]:
  assumes "daemon_ok sh" "distinct ord" "set ord = insert (machine_id_of f) (dom (plinks sh))"
    and "dial_finish ord d host f sh = (r, sh')"
  shows "daemon_ok sh'"
  using assms(4)
proof (cases rule: dial_finish_cases)
  case (refused e)
  then show ?thesis using assms(1) by simp
next
  case (failed e)
  then show ?thesis using assms(1) by simp
next
  case (established sid scr sh1)
  have "daemon_ok sh1"
    by (rule daemon_ok_establish [OF _ established(4) assms(2)]) (use assms(1,3) in simp_all)
  then show ?thesis using established by simp
qed

end
