(* ===== verification/Requests.thy ===== *)
theory Requests
  imports Connect "HOL-Library.List_Lexorder" "HOL-Library.Char_ord"
begin

text \<open>
  The commands of the \<^verbatim>\<open>omni\<close> tool: the requests and responses of \<^verbatim>\<open>crates/omni-runtime/src/ipc.rs\<close>
  and the daemon's \<^verbatim>\<open>dispatch\<close> with its helpers in \<^verbatim>\<open>daemon.rs\<close>.  The orders in which the hash maps
  are visited, the outcome of the file writes and what the network does with a dial are the fields
  of an \<open>ipc_env\<close>.
\<close>

section \<open>Requests and responses\<close>

datatype request =
    ReqHello
  | ReqSubscribe
  | ReqStatus
  | ReqStop
  | ReqConnect string
  | ReqDisconnect string
  | ReqAccept string
  | ReqReject string
  | ReqPeers
  | ReqRemovePeer string
  | ReqLayout "string option" "string option"
  | ReqClipboard bool
  | ReqModifiers "string option" "string option"

record modifier_info =
  mi_host :: string
  mi_swap :: string
  mi_connected :: bool

record layout_info =
  li_host :: string
  li_edge :: string
  li_connected :: bool

record session_info =
  si_host :: string
  si_fingerprint :: string
  si_role :: string
  si_active :: bool

record pending_info =
  pi_host :: string
  pi_fingerprint :: string

record peer_info =
  peer_host :: "string option"
  peer_fingerprint :: string
  peer_connected :: bool

record status_info =
  st_fingerprint :: string
  st_port :: u16
  st_capturing :: bool
  st_clipboard_sharing :: bool
  st_sessions :: "session_info list"
  st_pending :: "pending_info list"
  st_peers :: "peer_info list"
  st_placements :: "layout_info list"
  st_modifier_swaps :: "modifier_info list"

datatype response =
    RespOk
  | RespError string
  | RespHello u32 string
  | RespStatus status_info
  | RespPeers "peer_info list"
  | RespLayout "layout_info list"
  | RespModifiers "modifier_info list"

definition PROTOCOL_VERSION :: u32 where "PROTOCOL_VERSION = 1"

record 'a ipc_env =
  env_links :: "machine_id list"
  env_new_links :: "machine_id list"
  env_placements :: "string list"
  env_swaps :: "string list"
  env_dial :: "'a dial"
  env_config :: "(config_error \<times> config_file) option"
  env_trust :: "trust_error option"
  env_trust_text :: string
  env_version :: string

text \<open>The punctuation of the messages that is not ASCII, and the quote.\<close>
definition em_dash :: string where "em_dash = [CHR 0xE2, CHR 0x80, CHR 0x94]"
definition quoted :: "string \<Rightarrow> string" where "quoted s = CHR 0x27 # s @ [CHR 0x27]"

section \<open>Listings\<close>

definition link_list :: "machine_id list \<Rightarrow> 'p shared \<Rightarrow> peer_link list" where
  "link_list ord sh = List.map_filter (plinks sh) ord"

text \<open>Live sessions first, then what is only saved, sorted by host.\<close>
definition list_layout :: "machine_id list \<Rightarrow> string list \<Rightarrow> 'p shared \<Rightarrow> layout_info list" where
  "list_layout ord saved sh =
     (let live = map (\<lambda>lk. \<lparr> li_host = link_host lk, li_edge = edge_name (link_edge lk), li_connected = True \<rparr>)
            (link_list ord sh);
          seen = set (map link_host (link_list ord sh));
          rest = List.map_filter (\<lambda>h. if h \<in> seen then None else map_option (\<lambda>e.
            \<lparr> li_host = h, li_edge = edge_name e, li_connected = False \<rparr>) (ds_placements (sh_state sh) h)) saved
      in sort_key li_host (live @ rest))"

definition list_modifier_swaps :: "machine_id list \<Rightarrow> string list \<Rightarrow> 'p shared \<Rightarrow> modifier_info list" where
  "list_modifier_swaps ord saved sh =
     (let live = map (\<lambda>lk. \<lparr> mi_host = link_host lk, mi_swap = swap_name (link_modifier_swap lk), mi_connected = True \<rparr>)
            (link_list ord sh);
          seen = set (map link_host (link_list ord sh));
          rest = List.map_filter (\<lambda>h. if h \<in> seen then None else map_option (\<lambda>w.
            \<lparr> mi_host = h, mi_swap = swap_name w, mi_connected = False \<rparr>) (ds_modifier_swaps (sh_state sh) h)) saved
      in sort_key mi_host (live @ rest))"

definition list_peers :: "machine_id list \<Rightarrow> 'p shared \<Rightarrow> peer_info list" where
  "list_peers ord sh =
     (let connected = map (\<lambda>lk. fingerprint_display (link_fingerprint lk)) (link_list ord sh) in
      map (\<lambda>r. \<lparr> peer_host = record_host r, peer_fingerprint = record_fingerprint r,
                 peer_connected = (record_fingerprint r \<in> set connected) \<rparr>) (trust_peers (sh_trust sh)))"

definition role_name :: "role \<Rightarrow> string" where
  "role_name r = (case r of Controller \<Rightarrow> ''controller'' | Target \<Rightarrow> ''target'')"

definition status :: "'a ipc_env \<Rightarrow> 'p shared \<Rightarrow> status_info" where
  "status env sh = \<lparr>
     st_fingerprint = fingerprint_display (sh_local_fingerprint sh),
     st_port = sh_port sh,
     st_capturing = sh_capturing sh,
     st_clipboard_sharing = is_enabled (sh_clipboard sh),
     st_sessions = map (\<lambda>lk. \<lparr> si_host = link_host lk,
         si_fingerprint = fingerprint_display (link_fingerprint lk), si_role = role_name (link_role lk),
         si_active = (active sh = Remote (machine_id_of (link_fingerprint lk))) \<rparr>)
       (link_list (env_links env) sh),
     st_pending = map (\<lambda>p. \<lparr> pi_host = pending_host p,
         pi_fingerprint = fingerprint_display (pending_fingerprint p) \<rparr>) (ds_pending (sh_state sh)),
     st_peers = list_peers (env_links env) sh,
     st_placements = list_layout (env_links env) (env_placements env) sh,
     st_modifier_swaps = list_modifier_swaps (env_links env) (env_swaps env) sh \<rparr>"

section \<open>The commands that change something\<close>

definition persist_response :: "string \<Rightarrow> persist_error + unit \<Rightarrow> response" where
  "persist_response done r = (case r of
      Inl (NotSaved e) \<Rightarrow> RespError (done @ '' for now, but could not save it: '' @ config_error_text e)
    | Inl (NotRead e) \<Rightarrow>
        RespError (done @ '' for now, but could not read the config to save it: '' @ config_error_text e)
    | Inr _ \<Rightarrow> RespOk)"

definition persist ::
  "'a ipc_env \<Rightarrow> string \<Rightarrow> (config \<Rightarrow> config) \<Rightarrow> 'p shared \<Rightarrow> response \<times> 'p shared" where
  "persist env done change sh =
     (let (r, file) = config_update (env_config env) change (sh_config sh)
      in (persist_response done r, sh \<lparr> sh_config := file \<rparr>))"

text \<open>Every live link with the host is changed in place.\<close>
definition update_host :: "string \<Rightarrow> (peer_link \<Rightarrow> peer_link) \<Rightarrow> 'p shared \<Rightarrow> 'p shared" where
  "update_host host f sh = set_links (\<lambda>m. map_option (\<lambda>lk. if link_host lk = host then f lk else lk)
     (plinks sh m)) sh"

definition set_modifier_swap :: "'a ipc_env \<Rightarrow> string \<Rightarrow> string \<Rightarrow> 'p shared \<Rightarrow> response \<times> 'p shared" where
  "set_modifier_swap env host swap sh = (case swap_parse swap of
      None \<Rightarrow> (RespError (''unknown swap '' @ quoted swap @ '' '' @ em_dash @ '' use none or meta-control''), sh)
    | Some w \<Rightarrow>
        let sh = sh \<lparr> sh_state := (sh_state sh) \<lparr> ds_modifier_swaps :=
              (ds_modifier_swaps (sh_state sh))(host \<mapsto> w) \<rparr> \<rparr>;
            sh = notify_change (update_host host (\<lambda>lk. lk \<lparr> link_modifier_swap := w \<rparr>) sh)
        in persist env ''applied''
             (\<lambda>c. c \<lparr> cfg_modifier_swaps := (cfg_modifier_swaps c)(host \<mapsto> w) \<rparr>) sh)"

definition set_layout :: "'a ipc_env \<Rightarrow> string \<Rightarrow> string \<Rightarrow> 'p shared \<Rightarrow> response \<times> 'p shared" where
  "set_layout env host edge sh = (case parse_edge edge of
      None \<Rightarrow> (RespError (''unknown edge '' @ quoted edge @ '' '' @ em_dash @
                 '' use left, right, top, or bottom''), sh)
    | Some e \<Rightarrow>
        let sh = sh \<lparr> sh_state := (sh_state sh) \<lparr> ds_placements :=
              (ds_placements (sh_state sh))(host \<mapsto> e) \<rparr> \<rparr>;
            sh = update_host host (\<lambda>lk. lk \<lparr> link_edge := e \<rparr>) sh;
            sh = (if env_links env \<noteq> [] then sync_suppression (rebuild_layout (env_links env) sh) else sh)
        in persist env ''placed''
             (\<lambda>c. c \<lparr> cfg_placements := (cfg_placements c)(host \<mapsto> e) \<rparr>) (notify_change sh))"

text \<open>The polling task, which takes the new setting, runs as long as the daemon does.\<close>
definition set_clipboard :: "'a ipc_env \<Rightarrow> bool \<Rightarrow> 'p shared \<Rightarrow> response \<times> 'p shared" where
  "set_clipboard env enabled sh =
     (let sh = sh \<lparr> sh_clipboard := set_enabled enabled (sh_clipboard sh), sh_clipboard_on := enabled \<rparr>
      in persist env ''clipboard sharing changed''
           (\<lambda>c. c \<lparr> cfg_clipboard_sharing := enabled \<rparr>) (notify_change sh))"

definition selects :: "string \<Rightarrow> string \<Rightarrow> fingerprint \<Rightarrow> bool" where
  "selects selector host f \<longleftrightarrow> host = selector \<or> starts_with (fingerprint_display f) selector"

fun remove_first :: "('b \<Rightarrow> bool) \<Rightarrow> 'b list \<Rightarrow> ('b \<times> 'b list) option" where
  "remove_first P [] = None"
| "remove_first P (x # xs) =
     (if P x then Some (x, xs) else map_option (\<lambda>(y, ys). (y, x # ys)) (remove_first P xs))"

definition decide_pending :: "string \<Rightarrow> bool \<Rightarrow> 'p shared \<Rightarrow> response \<times> 'p shared" where
  "decide_pending selector approve sh =
     (case remove_first (\<lambda>p. selects selector (pending_host p) (pending_fingerprint p)) (ds_pending (sh_state sh)) of
        None \<Rightarrow> (RespError (''no pending request matches '' @ selector), sh)
      | Some (p, rest) \<Rightarrow>
          (RespOk, notify_change (sh \<lparr> sh_state := (sh_state sh) \<lparr> ds_pending := rest \<rparr>,
             sh_decisions := (sh_decisions sh)(pending_decision p \<mapsto> approve) \<rparr>)))"

text \<open>The first link the selector matches, in the order the map is visited.\<close>
definition find_link :: "machine_id list \<Rightarrow> string \<Rightarrow> 'p shared \<Rightarrow> machine_id option" where
  "find_link ord selector sh = List.find (\<lambda>m. case plinks sh m of
      Some lk \<Rightarrow> selects selector (link_host lk) (link_fingerprint lk) | None \<Rightarrow> False) ord"

definition disconnect_request :: "'a ipc_env \<Rightarrow> string \<Rightarrow> 'p shared \<Rightarrow> response \<times> 'p shared" where
  "disconnect_request env host sh = (case find_link (env_links env) host sh of
      Some m \<Rightarrow> (RespOk, send_command DisconnectCmd m sh)
    | None \<Rightarrow> (RespError (''no active session with '' @ host), sh))"

definition remove_peer :: "'a ipc_env \<Rightarrow> string \<Rightarrow> 'p shared \<Rightarrow> response \<times> 'p shared" where
  "remove_peer env selector sh =
     (let sh = (case find_link (env_links env) selector sh of
            Some m \<Rightarrow> send_command DisconnectCmd m sh | None \<Rightarrow> sh);
          (r, st) = trust_remove (env_trust env) selector (sh_trust sh);
          sh = sh \<lparr> sh_trust := st \<rparr>
      in (case r of
            Inr True \<Rightarrow> RespOk
          | Inr False \<Rightarrow> RespError (''no known peer matches '' @ selector)
          | Inl _ \<Rightarrow> RespError (''could not update the trust store: '' @ env_trust_text env), sh))"

text \<open>The dial's first half reads nothing that changes, so both halves run on the state the answer
  finds.\<close>
definition connect_command :: "'a ipc_env \<Rightarrow> string \<Rightarrow> 'p shared \<Rightarrow> response \<times> 'p shared" where
  "connect_command env host_arg sh =
     (case fst (dial_request (env_dial env) host_arg sh) of
        Inl e \<Rightarrow> (RespError e, sh)
      | Inr (host, f) \<Rightarrow>
          (case dial_finish (env_new_links env) (env_dial env) host f sh of
             (Inl e, sh) \<Rightarrow> (RespError e, sh)
           | (Inr _, sh) \<Rightarrow> (RespOk, sh)))"

fun dispatch :: "'a ipc_env \<Rightarrow> request \<Rightarrow> 'p shared \<Rightarrow> response \<times> 'p shared" where
  "dispatch env ReqHello sh = (RespHello PROTOCOL_VERSION (env_version env), sh)"
| "dispatch env ReqSubscribe sh = (RespError ''subscribe is handled at the connection level'', sh)"
| "dispatch env ReqStatus sh = (RespStatus (status env sh), sh)"
| "dispatch env ReqStop sh = (RespOk, sh)"
| "dispatch env (ReqConnect host) sh = connect_command env host sh"
| "dispatch env (ReqDisconnect host) sh = disconnect_request env host sh"
| "dispatch env (ReqAccept selector) sh = decide_pending selector True sh"
| "dispatch env (ReqReject selector) sh = decide_pending selector False sh"
| "dispatch env ReqPeers sh = (RespPeers (list_peers (env_links env) sh), sh)"
| "dispatch env (ReqRemovePeer selector) sh = remove_peer env selector sh"
| "dispatch env (ReqLayout host edge) sh = (case (host, edge) of
      (Some host, Some edge) \<Rightarrow> set_layout env host edge sh
    | (None, None) \<Rightarrow> (RespLayout (list_layout (env_links env) (env_placements env) sh), sh)
    | _ \<Rightarrow> (RespError (''give both a host and an edge to place a peer, or '' @
              ''neither to list placements''), sh))"
| "dispatch env (ReqClipboard enabled) sh = set_clipboard env enabled sh"
| "dispatch env (ReqModifiers host swap) sh = (case (host, swap) of
      (Some host, Some swap) \<Rightarrow> set_modifier_swap env host swap sh
    | (None, None) \<Rightarrow> (RespModifiers (list_modifier_swaps (env_links env) (env_swaps env) sh), sh)
    | _ \<Rightarrow> (RespError (''give both a host and a swap to set one, or neither to '' @ ''list them''), sh))"

section \<open>The commands keep the daemon's invariants\<close>

lemma daemon_ok_cong:
  assumes "sessions sh' = sessions sh" "layout sh' = layout sh" "cursor sh' = cursor sh"
    and "plinks sh' = plinks sh" "sh_suppress sh' = sh_suppress sh"
    and "sh_local_machine sh' = sh_local_machine sh" "sh_local_screen sh' = sh_local_screen sh"
  shows "daemon_ok sh' = daemon_ok sh"
proof -
  have "known_screens sh' = known_screens sh" using assms by (simp add: known_screens_def fun_eq_iff)
  moreover have "holder sh' = holder sh" using assms by (simp add: holder_def split: active_target.split)
  ultimately show ?thesis using assms by (simp add: daemon_ok_def daemon_inv_def layout_current_def)
qed

lemma daemon_ok_persist [simp]: "daemon_ok (snd (persist env done change sh)) = daemon_ok sh"
  unfolding persist_def by (rule daemon_ok_cong) (simp_all add: case_prod_beta)

lemma plinks_update_host:
  "plinks (update_host host f sh) m = map_option (\<lambda>lk. if link_host lk = host then f lk else lk) (plinks sh m)"
  by (simp add: update_host_def)

lemma update_host_fields [simp]:
  "sessions (update_host host f sh) = sessions sh" "layout (update_host host f sh) = layout sh"
  "cursor (update_host host f sh) = cursor sh" "sh_suppress (update_host host f sh) = sh_suppress sh"
  "sh_local_machine (update_host host f sh) = sh_local_machine sh"
  "sh_local_screen (update_host host f sh) = sh_local_screen sh"
  "dom (plinks (update_host host f sh)) = dom (plinks sh)"
  by (auto simp: update_host_def dom_def)

lemma holder_update_host [simp]: "holder (update_host host f sh) = holder sh"
  by (simp add: holder_def split: active_target.split)

lemma daemon_inv_update_host:
  assumes "\<And>lk. link_session (f lk) = link_session lk" "\<And>lk. link_screen (f lk) = link_screen lk"
  shows "daemon_inv (update_host host f sh) = daemon_inv sh"
proof -
  have same: "map_option link_session (plinks (update_host host f sh) m) = map_option link_session (plinks sh m)"
    "map_option link_screen (plinks (update_host host f sh) m) = map_option link_screen (plinks sh m)" for m
    using assms by (cases "plinks sh m"; simp add: plinks_update_host)+
  have "known_screens (update_host host f sh) = known_screens sh"
    using same by (simp add: known_screens_def fun_eq_iff)
  then show ?thesis using same by (simp add: daemon_inv_def)
qed

lemma layout_current_update_host:
  assumes "\<And>lk. link_screen (f lk) = link_screen lk" "\<And>lk. link_edge (f lk) = link_edge lk" "layout_current sh"
  shows "layout_current (update_host host f sh)"
proof (rule layout_current_cong [OF assms(3)])
  fix m
  show "map_option link_screen (plinks (update_host host f sh) m) = map_option link_screen (plinks sh m)"
    "map_option link_edge (plinks (update_host host f sh) m) = map_option link_edge (plinks sh m)"
    using assms by (cases "plinks sh m"; simp add: plinks_update_host)+
qed simp_all

lemma daemon_ok_rebuild:
  assumes "daemon_inv sh" "iterates ord (plinks sh)"
  shows "daemon_ok (sync_suppression (rebuild_layout ord sh))"
proof -
  note inv = daemon_invD [OF assms(1)]
  have "tracking_inv (rebuild_layout ord sh)"
    using assms(2) inv holder_known [OF assms(1)]
    by (intro tracking_rebuild) (auto simp: inv(4) [symmetric])
  then show ?thesis
    using assms(2) by (simp add: daemon_ok_def tracking_inv_sync layout_current_rebuild)
qed

lemma daemon_ok_set_layout [inv_intros]:
  assumes "daemon_ok sh" "iterates (env_links env) (plinks sh)"
  shows "daemon_ok (snd (set_layout env host edge sh))"
proof (cases "parse_edge edge")
  case None
  then show ?thesis using assms(1) by (simp add: set_layout_def)
next
  case (Some e)
  define sh1 where "sh1 = sh \<lparr> sh_state := (sh_state sh) \<lparr> ds_placements :=
      (ds_placements (sh_state sh))(host \<mapsto> e) \<rparr> \<rparr>"
  define sh2 where "sh2 = update_host host (\<lambda>lk. lk \<lparr> link_edge := e \<rparr>) sh1"
  have "daemon_ok sh1 = daemon_ok sh" unfolding sh1_def by (rule daemon_ok_cong) simp_all
  then have ok1: "daemon_ok sh1" using assms(1) by simp
  have inv2: "daemon_inv sh2"
    using ok1 daemon_inv_update_host [of "\<lambda>lk. lk \<lparr> link_edge := e \<rparr>" host sh1]
    by (simp add: sh2_def daemon_ok_def)
  have it2: "iterates (env_links env) (plinks sh2)"
    using assms(2) by (simp add: sh2_def iterates_def sh1_def)
  have "daemon_ok (if env_links env \<noteq> [] then sync_suppression (rebuild_layout (env_links env) sh2) else sh2)"
  proof (cases "env_links env = []")
    case True
    then have "plinks sh1 = Map.empty" using assms(2) by (auto simp: iterates_def sh1_def)
    then have "plinks sh2 = plinks sh1" by (simp add: sh2_def fun_eq_iff plinks_update_host)
    then have "daemon_ok sh2 = daemon_ok sh1" by (intro daemon_ok_cong) (simp_all add: sh2_def)
    then show ?thesis using True ok1 by simp
  next
    case False
    then show ?thesis using daemon_ok_rebuild [OF inv2 it2] by simp
  qed
  then show ?thesis using Some by (simp add: set_layout_def sh1_def [symmetric] sh2_def [symmetric])
qed

lemma daemon_ok_set_modifier_swap [inv_intros]:
  assumes "daemon_ok sh"
  shows "daemon_ok (snd (set_modifier_swap env host swap sh))"
proof (cases "swap_parse swap")
  case None
  then show ?thesis using assms by (simp add: set_modifier_swap_def)
next
  case (Some w)
  define sh1 where "sh1 = sh \<lparr> sh_state := (sh_state sh) \<lparr> ds_modifier_swaps :=
      (ds_modifier_swaps (sh_state sh))(host \<mapsto> w) \<rparr> \<rparr>"
  have "daemon_ok sh1 = daemon_ok sh" unfolding sh1_def by (rule daemon_ok_cong) simp_all
  then have "daemon_ok (update_host host (\<lambda>lk. lk \<lparr> link_modifier_swap := w \<rparr>) sh1)"
    using assms by (simp add: daemon_ok_def daemon_inv_update_host layout_current_update_host)
  then show ?thesis using Some by (simp add: set_modifier_swap_def sh1_def [symmetric] Let_def)
qed

lemma daemon_ok_set_clipboard [inv_intros]:
  assumes "daemon_ok sh"
  shows "daemon_ok (snd (set_clipboard env enabled sh))"
proof -
  have "daemon_ok (sh \<lparr> sh_clipboard := set_enabled enabled (sh_clipboard sh), sh_clipboard_on := enabled \<rparr>) = daemon_ok sh"
    by (rule daemon_ok_cong) simp_all
  then show ?thesis using assms by (simp add: set_clipboard_def Let_def)
qed

lemma daemon_ok_decide_pending [inv_intros]:
  assumes "daemon_ok sh"
  shows "daemon_ok (snd (decide_pending selector approve sh))"
proof -
  have "daemon_ok (sh \<lparr> sh_state := (sh_state sh) \<lparr> ds_pending := ps \<rparr>, sh_decisions := ds \<rparr>) = daemon_ok sh" for ps ds
    by (rule daemon_ok_cong) simp_all
  then show ?thesis using assms by (simp add: decide_pending_def split: option.split)
qed

lemma daemon_ok_send [simp]: "daemon_ok sh \<Longrightarrow> daemon_ok (send_command k m sh)"
  by (simp add: daemon_ok_def daemon_inv_send_command)

lemma daemon_ok_remove_peer [inv_intros]:
  assumes "daemon_ok sh"
  shows "daemon_ok (snd (remove_peer env selector sh))"
  using assms by (simp add: remove_peer_def Let_def case_prod_beta split: option.split)

lemma daemon_ok_disconnect [inv_intros]:
  "daemon_ok sh \<Longrightarrow> daemon_ok (snd (disconnect_request env host sh))"
  by (simp add: disconnect_request_def split: option.split)

text \<open>The order in which a rebuild after a dial visits the links includes the new one.\<close>
definition env_ok :: "'a ipc_env \<Rightarrow> 'p shared \<Rightarrow> bool" where
  "env_ok env sh \<longleftrightarrow> iterates (env_links env) (plinks sh) \<and> distinct (env_new_links env) \<and>
     (\<forall>host_arg host f. fst (dial_request (env_dial env) host_arg sh) = Inr (host, f) \<longrightarrow>
        set (env_new_links env) = insert (machine_id_of f) (dom (plinks sh)))"

lemma daemon_ok_connect_command [inv_intros]:
  assumes "daemon_ok sh" "env_ok env sh"
  shows "daemon_ok (snd (connect_command env host_arg sh))"
proof (cases "fst (dial_request (env_dial env) host_arg sh)")
  case (Inl e)
  then show ?thesis using assms(1) by (simp add: connect_command_def)
next
  case (Inr hf)
  obtain host f where hf: "hf = (host, f)" by (cases hf)
  obtain r sh' where d: "dial_finish (env_new_links env) (env_dial env) host f sh = (r, sh')"
    by (cases "dial_finish (env_new_links env) (env_dial env) host f sh")
  have "daemon_ok sh'"
    using assms(2) Inr hf by (intro daemon_ok_dial_finish [OF assms(1) _ _ d]) (auto simp: env_ok_def)
  then show ?thesis using Inr hf d by (simp add: connect_command_def split: sum.split)
qed

lemma daemon_ok_dispatch [inv_intros]:
  assumes "daemon_ok sh" "env_ok env sh"
  shows "daemon_ok (snd (dispatch env req sh))"
proof -
  have it: "iterates (env_links env) (plinks sh)" using assms(2) by (simp add: env_ok_def)
  show ?thesis
  proof (cases req)
    case (ReqLayout h e)
    then show ?thesis using assms(1) daemon_ok_set_layout [OF assms(1) it]
      by (cases h; cases e) simp_all
  next
    case (ReqModifiers h w)
    then show ?thesis using assms(1) daemon_ok_set_modifier_swap [OF assms(1)]
      by (cases h; cases w) simp_all
  qed (use assms in \<open>simp_all add: daemon_ok_connect_command daemon_ok_disconnect daemon_ok_decide_pending
      daemon_ok_remove_peer daemon_ok_set_clipboard\<close>)
qed

section \<open>What the commands do\<close>

lemma persist_fields [simp]:
  "sh_state (snd (persist env done change sh)) = sh_state sh"
  "sh_trust (snd (persist env done change sh)) = sh_trust sh"
  "sh_clipboard (snd (persist env done change sh)) = sh_clipboard sh"
  "sh_clipboard_on (snd (persist env done change sh)) = sh_clipboard_on sh"
  "sh_local_machine (snd (persist env done change sh)) = sh_local_machine sh"
  "sh_config (snd (persist env done change sh)) = snd (config_update (env_config env) change (sh_config sh))"
  "fst (persist env done change sh) = persist_response done (fst (config_update (env_config env) change (sh_config sh)))"
  by (simp_all add: persist_def case_prod_beta)

lemma config_update_ok:
  "fst (config_update io change file) = Inr () \<longleftrightarrow> io = None \<and> (\<exists>c. config_load file = Inr c)"
  "config_load file = Inr c \<Longrightarrow> snd (config_update None change file) = ConfigHolds (change c)"
  by (auto simp: config_update_def config_save_def split: sum.splits option.splits prod.splits)

lemma persist_response_ok: "persist_response done r = RespOk \<longleftrightarrow> (\<exists>u. r = Inr u)"
  by (auto simp: persist_response_def split: sum.split persist_error.split)

text \<open>Placing a host takes effect at once and for good: every live link with that host moves to the
  edge, its way back to this machine included, every other link keeps its own; later sessions with
  the host use it; control does not move; and when the write succeeds the saved configuration has it
  too, with nothing else changed.  An edge name nobody knows changes nothing.\<close>
theorem layout_command_places_host:
  assumes "iterates (env_links env) (plinks sh)"
    and "dispatch env (ReqLayout (Some host) (Some edge)) sh = (resp, sh')"
  shows "(case parse_edge edge of
      None \<Rightarrow> sh' = sh \<and> (\<exists>msg. resp = RespError msg)
    | Some e \<Rightarrow>
        plinks sh' = (\<lambda>m. map_option (\<lambda>lk. if link_host lk = host then lk \<lparr> link_edge := e \<rparr> else lk) (plinks sh m)) \<and>
        (\<forall>m lk. plinks sh m = Some lk \<and> link_host lk = host \<and> m \<noteq> sh_local_machine sh \<longrightarrow>
           neighbor (layout sh') m (opposite e) = Some (sh_local_machine sh)) \<and>
        ds_placements (sh_state sh') = (ds_placements (sh_state sh))(host \<mapsto> e) \<and> active sh' = active sh \<and>
        (resp = RespOk \<longrightarrow> (\<exists>c. config_load (sh_config sh) = Inr c \<and>
           sh_config sh' = ConfigHolds (c \<lparr> cfg_placements := (cfg_placements c)(host \<mapsto> e) \<rparr>))))"
proof (cases "parse_edge edge")
  case None
  then show ?thesis using assms(2) by (auto simp: set_layout_def)
next
  case (Some e)
  define sh1 where "sh1 = update_host host (\<lambda>lk. lk \<lparr> link_edge := e \<rparr>) (sh \<lparr> sh_state :=
      (sh_state sh) \<lparr> ds_placements := (ds_placements (sh_state sh))(host \<mapsto> e) \<rparr> \<rparr>)"
  define sh2 where "sh2 = (if env_links env \<noteq> [] then sync_suppression (rebuild_layout (env_links env) sh1) else sh1)"
  let ?change = "\<lambda>c. c \<lparr> cfg_placements := (cfg_placements c)(host \<mapsto> e) \<rparr>"
  have res: "(resp, sh') = persist env ''placed'' ?change (notify_change sh2)"
    using assms(2) Some by (cases "env_links env = []") (simp_all add: set_layout_def sh1_def sh2_def Let_def)
  have resp: "resp = persist_response ''placed'' (fst (config_update (env_config env) ?change (sh_config (notify_change sh2))))"
    and st: "sh_state sh' = sh_state sh2"
    and cfg: "sh_config sh' = snd (config_update (env_config env) ?change (sh_config (notify_change sh2)))"
    using arg_cong [OF res, of fst] arg_cong [OF res, of snd] by simp_all
  have disk: "sh_config (notify_change sh2) = sh_config sh"
    by (simp add: sh2_def sh1_def notify_change_def sync_suppression_def rebuild_layout_def update_host_def
        setters Let_def)
  have links1: "plinks sh1 = (\<lambda>m. map_option (\<lambda>lk. if link_host lk = host then lk \<lparr> link_edge := e \<rparr> else lk) (plinks sh m))"
    by (simp add: sh1_def plinks_update_host fun_eq_iff)
  have links: "plinks sh' = plinks sh1" "active sh' = active sh"
    "ds_placements (sh_state sh') = (ds_placements (sh_state sh))(host \<mapsto> e)"
    unfolding st by (simp_all add: sh2_def sh1_def rebuild_layout_def update_host_def setters Let_def)
  have home: "neighbor (layout sh') m (opposite e) = Some (sh_local_machine sh)"
    if m: "plinks sh m = Some lk" "link_host lk = host" "m \<noteq> sh_local_machine sh" for m lk
  proof -
    have mem: "m \<in> set (env_links env)" using assms(1) m(1) by (auto simp: iterates_def)
    then have "layout sh' = built_layout (sh_local_machine sh) (sh_local_screen sh) (plinks sh1) (env_links env)"
      unfolding st by (auto simp: sh2_def sh1_def)
    moreover have "plinks sh1 m = Some (lk \<lparr> link_edge := e \<rparr>)" using m by (simp add: links1)
    ultimately show ?thesis
      using built_layout_home [where ls = "plinks sh1" and lk = "lk \<lparr> link_edge := e \<rparr>", OF mem _ m(3)] by simp
  qed
  have saved: "\<exists>c. config_load (sh_config sh) = Inr c \<and> sh_config sh' = ConfigHolds (?change c)" if "resp = RespOk"
  proof -
    have "fst (config_update (env_config env) ?change (sh_config sh)) = Inr ()"
      using that resp disk by (auto simp: persist_response_ok)
    then show ?thesis using cfg disk config_update_ok by auto
  qed
  show ?thesis using Some links links1 home saved by simp
qed

lemma layout_command_places_host_witness:
  "neighbor (layout (snd (dispatch \<lparr> env_links = [demo_peer], env_new_links = [], env_placements = [],
       env_swaps = [], env_dial = demo_dial, env_config = None, env_trust = None, env_trust_text = [],
       env_version = [] \<rparr> (ReqLayout (Some ''mac'') (Some ''top''))
       (demo_desk \<lparr> width = 3840, height = 2160 \<rparr>)))) demo_peer BottomEdge = Some demo_local"
proof -
  let ?env = "\<lparr> env_links = [demo_peer], env_new_links = [], env_placements = [],
       env_swaps = [], env_dial = demo_dial, env_config = None, env_trust = None, env_trust_text = [],
       env_version = [] \<rparr> :: nat ipc_env"
  obtain r sh' where d: "dispatch ?env (ReqLayout (Some ''mac'') (Some ''top''))
      (demo_desk \<lparr> width = 3840, height = 2160 \<rparr>) = (r, sh')"
    by (cases "dispatch ?env (ReqLayout (Some ''mac'') (Some ''top'')) (demo_desk \<lparr> width = 3840, height = 2160 \<rparr>)")
  have top: "parse_edge ''top'' = Some TopEdge" by code_simp
  have "iterates (env_links ?env) (plinks (demo_desk \<lparr> width = 3840, height = 2160 \<rparr>))"
    using demo_desk_iterates by simp
  from layout_command_places_host [OF this d] top d show ?thesis
    by (simp add: demo_desk_fields demo_link_def)
qed

text \<open>A modifier relabelling takes effect for every live link of the host and no other, is used for its
  later sessions, and moves neither control nor the desktop; a name nobody knows changes nothing.\<close>
theorem modifier_command_relabels_host:
  assumes "dispatch env (ReqModifiers (Some host) (Some swap)) sh = (resp, sh')"
  shows "(case swap_parse swap of
      None \<Rightarrow> sh' = sh \<and> (\<exists>msg. resp = RespError msg)
    | Some w \<Rightarrow>
        plinks sh' = (\<lambda>m. map_option (\<lambda>lk. if link_host lk = host then lk \<lparr> link_modifier_swap := w \<rparr> else lk) (plinks sh m)) \<and>
        ds_modifier_swaps (sh_state sh') = (ds_modifier_swaps (sh_state sh))(host \<mapsto> w) \<and>
        sessions sh' = sessions sh \<and> layout sh' = layout sh \<and> cursor sh' = cursor sh)"
proof (cases "swap_parse swap")
  case None
  then show ?thesis using assms by (auto simp: set_modifier_swap_def)
next
  case (Some w)
  have st: "sh_state sh' = sh_state (update_host host (\<lambda>lk. lk \<lparr> link_modifier_swap := w \<rparr>) (sh \<lparr> sh_state :=
      (sh_state sh) \<lparr> ds_modifier_swaps := (ds_modifier_swaps (sh_state sh))(host \<mapsto> w) \<rparr> \<rparr>))"
    using assms Some by (auto simp: set_modifier_swap_def Let_def dest!: arg_cong [where f = snd])
  show ?thesis using Some unfolding st by (simp add: update_host_def setters)
qed

lemma modifier_command_relabels_host_witness:
  "map_option link_modifier_swap (plinks (snd (set_modifier_swap \<lparr> env_links = [demo_peer], env_new_links = [],
       env_placements = [], env_swaps = [], env_dial = demo_dial, env_config = None, env_trust = None,
       env_trust_text = [], env_version = [] \<rparr> ''mac'' ''swap''
       (demo_desk \<lparr> width = 3840, height = 2160 \<rparr>))) demo_peer) = Some MetaAndControl"
proof -
  let ?env = "\<lparr> env_links = [demo_peer], env_new_links = [], env_placements = [],
       env_swaps = [], env_dial = demo_dial, env_config = None, env_trust = None, env_trust_text = [],
       env_version = [] \<rparr> :: nat ipc_env"
  obtain r sh' where d: "dispatch ?env (ReqModifiers (Some ''mac'') (Some ''swap''))
      (demo_desk \<lparr> width = 3840, height = 2160 \<rparr>) = (r, sh')"
    by (cases "dispatch ?env (ReqModifiers (Some ''mac'') (Some ''swap'')) (demo_desk \<lparr> width = 3840, height = 2160 \<rparr>)")
  have "swap_parse ''swap'' = Some MetaAndControl" by code_simp
  with modifier_command_relabels_host [OF d] d show ?thesis
    by (simp add: demo_desk_fields demo_link_def)
qed

lemma remove_first_split:
  "remove_first P xs = Some (y, ys) \<longleftrightarrow>
     (\<exists>us vs. xs = us @ y # vs \<and> ys = us @ vs \<and> P y \<and> (\<forall>u\<in>set us. \<not> P u))"
proof (induction xs arbitrary: ys)
  case Nil
  then show ?case by simp
next
  case (Cons x xs)
  show ?case
  proof (cases "P x")
    case True
    show ?thesis
    proof
      assume "remove_first P (x # xs) = Some (y, ys)"
      then show "\<exists>us vs. x # xs = us @ y # vs \<and> ys = us @ vs \<and> P y \<and> (\<forall>u\<in>set us. \<not> P u)"
        using True by - (rule exI [of _ "[]"], auto)
    next
      assume "\<exists>us vs. x # xs = us @ y # vs \<and> ys = us @ vs \<and> P y \<and> (\<forall>u\<in>set us. \<not> P u)"
      then obtain us vs where *: "x # xs = us @ y # vs" "ys = us @ vs" "\<forall>u\<in>set us. \<not> P u" by blast
      then have "us = []" using True by (cases us) auto
      then show "remove_first P (x # xs) = Some (y, ys)" using * True by simp
    qed
  next
    case False
    show ?thesis
    proof
      assume "remove_first P (x # xs) = Some (y, ys)"
      then obtain zs where "remove_first P xs = Some (y, zs)" "ys = x # zs" using False by auto
      then obtain us vs where "xs = us @ y # vs" "ys = x # us @ vs" "P y" "\<forall>u\<in>set us. \<not> P u"
        using Cons by blast
      then show "\<exists>us vs. x # xs = us @ y # vs \<and> ys = us @ vs \<and> P y \<and> (\<forall>u\<in>set us. \<not> P u)"
        using False by (intro exI [of _ "x # us"] exI [of _ vs]) auto
    next
      assume "\<exists>us vs. x # xs = us @ y # vs \<and> ys = us @ vs \<and> P y \<and> (\<forall>u\<in>set us. \<not> P u)"
      then obtain us vs where *: "x # xs = us @ y # vs" "ys = us @ vs" "P y" "\<forall>u\<in>set us. \<not> P u" by blast
      then obtain us' where us: "us = x # us'" using False by (cases us) auto
      have "remove_first P xs = Some (y, us' @ vs)"
        using * us by (intro Cons.IH [THEN iffD2]) auto
      then show "remove_first P (x # xs) = Some (y, ys)" using False * us by simp
    qed
  qed
qed

lemma remove_first_None: "remove_first P xs = None \<longleftrightarrow> (\<forall>x\<in>set xs. \<not> P x)"
  by (induction xs) auto

text \<open>An answer to a pending request reaches exactly one request, the oldest the selector matches by
  host or by fingerprint prefix: it leaves the list, its waiting connection gets the decision, and
  every other request and decision stays; when nothing matches, nothing changes.\<close>
theorem decision_reaches_oldest_match:
  assumes "decide_pending selector approve sh = (resp, sh')"
  shows "(if \<exists>p\<in>set (ds_pending (sh_state sh)). selects selector (pending_host p) (pending_fingerprint p)
    then resp = RespOk \<and> (\<exists>us p vs. ds_pending (sh_state sh) = us @ p # vs \<and>
        selects selector (pending_host p) (pending_fingerprint p) \<and>
        (\<forall>u\<in>set us. \<not> selects selector (pending_host u) (pending_fingerprint u)) \<and>
        ds_pending (sh_state sh') = us @ vs \<and>
        sh_decisions sh' = (sh_decisions sh)(pending_decision p \<mapsto> approve))
    else (\<exists>msg. resp = RespError msg) \<and> sh' = sh)"
proof (cases "remove_first (\<lambda>p. selects selector (pending_host p) (pending_fingerprint p)) (ds_pending (sh_state sh))")
  case None
  then show ?thesis using assms remove_first_None [THEN iffD1, OF None] by (auto simp: decide_pending_def)
next
  case (Some r)
  obtain p rest where r: "r = (p, rest)" by (cases r)
  obtain us vs where uv: "ds_pending (sh_state sh) = us @ p # vs" "rest = us @ vs"
    "selects selector (pending_host p) (pending_fingerprint p)"
    "\<forall>u\<in>set us. \<not> selects selector (pending_host u) (pending_fingerprint u)"
    using Some [unfolded r remove_first_split] by blast
  have "resp = RespOk" "ds_pending (sh_state sh') = us @ vs"
    "sh_decisions sh' = (sh_decisions sh)(pending_decision p \<mapsto> approve)"
    using assms Some r uv(2) by (auto simp: decide_pending_def notify_change_def)
  then show ?thesis using uv by auto
qed

lemma decision_reaches_oldest_match_witness:
  "fst (decide_pending ''mac'' True (demo_home :: mock_clipboard shared)) \<noteq> RespOk"
proof -
  obtain r sh' where d: "decide_pending ''mac'' True demo_home = (r, sh')"
    by (cases "decide_pending ''mac'' True demo_home")
  have "ds_pending (sh_state demo_home) = []"
    by (simp add: demo_home_def daemon_start_def rebuild_layout_def Let_def setters)
  then show ?thesis using decision_reaches_oldest_match [OF d] d by auto
qed

lemma starts_with_Nil [simp]: "starts_with s []"
  by (simp add: starts_with_def)

text \<open>Forgetting a peer ends its pin at once, so dialling the host starts afresh, and the session the
  selector finds first is told to disconnect.  The selector is a prefix, so the empty one forgets
  every peer.\<close>
theorem remove_peer_forgets:
  assumes "dispatch env (ReqRemovePeer selector) sh = (resp, sh')"
  shows "pinned_for_host (sh_trust sh') selector = None \<and>
    (\<forall>r\<in>set (trust_peers (sh_trust sh')). r \<in> set (trust_peers (sh_trust sh)) \<and>
       record_host r \<noteq> Some selector \<and> \<not> starts_with (record_fingerprint r) selector) \<and>
    (resp = RespOk \<longrightarrow> trust_peers (sh_trust sh') \<noteq> trust_peers (sh_trust sh)) \<and>
    (case find_link (env_links env) selector sh of
       None \<Rightarrow> plinks sh' = plinks sh
     | Some m \<Rightarrow> plinks sh' m = map_option (queued DisconnectCmd) (plinks sh m)) \<and>
    (selector = [] \<longrightarrow> trust_peers (sh_trust sh') = [])"
proof -
  obtain r st where st: "trust_remove (env_trust env) selector (sh_trust sh) = (r, st)"
    by (cases "trust_remove (env_trust env) selector (sh_trust sh)")
  have tr: "sh_trust (send_command k m s) = sh_trust s" for k m s
    by (simp add: send_command_def set_links_def split: option.split)
  have sh': "sh_trust sh' = st" "sh_state sh' = sh_state (case find_link (env_links env) selector sh of
      Some m \<Rightarrow> send_command DisconnectCmd m sh | None \<Rightarrow> sh)"
    "resp = RespOk \<longrightarrow> r = Inr True"
    using assms st by (auto simp: remove_peer_def Let_def tr split: option.splits sum.splits bool.splits)
  have peers: "trust_peers st = filter (\<lambda>r. record_host r \<noteq> Some selector \<and>
      \<not> starts_with (record_fingerprint r) selector) (trust_peers (sh_trust sh))"
    using st trust_peers_remove [of "env_trust env" selector "sh_trust sh"] by simp
  have changed: "trust_peers st \<noteq> trust_peers (sh_trust sh)" if "r = Inr True"
    using that st by (auto simp: trust_remove_def Let_def trust_save_def split: if_splits option.splits)
  have "pinned_for_host st selector = None"
    using pinned_after_remove [of "env_trust env" selector "sh_trust sh"] st by simp
  moreover have "case find_link (env_links env) selector sh of
       None \<Rightarrow> plinks sh' = plinks sh
     | Some m \<Rightarrow> plinks sh' m = map_option (queued DisconnectCmd) (plinks sh m)"
    using sh'(2) by (cases "find_link (env_links env) selector sh")
      (auto simp: plinks_send_command queued_def [abs_def])
  moreover have "trust_peers st = []" if "selector = []" using that peers by simp
  ultimately show ?thesis using sh' peers changed by auto
qed

lemma remove_peer_forgets_witness:
  "trust_peers (sh_trust (snd (remove_peer \<lparr> env_links = [], env_new_links = [], env_placements = [],
       env_swaps = [], env_dial = demo_dial, env_config = None, env_trust = None, env_trust_text = [],
       env_version = [] \<rparr> [] (demo_home \<lparr> sh_trust := demo_trust \<rparr>)))) = []"
proof -
  let ?env = "\<lparr> env_links = [], env_new_links = [], env_placements = [],
       env_swaps = [], env_dial = demo_dial, env_config = None, env_trust = None, env_trust_text = [],
       env_version = [] \<rparr> :: nat ipc_env"
  obtain r sh' where d: "dispatch ?env (ReqRemovePeer []) (demo_home \<lparr> sh_trust := demo_trust \<rparr>) = (r, sh')"
    by (cases "dispatch ?env (ReqRemovePeer []) (demo_home \<lparr> sh_trust := demo_trust \<rparr>)")
  from remove_peer_forgets [OF d] d show ?thesis by simp
qed

lemma in_link_list: "lk \<in> set (link_list ord sh) \<longleftrightarrow> (\<exists>m\<in>set ord. plinks sh m = Some lk)"
  by (force simp: link_list_def List.map_filter_def)

lemma in_map_filter: "x \<in> set (List.map_filter f xs) \<longleftrightarrow> (\<exists>y\<in>set xs. f y = Some x)"
  by (force simp: List.map_filter_def)

text \<open>The listing of placements is sorted by host and complete: it has every live session with its
  present edge, marked connected, every saved host without a live session with its saved edge, and
  nothing else.\<close>
theorem placements_listing_exact:
  assumes "iterates ord (plinks sh)" "iterates saved (ds_placements (sh_state sh))"
  shows "sorted (map li_host (list_layout ord saved sh)) \<and>
    set (list_layout ord saved sh) =
      {\<lparr> li_host = link_host lk, li_edge = edge_name (link_edge lk), li_connected = True \<rparr> | lk m. plinks sh m = Some lk} \<union>
      {\<lparr> li_host = h, li_edge = edge_name e, li_connected = False \<rparr> | h e.
         ds_placements (sh_state sh) h = Some e \<and> (\<forall>m lk. plinks sh m = Some lk \<longrightarrow> link_host lk \<noteq> h)}"
proof -
  have live: "set (link_list ord sh) = {lk. \<exists>m. plinks sh m = Some lk}"
    using assms(1) by (force simp: in_link_list iterates_def)
  have saved: "set saved = {h. \<exists>e. ds_placements (sh_state sh) h = Some e}"
    using assms(2) by (auto simp: iterates_def)
  let ?live = "\<lambda>lk. \<lparr> li_host = link_host lk, li_edge = edge_name (link_edge lk), li_connected = True \<rparr>"
  let ?saved = "\<lambda>h e. \<lparr> li_host = h, li_edge = edge_name e, li_connected = False \<rparr>"
  let ?rest = "List.map_filter (\<lambda>h. if h \<in> set (map link_host (link_list ord sh)) then None
      else map_option (?saved h) (ds_placements (sh_state sh) h)) saved"
  have "set ?rest = {?saved h e | h e. ds_placements (sh_state sh) h = Some e \<and>
      (\<forall>m lk. plinks sh m = Some lk \<longrightarrow> link_host lk \<noteq> h)}" (is "_ = ?R")
  proof (rule set_eqI)
    fix x
    have "x \<in> set ?rest \<longleftrightarrow> (\<exists>h e. ds_placements (sh_state sh) h = Some e \<and>
        h \<notin> link_host ` {lk. \<exists>m. plinks sh m = Some lk} \<and> x = ?saved h e)"
      unfolding in_map_filter saved set_map live by (auto split: if_splits)
    moreover have "h \<notin> link_host ` {lk. \<exists>m. plinks sh m = Some lk} \<longleftrightarrow>
        (\<forall>m lk. plinks sh m = Some lk \<longrightarrow> link_host lk \<noteq> h)" for h by blast
    ultimately show "x \<in> set ?rest \<longleftrightarrow> x \<in> ?R" by blast
  qed
  moreover have "set (map ?live (link_list ord sh)) = {?live lk | lk m. plinks sh m = Some lk}"
    unfolding set_map live by auto
  ultimately show ?thesis unfolding list_layout_def Let_def by (simp only: set_sort set_append sorted_sort_key)
qed

lemma placements_listing_exact_witness:
  "list_layout [demo_peer] [] (demo_desk \<lparr> width = 3840, height = 2160 \<rparr>) \<noteq> []"
proof -
  have "iterates [] (ds_placements (sh_state (demo_desk \<lparr> width = 3840, height = 2160 \<rparr>)))"
    by (simp add: iterates_def demo_desk_def establish_peer_def demo_home_fields manager_new_def
        establish_def Let_def rebuild_layout_def setters)
  from placements_listing_exact [OF demo_desk_iterates this]
  have "set (list_layout [demo_peer] [] (demo_desk \<lparr> width = 3840, height = 2160 \<rparr>)) \<noteq> {}"
    by (auto simp: demo_desk_fields)
  then show ?thesis by auto
qed

end
