(* ===== verification/System.thy ===== *)
theory System
  imports Requests
begin

text \<open>
  The daemon as a whole: its tasks interleave at the state lock, so one step of the system is one
  handler run by whichever task takes the lock next, and a run is any sequence of such steps from
  the state \<^verbatim>\<open>run_with_paths\<close> builds.  The invariants proved of the single handlers hold in every
  state reached.
\<close>

section \<open>The clipboard task\<close>

text \<open>A poll and, on a new copy, its hand-over to every connected peer.  The read may be older than
  the state it is compared with.\<close>
definition check_local_clipboard ::
  "nat \<Rightarrow> clipboard_error + clipboard_data option \<Rightarrow> 'p shared \<Rightarrow> clipboard_data option \<times> 'p shared" where
  "check_local_clipboard bits read sh = (case read of
      Inl e \<Rightarrow> (None, sh)
    | Inr current \<Rightarrow> (let (out, cm) = poll_compare bits current (sh_clipboard sh)
                      in (out, sh \<lparr> sh_clipboard := cm \<rparr>)))"

definition broadcast_local_clipboard ::
  "machine_id list \<Rightarrow> nat \<Rightarrow> clipboard_error + clipboard_data option \<Rightarrow> 'p shared \<Rightarrow> 'p shared" where
  "broadcast_local_clipboard ord bits read sh =
     (case check_local_clipboard bits read sh of
        (None, sh) \<Rightarrow> sh
      | (Some d, sh) \<Rightarrow> broadcast ord (ClipboardCmd d) sh)"

section \<open>Steps\<close>

text \<open>Network addresses are opaque to the daemon; here they are numbers.\<close>
inductive daemon_step :: "'p shared \<Rightarrow> 'p shared \<Rightarrow> bool" where
  Captured: "iterates ord (plinks sh) \<Longrightarrow> route_captured ord os ev sh = Some sh' \<Longrightarrow> daemon_step sh sh'"
| PeerTask: "pt_shared t = sh \<Longrightarrow> peer_step bits w now ev' t = (leave, t') \<Longrightarrow> daemon_step sh (pt_shared t')"
| PeerEnded: "iterates ord ((plinks sh)(m := None)) \<Longrightarrow> daemon_step sh (cleanup_peer ord m sh)"
| Dialled: "daemon_step sh (snd (incoming_request k host f sh))"
| Resumed: "distinct ord \<Longrightarrow> set ord = insert (machine_id_of f) (dom (plinks sh)) \<Longrightarrow>
    iterates ord' ((plinks sh)(machine_id_of f := None)) \<Longrightarrow>
    incoming_resume ord ord' approved io delivered host f sid scr sh = (out, msgs, sh') \<Longrightarrow>
    daemon_step sh sh'"
| Commanded: "env_ok (env :: nat ipc_env) sh \<Longrightarrow> dispatch env req sh = (resp, sh') \<Longrightarrow> daemon_step sh sh'"
| ClipboardPolled: "iterates ord (plinks sh) \<Longrightarrow> daemon_step sh (broadcast_local_clipboard ord bits read sh)"
| ShuttingDown: "iterates ord (plinks sh) \<Longrightarrow> daemon_step sh (disconnect_all ord sh)"

inductive daemon_reachable :: "'p shared \<Rightarrow> bool" where
  Started: "daemon_reachable (daemon_start cfg file fp trust os i c port)"
| Stepped: "daemon_reachable sh \<Longrightarrow> daemon_step sh sh' \<Longrightarrow> daemon_reachable sh'"

inductive_cases daemon_stepE: "daemon_step sh sh'"

lemma daemon_ok_broadcast: "daemon_ok sh \<Longrightarrow> daemon_ok (broadcast ord k sh)"
  by (simp add: daemon_ok_def daemon_inv_broadcast)

lemma daemon_ok_clipboard: "daemon_ok (sh \<lparr> sh_clipboard := cm \<rparr>) = daemon_ok sh"
  by (rule daemon_ok_cong) simp_all

lemma daemon_ok_broadcast_clipboard [inv_intros]:
  "daemon_ok sh \<Longrightarrow> daemon_ok (broadcast_local_clipboard ord bits read sh)"
  by (auto simp: broadcast_local_clipboard_def check_local_clipboard_def daemon_ok_clipboard
      case_prod_beta intro!: daemon_ok_broadcast split: sum.split option.split)

lemma daemon_ok_route [inv_intros]:
  "daemon_ok sh \<Longrightarrow> route_captured ord os ev sh = Some sh' \<Longrightarrow> daemon_ok sh'"
  using daemon_inv_route_captured layout_current_route unfolding daemon_ok_def by blast

lemma daemon_ok_step:
  assumes "daemon_step sh sh'" "daemon_ok sh"
  shows "daemon_ok sh'"
  using assms(1)
proof (cases rule: daemon_step.cases)
  case (Captured ord os ev)
  then show ?thesis using assms(2) daemon_ok_route by blast
next
  case (PeerTask t bits w now ev' leave t')
  then show ?thesis using assms(2) peer_step_ok by blast
next
  case (PeerEnded ord m)
  then show ?thesis using assms(2) daemon_ok_cleanup by blast
next
  case (Dialled k host f)
  then show ?thesis using assms(2) daemon_ok_incoming_request by blast
next
  case (Resumed ord f ord' approved io delivered host sid scr out msgs)
  then show ?thesis using assms(2) daemon_ok_incoming_resume by blast
next
  case (Commanded env req resp)
  then show ?thesis using daemon_ok_dispatch [OF assms(2), of env req] by simp
next
  case (ClipboardPolled ord bits read)
  then show ?thesis using assms(2) daemon_ok_broadcast_clipboard by blast
next
  case (ShuttingDown ord)
  then show ?thesis using assms(2) daemon_ok_broadcast by (simp add: disconnect_all_def)
qed

lemma daemon_reachable_ok: "daemon_reachable sh \<Longrightarrow> daemon_ok sh"
proof (induction rule: daemon_reachable.induct)
  case (Started cfg conf fp trust os i c port)
  then show ?case by (simp add: daemon_ok_def daemon_start_inv layout_current_start)
next
  case (Stepped sh sh')
  then show ?case using daemon_ok_step by blast
qed

text \<open>A peer never is this machine, unless the machine was connected to itself.\<close>
lemma linked_or_local:
  assumes "daemon_ok sh"
  shows "cursor_machine (cursor sh) = sh_local_machine sh \<or> plinks sh (cursor_machine (cursor sh)) \<noteq> None"
proof -
  have inv: "daemon_inv sh" using assms by (simp add: daemon_ok_def)
  have "known_screens sh (cursor_machine (cursor sh)) \<noteq> None"
    using holder_known [OF inv] daemon_invD(4,6) [OF inv] by simp
  then show ?thesis by (auto simp: known_screens_def split: if_splits)
qed

section \<open>Properties\<close>


lemma demo_home_reachable: "daemon_reachable demo_home"
  unfolding demo_home_def by (rule Started)

definition demo_env :: "screen \<Rightarrow> nat ipc_env" where
  "demo_env scr = \<lparr> env_links = [], env_new_links = [demo_peer], env_placements = [], env_swaps = [],
     env_dial = demo_dial \<lparr> dial_reply := ReplyGot (Some (Control (Accept (SessionId 9) demo_peer
       (screen_size_of scr)))) \<rparr>,
     env_config = None, env_trust = None, env_trust_text = [], env_version = [] \<rparr>"

lemma demo_env_ok: "env_ok (demo_env scr) demo_home"
  by (auto simp: env_ok_def demo_env_def demo_dial_def dial_request_def resolve_host_def iterates_def
      demo_home_fields demo_ids split: prod.splits)

text \<open>What the daemon looks like after dialling a peer with the given screen.\<close>
definition demo_dialled :: "screen \<Rightarrow> mock_clipboard shared" where
  "demo_dialled scr = snd (dispatch (demo_env scr) (ReqConnect ''mac'') demo_home)"

lemma demo_dialled_reachable: "daemon_reachable (demo_dialled scr)"
proof (rule Stepped [OF demo_home_reachable Commanded [OF demo_env_ok]])
  show "dispatch (demo_env scr) (ReqConnect ''mac'') demo_home =
     (fst (dispatch (demo_env scr) (ReqConnect ''mac'') demo_home), demo_dialled scr)"
    by (simp add: demo_dialled_def)
qed


text \<open>The same state with its identifiers worked out.\<close>
definition demo_dialled_as :: "trust_state \<Rightarrow> screen \<Rightarrow> mock_clipboard shared" where
  "demo_dialled_as st scr = notify_change (rebuild_layout [demo_peer]
     (set_links [demo_peer \<mapsto> demo_link scr] (set_sessions
       \<lparr> sm_local = demo_local, sm_sessions = [SessionId 9 \<mapsto>
           \<lparr> session_id = SessionId 9, session_peer = demo_peer, session_role = Controller \<rparr>],
         sm_by_peer = [demo_peer \<mapsto> SessionId 9], sm_active = Local,
         sm_events = \<lparr> recorded = [Established (SessionId 9) demo_peer Controller] \<rparr> \<rparr>
       (rebuild_layout []
         \<lparr> sh_state = \<lparr> ds_sessions = manager_new demo_local \<lparr> recorded = [] \<rparr>, ds_layout = layout_new,
            ds_cursor = \<lparr> cursor_machine = demo_local, cursor_position = \<lparr> px = 0, py = 0 \<rparr> \<rparr>,
            ds_links = Map.empty, ds_pending = [], ds_placements = Map.empty, ds_modifier_swaps = Map.empty \<rparr>,
         sh_trust = st, sh_sink = Some [], sh_suppress = False, sh_local_machine = demo_local,
         sh_local_fingerprint = demo_fingerprint 1, sh_local_screen = \<lparr> width = 1920, height = 1080 \<rparr>,
         sh_port = 4733, sh_config = ConfigAbsent, sh_capturing = True,
         sh_clipboard = clipboard_new \<lparr> mock_content = None \<rparr> False,
         sh_clipboard_on = False, sh_changes = 0, sh_decisions = Map.empty \<rparr>))))"

lemma demo_home_eq: "demo_home \<lparr> sh_trust := st \<rparr> = rebuild_layout []
       \<lparr> sh_state = \<lparr> ds_sessions = manager_new demo_local \<lparr> recorded = [] \<rparr>, ds_layout = layout_new,
            ds_cursor = \<lparr> cursor_machine = demo_local, cursor_position = \<lparr> px = 0, py = 0 \<rparr> \<rparr>,
            ds_links = Map.empty, ds_pending = [], ds_placements = Map.empty, ds_modifier_swaps = Map.empty \<rparr>,
         sh_trust = st, sh_sink = Some [], sh_suppress = False, sh_local_machine = demo_local,
         sh_local_fingerprint = demo_fingerprint 1, sh_local_screen = \<lparr> width = 1920, height = 1080 \<rparr>,
         sh_port = 4733, sh_config = ConfigAbsent, sh_capturing = True,
         sh_clipboard = clipboard_new \<lparr> mock_content = None \<rparr> False,
         sh_clipboard_on = False, sh_changes = 0, sh_decisions = Map.empty \<rparr>"
  by (simp add: demo_home_def daemon_start_def demo_ids config_default_def detect_screen_def config_port_def
      default_port_def rebuild_layout_def Let_def setters home_cursor_def)

lemma demo_dialled_eq: "\<exists>st. demo_dialled scr = demo_dialled_as st scr"
proof -
  obtain st where st: "trust_accept None (demo_fingerprint 2) (Some ''mac'') (sh_trust demo_home) = (Inr (), st)"
    by (simp add: trust_accept_def trust_save_def)
  have host: "split_host ''mac'' p = (''mac'', p)" for p by (simp add: split_host_def rsplit_once_def)
  have "demo_dialled scr = notify_change (rebuild_layout [demo_peer]
     (set_links [demo_peer \<mapsto> demo_link scr] (set_sessions
       \<lparr> sm_local = demo_local, sm_sessions = [SessionId 9 \<mapsto>
           \<lparr> session_id = SessionId 9, session_peer = demo_peer, session_role = Controller \<rparr>],
         sm_by_peer = [demo_peer \<mapsto> SessionId 9], sm_active = Local,
         sm_events = \<lparr> recorded = [Established (SessionId 9) demo_peer Controller] \<rparr> \<rparr>
       (demo_home \<lparr> sh_trust := st \<rparr>))))"
    using st host
    by (cases scr) (simp add: demo_dialled_def connect_command_def demo_env_def demo_dial_def dial_request_def
        resolve_host_def dial_finish_def read_reply_def screen_size_of_def screen_of_size_def
        establish_peer_def establish_def demo_home_fields manager_new_def demo_ids Let_def demo_link_def
        emit_event_def recording_emit_def)
  then show ?thesis unfolding demo_home_eq demo_dialled_as_def by blast
qed

lemma demo_dialled_panics:
  "\<not> Option.is_none (route_captured [demo_peer] None (Motion \<lparr> dx = 5000, dy = 0 \<rparr>)
      (demo_dialled_as st \<lparr> width = 0, height = 2160 \<rparr>)) \<and>
   Option.is_none (route_captured [demo_peer] None (Motion \<lparr> dx = 1, dy = 0 \<rparr>)
     (the (route_captured [demo_peer] None (Motion \<lparr> dx = 5000, dy = 0 \<rparr>)
      (demo_dialled_as st \<lparr> width = 0, height = 2160 \<rparr>))))"
  by code_simp

text \<open>A peer can bring the daemon down: one whose connect answer announces a screen of width zero is
  accepted, and once the cursor has been carried onto it the next mouse movement panics in the
  capture thread while it holds the state lock.\<close>
theorem announced_screen_can_panic:
  "\<exists>sh :: mock_clipboard shared. daemon_reachable sh \<and>
     route_captured [demo_peer] None (Motion \<lparr> dx = 1, dy = 0 \<rparr>) sh = None"
proof -
  obtain st where st: "demo_dialled \<lparr> width = 0, height = 2160 \<rparr> = demo_dialled_as st \<lparr> width = 0, height = 2160 \<rparr>"
    using demo_dialled_eq by blast
  let ?sh = "demo_dialled_as st \<lparr> width = 0, height = 2160 \<rparr>"
  obtain sh' where sh': "route_captured [demo_peer] None (Motion \<lparr> dx = 5000, dy = 0 \<rparr>) ?sh = Some sh'"
    using demo_dialled_panics [of st] by (auto simp: Option.is_none_def)
  have "iterates [demo_peer] (plinks ?sh)" by (simp add: demo_dialled_as_def iterates_def)
  then have "daemon_reachable sh'"
    by (rule Stepped [OF demo_dialled_reachable [of "\<lparr> width = 0, height = 2160 \<rparr>", unfolded st] Captured])
      (rule sh')
  moreover have "route_captured [demo_peer] None (Motion \<lparr> dx = 1, dy = 0 \<rparr>) sh' = None"
    using demo_dialled_panics [of st] sh' by (simp add: Option.is_none_def)
  ultimately show ?thesis by blast
qed

end
