(* ===== verification/Scroll.thy ===== *)
theory Scroll
  imports Protocol
begin

text \<open>
  \<^verbatim>\<open>crates/omni-input/src/scroll.rs\<close> and \<^verbatim>\<open>port.rs\<close>: scaling a stream of scroll movements into
  whole units without losing the remainders, and the translation between desktop and screen
  coordinates.  \<^verbatim>\<open>f64\<close> code (\<^verbatim>\<open>millilines_from_lines\<close>) is not modelled.
\<close>

section \<open>Scaling a stream of whole numbers\<close>

record scaled =
  scaled_pending :: i32

definition scaled_new :: scaled where
  "scaled_new = \<lparr> scaled_pending = 0 \<rparr>"

definition saturating_add_i64 :: "int \<Rightarrow> int \<Rightarrow> int" where
  "saturating_add_i64 a b = max (- (2 ^ 63)) (min (2 ^ 63 - 1) (a + b))"

definition scaled_take :: "i32 \<Rightarrow> i32 \<Rightarrow> i32 \<Rightarrow> scaled \<Rightarrow> i32 \<times> scaled" where
  "scaled_take value numerator denominator s =
     (if sint denominator \<le> 0 then (0, s)
      else let product = sint value * sint numerator;
               pending = max i32_min (min i32_max
                           (saturating_add_i64 (sint (scaled_pending s)) product));
               whole = pending sdiv sint denominator
           in (word_of_int whole,
               s \<lparr> scaled_pending := word_of_int (pending - whole * sint denominator) \<rparr>))"

record scroll_accumulator =
  acc_x :: scaled
  acc_y :: scaled

definition accumulator_new :: scroll_accumulator where
  "accumulator_new = \<lparr> acc_x = scaled_new, acc_y = scaled_new \<rparr>"

definition take_scaled ::
  "scroll_delta \<Rightarrow> i32 \<Rightarrow> i32 \<Rightarrow> i32 \<Rightarrow> scroll_accumulator \<Rightarrow> (i32 \<times> i32) \<times> scroll_accumulator" where
  "take_scaled delta numerator denominator_x denominator_y acc =
     (let (wx, sx) = scaled_take (scroll_dx delta) numerator denominator_x (acc_x acc);
          (wy, sy) = scaled_take (scroll_dy delta) numerator denominator_y (acc_y acc)
      in ((wx, wy), \<lparr> acc_x = sx, acc_y = sy \<rparr>))"

definition take_lines :: "scroll_delta \<Rightarrow> scroll_accumulator \<Rightarrow> (i32 \<times> i32) \<times> scroll_accumulator" where
  "take_lines delta acc =
     take_scaled delta 1 (word_of_int MILLILINES_PER_LINE) (word_of_int MILLILINES_PER_LINE) acc"

text \<open>The value the code clamps, and what is left of it after one call.\<close>
definition clamped_sum :: "i32 \<Rightarrow> i32 \<Rightarrow> scaled \<Rightarrow> int" where
  "clamped_sum value numerator s =
     max i32_min (min i32_max (sint (scaled_pending s) + sint value * sint numerator))"

lemma i32_product_fits_i64:
  "\<bar>sint (a :: i32) * sint (b :: i32)\<bar> \<le> 2 ^ 62"
proof -
  have "\<bar>sint a\<bar> \<le> 2147483648" "\<bar>sint b\<bar> \<le> 2147483648"
    using sint_i32_lower [of a] sint_i32_upper [of a] sint_i32_lower [of b] sint_i32_upper [of b]
    by linarith+
  then have "\<bar>sint a\<bar> * \<bar>sint b\<bar> \<le> 2147483648 * 2147483648" by (intro mult_mono) auto
  then show ?thesis by (simp add: abs_mult)
qed

text \<open>The 64-bit sum never saturates: only the clamp to 32 bits acts.\<close>
lemma saturating_add_exact:
  "saturating_add_i64 (sint (p :: i32)) (sint (a :: i32) * sint (b :: i32)) =
   sint p + sint a * sint b"
proof -
  have "sint a * sint b \<le> 4611686018427387904" "- (sint a * sint b) \<le> 4611686018427387904"
    using i32_product_fits_i64 [of a b] by (simp_all add: abs_le_iff)
  moreover have "i32_min \<le> sint p" "sint p \<le> i32_max" by simp_all
  ultimately have "- (9223372036854775808) \<le> sint p + sint a * sint b"
    "sint p + sint a * sint b \<le> 9223372036854775808 - 1" by linarith+
  moreover have "(2 :: int) ^ 63 = 9223372036854775808" by simp
  ultimately have "- (2 ^ 63) \<le> sint p + sint a * sint b" "sint p + sint a * sint b \<le> 2 ^ 63 - 1"
    by (simp_all only:)
  then show ?thesis by (simp only: saturating_add_i64_def min_absorb2 max_absorb2)
qed

lemma abs_sdiv_le: "0 < b \<Longrightarrow> \<bar>a sdiv b\<bar> \<le> \<bar>a :: int\<bar>"
  using zdiv_mono2 [of "\<bar>a\<bar>" 1 b] by (simp add: abs_sdiv)

lemma scaled_take_exact:
  assumes "0 < sint d"
  shows "sint (fst (scaled_take v n d s)) = clamped_sum v n s sdiv sint d"
    "sint (scaled_pending (snd (scaled_take v n d s))) =
       clamped_sum v n s - (clamped_sum v n s sdiv sint d) * sint d"
proof -
  let ?c = "clamped_sum v n s"
  have c: "i32_min \<le> ?c" "?c \<le> i32_max" by (auto simp: clamped_sum_def)
  have whole: "\<bar>?c sdiv sint d\<bar> \<le> \<bar>?c\<bar>" using assms by (rule abs_sdiv_le)
  have ge: "?c sdiv sint d = ?c div sint d" "0 \<le> ?c" if "0 \<le> ?c" using that assms
    by (simp_all add: sdiv_nonneg)
  have w: "i32_min \<le> ?c sdiv sint d" "?c sdiv sint d \<le> i32_max"
  proof -
    show "i32_min \<le> ?c sdiv sint d" using whole c by linarith
    show "?c sdiv sint d \<le> i32_max"
    proof (cases "0 \<le> ?c")
      case True then show ?thesis using whole c by linarith
    next
      case False
      then have "?c sdiv sint d \<le> 0" using assms by (simp add: sdiv_neg pos_imp_zdiv_nonneg_iff)
      then show ?thesis by linarith
    qed
  qed
  have r: "\<bar>?c - (?c sdiv sint d) * sint d\<bar> < sint d" by (rule sdiv_rem_bound [OF assms])
  have rb: "i32_min \<le> ?c - (?c sdiv sint d) * sint d" "?c - (?c sdiv sint d) * sint d \<le> i32_max"
    using r sint_i32_upper [of d] by linarith+
  show "sint (fst (scaled_take v n d s)) = ?c sdiv sint d"
    using assms w by (simp add: scaled_take_def Let_def saturating_add_exact
        clamped_sum_def [symmetric] sint_word_of_int_i32)
  show "sint (scaled_pending (snd (scaled_take v n d s))) = ?c - (?c sdiv sint d) * sint d"
    using assms rb by (simp add: scaled_take_def Let_def saturating_add_exact
        clamped_sum_def [symmetric] sint_word_of_int_i32 del: of_int_diff of_int_mult)
qed

text \<open>One call: what was pending plus what came in is what goes out plus what stays pending, and
  less than one whole unit stays.\<close>
lemma scaled_take_conserves:
  assumes "0 < sint d"
    and "\<bar>sint (scaled_pending s) + sint v * sint n\<bar> \<le> i32_max"
  shows "sint (fst (scaled_take v n d s)) * sint d + sint (scaled_pending (snd (scaled_take v n d s)))
      = sint (scaled_pending s) + sint v * sint n"
    "\<bar>sint (scaled_pending (snd (scaled_take v n d s)))\<bar> < sint d"
proof -
  have "clamped_sum v n s = sint (scaled_pending s) + sint v * sint n"
    using assms(2) by (auto simp: clamped_sum_def)
  then show "sint (fst (scaled_take v n d s)) * sint d +
      sint (scaled_pending (snd (scaled_take v n d s))) = sint (scaled_pending s) + sint v * sint n"
    using scaled_take_exact [OF assms(1), of v n s] by simp
  show "\<bar>sint (scaled_pending (snd (scaled_take v n d s)))\<bar> < sint d"
    unfolding scaled_take_exact [OF assms(1)] by (rule sdiv_rem_bound [OF assms(1)])
qed

lemma scaled_take_sign:
  assumes "0 < sint d"
  shows "0 \<le> clamped_sum v n s \<Longrightarrow> 0 \<le> sint (scaled_pending (snd (scaled_take v n d s)))"
    "clamped_sum v n s \<le> 0 \<Longrightarrow> sint (scaled_pending (snd (scaled_take v n d s))) \<le> 0"
proof -
  assume "0 \<le> clamped_sum v n s"
  then show "0 \<le> sint (scaled_pending (snd (scaled_take v n d s)))"
    unfolding scaled_take_exact [OF assms] using assms
    by (simp add: sdiv_nonneg minus_div_mult_eq_mod)
next
  assume "clamped_sum v n s \<le> 0"
  then have "clamped_sum v n s sdiv sint d = - ((- clamped_sum v n s) div sint d)"
    using sdiv_minus_left [of "- clamped_sum v n s" "sint d"]
      sdiv_nonneg [of "- clamped_sum v n s" "sint d"] assms by simp
  moreover have "(- clamped_sum v n s) div sint d * sint d \<le> - clamped_sum v n s"
    using assms pos_mod_sign [of "sint d" "- clamped_sum v n s"]
      div_mult_mod_eq [of "- clamped_sum v n s" "sint d"] by linarith
  ultimately show "sint (scaled_pending (snd (scaled_take v n d s))) \<le> 0"
    unfolding scaled_take_exact [OF assms] by simp
qed

section \<open>A whole stream\<close>

text \<open>Feeding a list of movements, collecting the whole units.\<close>
fun take_all :: "i32 list \<Rightarrow> i32 \<Rightarrow> i32 \<Rightarrow> scaled \<Rightarrow> i32 list \<times> scaled" where
  "take_all [] n d s = ([], s)"
| "take_all (v # vs) n d s =
     (let (w, s) = scaled_take v n d s; (ws, s) = take_all vs n d s in (w # ws, s))"

lemma take_all_conserves:
  assumes "0 < sint d" "\<bar>sint (scaled_pending s)\<bar> < sint d"
    and "\<And>v. v \<in> set vs \<Longrightarrow> \<bar>sint v * sint n\<bar> + sint d \<le> i32_max"
  shows "(\<Sum>w\<leftarrow>fst (take_all vs n d s). sint w) * sint d + sint (scaled_pending (snd (take_all vs n d s)))
      = sint (scaled_pending s) + (\<Sum>v\<leftarrow>vs. sint v) * sint n \<and>
    \<bar>sint (scaled_pending (snd (take_all vs n d s)))\<bar> < sint d"
  using assms(2,3)
proof (induction vs arbitrary: s)
  case Nil
  then show ?case by simp
next
  case (Cons v vs)
  obtain w s1 where ws: "scaled_take v n d s = (w, s1)" by (cases "scaled_take v n d s")
  obtain us s2 where us: "take_all vs n d s1 = (us, s2)" by (cases "take_all vs n d s1")
  have "\<bar>sint v * sint n\<bar> + sint d \<le> i32_max" using Cons.prems(2) by simp
  then have "\<bar>sint (scaled_pending s) + sint v * sint n\<bar> \<le> i32_max"
    using Cons.prems(1) by linarith
  note one = scaled_take_conserves [OF assms(1) this]
  have "\<bar>sint (scaled_pending s1)\<bar> < sint d" using one(2) ws by simp
  then have "(\<Sum>w\<leftarrow>us. sint w) * sint d + sint (scaled_pending s2) =
      sint (scaled_pending s1) + (\<Sum>v\<leftarrow>vs. sint v) * sint n \<and> \<bar>sint (scaled_pending s2)\<bar> < sint d"
    using Cons.IH [of s1] Cons.prems(2) us by simp
  moreover have "sint w * sint d + sint (scaled_pending s1) = sint (scaled_pending s) + sint v * sint n"
    using one(1) ws by simp
  ultimately show ?case using ws us by (simp add: algebra_simps)
qed

section \<open>Desktop coordinates\<close>

record desktop_bounds =
  origin_x :: i32
  origin_y :: i32
  desktop_width :: u32
  desktop_height :: u32

definition to_desktop :: "desktop_bounds \<Rightarrow> i32 \<times> i32 \<Rightarrow> i32 \<times> i32" where
  "to_desktop b p = (fst p - origin_x b, snd p - origin_y b)"

definition to_screen :: "desktop_bounds \<Rightarrow> i32 \<times> i32 \<Rightarrow> i32 \<times> i32" where
  "to_screen b p = (fst p + origin_x b, snd p + origin_y b)"

definition desktop_size :: "desktop_bounds \<Rightarrow> u32 \<times> u32" where
  "desktop_size b = (desktop_width b, desktop_height b)"

lemma to_screen_to_desktop [simp]: "to_screen b (to_desktop b p) = p"
  by (simp add: to_screen_def to_desktop_def)

lemma to_desktop_to_screen [simp]: "to_desktop b (to_screen b p) = p"
  by (simp add: to_screen_def to_desktop_def)

section \<open>Properties\<close>

text \<open>No scrolling is lost, invented or turned around: over any sequence of movements that do
  not overflow, the whole units given out and what is still pending add up to exactly what was fed
  in, and less than one unit is pending at the end.\<close>
theorem scrolling_is_conserved:
  assumes "0 < sint d"
    and "\<And>v. v \<in> set vs \<Longrightarrow> \<bar>sint v * sint n\<bar> + sint d \<le> i32_max"
    and "take_all vs n d scaled_new = (ws, s)"
  shows "(\<Sum>w\<leftarrow>ws. sint w) * sint d + sint (scaled_pending s) = (\<Sum>v\<leftarrow>vs. sint v) * sint n \<and>
    \<bar>sint (scaled_pending s)\<bar> < sint d"
  using take_all_conserves [OF assms(1), of scaled_new vs n] assms by (simp add: scaled_new_def)

lemma scrolling_is_conserved_witness:
  "\<exists>ws s. take_all [400, 400, - 100, 400] 1 1000 scaled_new = (ws, s) \<and>
     (\<Sum>w\<leftarrow>ws. sint w) * 1000 + sint (scaled_pending s) = 1100"
proof -
  obtain ws s where ws: "take_all [400, 400, - 100, 400] 1 1000 scaled_new = (ws, s)"
    by (cases "take_all [400, 400, - 100, 400] 1 1000 scaled_new")
  have "(\<Sum>w\<leftarrow>ws. sint w) * sint (1000 :: i32) + sint (scaled_pending s) =
      (\<Sum>v\<leftarrow>[400, 400, - 100, 400 :: i32]. sint v) * sint (1 :: i32)"
    by (rule scrolling_is_conserved [OF _ _ ws, THEN conjunct1]) auto
  with ws show ?thesis by simp
qed

text \<open>Whatever a peer sends, one call neither overflows nor misbehaves: it returns the exact
  quotient of the clamped sum, what stays pending is the exact remainder, smaller than a unit and
  never against the direction of the sum, and with no meaningful denominator it returns
  nothing and keeps what was pending.\<close>
theorem scaled_take_total:
  "(if sint d \<le> 0 then scaled_take v n d s = (0, s)
    else sint (fst (scaled_take v n d s)) = clamped_sum v n s sdiv sint d \<and>
      sint (scaled_pending (snd (scaled_take v n d s))) =
        clamped_sum v n s - (clamped_sum v n s sdiv sint d) * sint d \<and>
      \<bar>sint (scaled_pending (snd (scaled_take v n d s)))\<bar> < sint d \<and>
      (0 \<le> clamped_sum v n s \<longrightarrow> 0 \<le> sint (scaled_pending (snd (scaled_take v n d s)))) \<and>
      (clamped_sum v n s \<le> 0 \<longrightarrow> sint (scaled_pending (snd (scaled_take v n d s))) \<le> 0))"
proof (cases "sint d \<le> 0")
  case True
  then show ?thesis by (simp add: scaled_take_def)
next
  case False
  then have d: "0 < sint d" by simp
  show ?thesis
    using False scaled_take_exact [OF d, of v n s] scaled_take_sign [OF d, of v n s]
      sdiv_rem_bound [OF d, of "clamped_sum v n s"] by simp
qed

lemma scaled_take_total_witness:
  "sint (fst (scaled_take (- 1) 120 1000 \<lparr> scaled_pending = 0 \<rparr>)) = 0 \<and>
   sint (scaled_pending (snd (scaled_take (- 1) 120 1000 \<lparr> scaled_pending = 0 \<rparr>))) = - 120"
  using scaled_take_total [of 1000 "- 1" 120 "\<lparr> scaled_pending = 0 \<rparr>"]
  by (simp add: clamped_sum_def signed_divide_int_def)

end
