(* ===== verification/InputPorts.thy ===== *)
theory InputPorts
  imports Scroll
begin

text \<open>
  The ports of \<^verbatim>\<open>crates/omni-input\<close> (\<^verbatim>\<open>port.rs\<close>), the in-memory adapters of \<^verbatim>\<open>memory.rs\<close>, and what the
  platform adapters share: the queue between the capturing thread and \<^verbatim>\<open>poll\<close>, and the byte of held
  modifiers.  The contract of a source is the locale \<open>input_source\<close>; every adapter's \<^verbatim>\<open>poll\<close> is an
  interpretation of it.
\<close>

unbundle bit_operations_syntax

section \<open>The contract of a source\<close>

text \<open>What is waiting comes out once, in order; when nothing is, a poll changes nothing.\<close>
locale input_source =
  fixes poll :: "'s \<Rightarrow> ('e + input_event option) \<times> 's"
    and waiting :: "'s \<Rightarrow> input_event list"
  assumes poll_some: "waiting s = ev # evs \<Longrightarrow> fst (poll s) = Inr (Some ev) \<and> waiting (snd (poll s)) = evs"
    and poll_none: "waiting s = [] \<Longrightarrow> snd (poll s) = s \<and> (\<forall>ev. fst (poll s) \<noteq> Inr (Some ev))"
begin

lemma drains:
  "waiting s = evs @ rest \<Longrightarrow> fst (recv_times poll (length evs) s) = map (\<lambda>ev. Inr (Some ev)) evs \<and>
     waiting (snd (recv_times poll (length evs) s)) = rest"
proof (induction evs arbitrary: s)
  case Nil
  then show ?case by simp
next
  case (Cons ev evs)
  then have "waiting s = ev # evs @ rest" by simp
  from poll_some [OF this] obtain s' where "poll s = (Inr (Some ev), s')" "waiting s' = evs @ rest"
    by (cases "poll s") auto
  then show ?case using Cons.IH [of s'] by (auto split: prod.splits)
qed

lemma poll_yields_waiting: "fst (poll s) = Inr (Some ev) \<Longrightarrow> \<exists>evs. waiting s = ev # evs"
  using poll_some poll_none by (cases "waiting s") force+

end

section \<open>The in-memory adapters\<close>

record queued_source =
  qs_queue :: "input_event list"

definition queued_new :: queued_source where "queued_new = \<lparr> qs_queue = [] \<rparr>"
definition queued_from_events :: "input_event list \<Rightarrow> queued_source" where
  "queued_from_events evs = \<lparr> qs_queue = evs \<rparr>"
definition queued_push :: "input_event \<Rightarrow> queued_source \<Rightarrow> queued_source" where
  "queued_push ev s = s \<lparr> qs_queue := qs_queue s @ [ev] \<rparr>"
definition queued_len :: "queued_source \<Rightarrow> nat" where "queued_len s = length (qs_queue s)"
definition queued_is_empty :: "queued_source \<Rightarrow> bool" where "queued_is_empty s \<longleftrightarrow> qs_queue s = []"

definition queued_poll :: "queued_source \<Rightarrow> (infallible + input_event option) \<times> queued_source" where
  "queued_poll s = (case qs_queue s of
      [] \<Rightarrow> (Inr None, s)
    | ev # evs \<Rightarrow> (Inr (Some ev), s \<lparr> qs_queue := evs \<rparr>))"

interpretation queued: input_source queued_poll qs_queue
  by unfold_locales (auto simp: queued_poll_def)

record recording_sink =
  rs_injected :: "input_event list"

definition recording_sink_new :: recording_sink where "recording_sink_new = \<lparr> rs_injected = [] \<rparr>"

definition recording_inject :: "input_event \<Rightarrow> recording_sink \<Rightarrow> (infallible + unit) \<times> recording_sink" where
  "recording_inject ev s = (Inr (), s \<lparr> rs_injected := rs_injected s @ [ev] \<rparr>)"

text \<open>What a sink that cannot position, and a source with nothing to withhold, do: nothing.\<close>
definition sink_default_warp :: "i32 \<Rightarrow> i32 \<Rightarrow> 's \<Rightarrow> ('e + unit) \<times> 's" where
  "sink_default_warp x y s = (Inr (), s)"

definition source_default_set_suppressed :: "bool \<Rightarrow> 's \<Rightarrow> 's" where
  "source_default_set_suppressed suppressed s = s"

section \<open>The queue of a capturing thread\<close>

text \<open>An \<^verbatim>\<open>mpsc\<close> channel: the events sent and not yet polled, and whether a sender is left.\<close>
record capture_queue =
  cq_events :: "input_event list"
  cq_alive :: bool

definition capture_poll :: "'e \<Rightarrow> capture_queue \<Rightarrow> ('e + input_event option) \<times> capture_queue" where
  "capture_poll stopped q = (case cq_events q of
      ev # evs \<Rightarrow> (Inr (Some ev), q \<lparr> cq_events := evs \<rparr>)
    | [] \<Rightarrow> (if cq_alive q then Inr None else Inl stopped, q))"

definition capture_send :: "input_event \<Rightarrow> capture_queue \<Rightarrow> capture_queue" where
  "capture_send ev q = q \<lparr> cq_events := cq_events q @ [ev] \<rparr>"

interpretation capture: input_source "capture_poll stopped" cq_events
  by unfold_locales (auto simp: capture_poll_def)

section \<open>Held modifiers\<close>

definition held_of_bits :: "u8 \<Rightarrow> modifiers" where
  "held_of_bits bits =
     (let r = MOD_NONE;
          r = (if bits AND 1 \<noteq> 0 then mods_with r SHIFT else r);
          r = (if bits AND 2 \<noteq> 0 then mods_with r CONTROL else r);
          r = (if bits AND 4 \<noteq> 0 then mods_with r ALT else r)
      in if bits AND 8 \<noteq> 0 then mods_with r META else r)"

lemma and_power_bit: "(w :: u8) AND 2 ^ n \<noteq> 0 \<longleftrightarrow> bit w n"
  by (auto simp: bit_iff_and_push_bit_not_eq_0 push_bit_of_1 push_bit_eq_mult)

lemma bit_held_of_bits: "bit (modifier_bits (held_of_bits bits)) i \<longleftrightarrow> i < 4 \<and> bit bits i"
proof -
  have "bits AND 1 \<noteq> 0 \<longleftrightarrow> bit bits 0" "bits AND 2 \<noteq> 0 \<longleftrightarrow> bit bits 1"
    "bits AND 4 \<noteq> 0 \<longleftrightarrow> bit bits 2" "bits AND 8 \<noteq> 0 \<longleftrightarrow> bit bits 3"
    using and_power_bit [of bits 0] and_power_bit [of bits 1] and_power_bit [of bits 2]
      and_power_bit [of bits 3] by simp_all
  then have b: "bit (modifier_bits (held_of_bits bits)) i \<longleftrightarrow>
      (i = 0 \<and> bit bits 0) \<or> (i = 1 \<and> bit bits 1) \<or> (i = 2 \<and> bit bits 2) \<or> (i = 3 \<and> bit bits 3)"
    by (simp add: held_of_bits_def Let_def bits_of_mods bits_of_modifier)
  have "i < 4 \<longleftrightarrow> i \<in> {0, 1, 2, 3}" by auto
  then show ?thesis unfolding b by auto
qed

text \<open>Recording a modifier key in a byte of held modifiers, as the capturing threads do.\<close>
definition record_mask :: "u8 option \<Rightarrow> action \<Rightarrow> u8 \<Rightarrow> u8" where
  "record_mask bm act held = (case bm of
      None \<Rightarrow> held
    | Some b \<Rightarrow> (case act of Press \<Rightarrow> held OR b | Release \<Rightarrow> held AND NOT b))"

text \<open>The same on the protocol's side: what a key event says about the modifiers held after it.\<close>
definition record_modifier :: "key_code \<Rightarrow> action \<Rightarrow> modifiers \<Rightarrow> modifiers" where
  "record_modifier code act held = (case key_modifier code of
      None \<Rightarrow> held
    | Some m \<Rightarrow> (case act of Press \<Rightarrow> mods_with held m | Release \<Rightarrow> mods_without held m))"

lemma record_mask_modifier:
  assumes "bm = map_option modifier_bits (key_modifier code)"
  shows "held_of_bits (record_mask bm act held) = record_modifier code act (held_of_bits held)"
proof (rule modifiers_eqI)
  fix i
  have "bit (modifier_bits m) i \<Longrightarrow> i < 4" if "key_modifier code = Some m" for m
    using that by (auto simp: key_modifier_def Let_def bits_of_modifier split: if_splits)
  then show "bit (modifier_bits (held_of_bits (record_mask bm act held))) i =
      bit (modifier_bits (record_modifier code act (held_of_bits held))) i"
    using assms
    by (auto simp: bit_held_of_bits record_mask_def record_modifier_def bits_of_mods bit_or_iff
        bit_and_iff bit_not_iff split: option.splits action.splits dest: bit_u8_less)
qed

text \<open>Following a stream of events, and whether each key event carries what was held with it.\<close>
fun held_after :: "modifiers \<Rightarrow> input_event list \<Rightarrow> modifiers" where
  "held_after held [] = held"
| "held_after held (Key code act m # evs) = held_after (record_modifier code act held) evs"
| "held_after held (ev # evs) = held_after held evs"

fun carries_held :: "modifiers \<Rightarrow> input_event list \<Rightarrow> bool" where
  "carries_held held [] \<longleftrightarrow> True"
| "carries_held held (Key code act m # evs) \<longleftrightarrow>
     m = record_modifier code act held \<and> carries_held (record_modifier code act held) evs"
| "carries_held held (ev # evs) \<longleftrightarrow> carries_held held evs"

lemma held_after_append: "held_after held (xs @ ys) = held_after (held_after held xs) ys"
  by (induction held xs rule: held_after.induct) auto

lemma carries_held_append:
  "carries_held held (xs @ ys) \<longleftrightarrow> carries_held held xs \<and> carries_held (held_after held xs) ys"
  by (induction held xs rule: held_after.induct) auto

end
