(* ===== verification/Keymaps.thy ===== *)
theory Keymaps
  imports Protocol
begin

text \<open>
  The key tables of the three platform adapters under \<^verbatim>\<open>crates/omni-input/src\<close>:
  \<^verbatim>\<open>linux/keymap.rs\<close>, \<^verbatim>\<open>windows/keymap.rs\<close> and \<^verbatim>\<open>macos/keymap.rs\<close>.  Every table is a list of
  pairs of a native key code and a HID usage, scanned in both directions.  The locale
  \<open>key_table\<close> states what such a table needs (no code and no usage twice) and proves once that
  the two directions are inverse; it is interpreted on each of the three tables.
\<close>

section \<open>Scanning a table in both directions\<close>

definition hid_of_native :: "(u16 \<times> u32) list \<Rightarrow> u16 \<Rightarrow> key_code option" where
  "hid_of_native table code =
     map_option (\<lambda>(_, hid). KeyCode hid) (List.find (\<lambda>(c, _). c = code) table)"

definition native_of_hid :: "(u16 \<times> u32) list \<Rightarrow> key_code \<Rightarrow> u16 option" where
  "native_of_hid table code =
     map_option fst (List.find (\<lambda>(_, hid). hid = key_value code) table)"

lemma distinct_uint: "distinct (map uint ws) \<Longrightarrow> distinct ws"
  by (simp add: distinct_map)

lemma find_eq_Some_distinct:
  assumes "distinct (map g xs)" "x \<in> set xs"
  shows "List.find (\<lambda>y. g y = g x) xs = Some x"
  using assms
proof (induction xs)
  case Nil
  then show ?case by simp
next
  case (Cons a xs)
  show ?case
  proof (cases "a = x")
    case False
    then have "x \<in> set xs" using Cons.prems by simp
    then have "g x \<in> g ` set xs" by simp
    then have "g a \<noteq> g x" using Cons.prems(1) by auto
    then show ?thesis using Cons False by simp
  qed simp
qed

text \<open>The laws of a table: no native code and no HID usage is listed twice.\<close>
locale key_table =
  fixes table :: "(u16 \<times> u32) list"
  assumes natives_distinct: "distinct (map fst table)"
    and usages_distinct: "distinct (map snd table)"
begin

lemma hid_of_native_iff:
  "hid_of_native table c = Some k \<longleftrightarrow> (c, key_value k) \<in> set table"
proof
  assume "hid_of_native table c = Some k"
  then obtain p where p: "List.find (\<lambda>(x, _). x = c) table = Some p" "k = KeyCode (snd p)"
    by (auto simp: hid_of_native_def)
  then have "p \<in> set table" "fst p = c"
    by (auto simp: find_Some_iff case_prod_beta)
  with p(2) show "(c, key_value k) \<in> set table" by (metis key_code.sel prod.collapse)
next
  assume "(c, key_value k) \<in> set table"
  from find_eq_Some_distinct [OF natives_distinct this]
  show "hid_of_native table c = Some k"
    by (cases k) (simp add: hid_of_native_def case_prod_unfold)
qed

lemma native_of_hid_iff:
  "native_of_hid table k = Some c \<longleftrightarrow> (c, key_value k) \<in> set table"
proof
  assume "native_of_hid table k = Some c"
  then obtain p where p: "List.find (\<lambda>(_, h). h = key_value k) table = Some p" "c = fst p"
    by (auto simp: native_of_hid_def)
  then have "p \<in> set table" "snd p = key_value k"
    by (auto simp: find_Some_iff case_prod_beta)
  with p(2) show "(c, key_value k) \<in> set table" by (metis prod.collapse)
next
  assume "(c, key_value k) \<in> set table"
  from find_eq_Some_distinct [OF usages_distinct this]
  show "native_of_hid table k = Some c"
    by (simp add: native_of_hid_def case_prod_unfold)
qed

lemma round_trip: "hid_of_native table c = Some k \<longleftrightarrow> native_of_hid table k = Some c"
  by (simp add: hid_of_native_iff native_of_hid_iff)

end

section \<open>Linux\<close>

definition EVDEV_HID :: "(u16 \<times> u32) list" where
  "EVDEV_HID =
     [
      (1, 0x29), (2, 0x1E), (3, 0x1F), (4, 0x20), (5, 0x21), (6, 0x22),
      (7, 0x23), (8, 0x24), (9, 0x25), (10, 0x26), (11, 0x27), (12, 0x2D),
      (13, 0x2E), (14, 0x2A), (15, 0x2B), (16, 0x14), (17, 0x1A), (18, 0x08),
      (19, 0x15), (20, 0x17), (21, 0x1C), (22, 0x18), (23, 0x0C), (24, 0x12),
      (25, 0x13), (26, 0x2F), (27, 0x30), (28, 0x28), (29, 0xE0), (30, 0x04),
      (31, 0x16), (32, 0x07), (33, 0x09), (34, 0x0A), (35, 0x0B), (36, 0x0D),
      (37, 0x0E), (38, 0x0F), (39, 0x33), (40, 0x34), (41, 0x35), (42, 0xE1),
      (43, 0x31), (44, 0x1D), (45, 0x1B), (46, 0x06), (47, 0x19), (48, 0x05),
      (49, 0x11), (50, 0x10), (51, 0x36), (52, 0x37), (53, 0x38), (54, 0xE5),
      (55, 0x55), (56, 0xE2), (57, 0x2C), (58, 0x39), (59, 0x3A), (60, 0x3B),
      (61, 0x3C), (62, 0x3D), (63, 0x3E), (64, 0x3F), (65, 0x40), (66, 0x41),
      (67, 0x42), (68, 0x43), (69, 0x53), (70, 0x47), (71, 0x5F), (72, 0x60),
      (73, 0x61), (74, 0x56), (75, 0x5C), (76, 0x5D), (77, 0x5E), (78, 0x57),
      (79, 0x59), (80, 0x5A), (81, 0x5B), (82, 0x62), (83, 0x63), (86, 0x64),
      (87, 0x44), (88, 0x45), (96, 0x58), (97, 0xE4), (98, 0x54), (99, 0x46),
      (100, 0xE6), (102, 0x4A), (103, 0x52), (104, 0x4B), (105, 0x50), (106, 0x4F),
      (107, 0x4D), (108, 0x51), (109, 0x4E), (110, 0x49), (111, 0x4C), (117, 0x67),
      (119, 0x48), (125, 0xE3), (126, 0xE7), (127, 0x65), (183, 0x68), (184, 0x69),
      (185, 0x6A), (186, 0x6B), (187, 0x6C), (188, 0x6D), (189, 0x6E), (190, 0x6F)
     ]"

definition hid_from_evdev :: "u16 \<Rightarrow> key_code option" where
  "hid_from_evdev code = hid_of_native EVDEV_HID code"

definition evdev_from_hid :: "key_code \<Rightarrow> u16 option" where
  "evdev_from_hid code = native_of_hid EVDEV_HID code"

definition injectable_keys :: "u16 list" where
  "injectable_keys = map fst EVDEV_HID"

interpretation linux_keys: key_table EVDEV_HID
  by unfold_locales (rule distinct_uint, simp add: EVDEV_HID_def)+

section \<open>macOS\<close>

definition MAC_VK_HID :: "(u16 \<times> u32) list" where
  "MAC_VK_HID =
     [
      (0, 0x04), (11, 0x05), (8, 0x06), (2, 0x07), (14, 0x08), (3, 0x09),
      (5, 0x0A), (4, 0x0B), (34, 0x0C), (38, 0x0D), (40, 0x0E), (37, 0x0F),
      (46, 0x10), (45, 0x11), (31, 0x12), (35, 0x13), (12, 0x14), (15, 0x15),
      (1, 0x16), (17, 0x17), (32, 0x18), (9, 0x19), (13, 0x1A), (7, 0x1B),
      (16, 0x1C), (6, 0x1D), (18, 0x1E), (19, 0x1F), (20, 0x20), (21, 0x21),
      (23, 0x22), (22, 0x23), (26, 0x24), (28, 0x25), (25, 0x26), (29, 0x27),
      (36, 0x28), (53, 0x29), (51, 0x2A), (48, 0x2B), (49, 0x2C), (27, 0x2D),
      (24, 0x2E), (33, 0x2F), (30, 0x30), (42, 0x31), (41, 0x33), (39, 0x34),
      (50, 0x35), (43, 0x36), (47, 0x37), (44, 0x38), (57, 0x39), (10, 0x64),
      (110, 0x65), (122, 0x3A), (120, 0x3B), (99, 0x3C), (118, 0x3D), (96, 0x3E),
      (97, 0x3F), (98, 0x40), (100, 0x41), (101, 0x42), (109, 0x43), (103, 0x44),
      (111, 0x45), (105, 0x68), (107, 0x69), (113, 0x6A), (106, 0x6B), (64, 0x6C),
      (79, 0x6D), (80, 0x6E), (90, 0x6F), (114, 0x49), (115, 0x4A), (116, 0x4B),
      (117, 0x4C), (119, 0x4D), (121, 0x4E), (124, 0x4F), (123, 0x50), (125, 0x51),
      (126, 0x52), (71, 0x53), (75, 0x54), (67, 0x55), (78, 0x56), (69, 0x57),
      (76, 0x58), (83, 0x59), (84, 0x5A), (85, 0x5B), (86, 0x5C), (87, 0x5D),
      (88, 0x5E), (89, 0x5F), (91, 0x60), (92, 0x61), (82, 0x62), (65, 0x63),
      (81, 0x67), (59, 0xE0), (56, 0xE1), (58, 0xE2), (55, 0xE3), (62, 0xE4),
      (60, 0xE5), (61, 0xE6), (54, 0xE7)
     ]"

definition mac_hid_from_vk :: "u16 \<Rightarrow> key_code option" where
  "mac_hid_from_vk vk = hid_of_native MAC_VK_HID vk"

definition mac_vk_from_hid :: "key_code \<Rightarrow> u16 option" where
  "mac_vk_from_hid code = native_of_hid MAC_VK_HID code"

interpretation mac_keys: key_table MAC_VK_HID
  by unfold_locales (rule distinct_uint, simp add: MAC_VK_HID_def)+

section \<open>Windows\<close>

definition VK_RETURN :: u16 where "VK_RETURN = 0x0D"

definition WIN_VK_HID :: "(u16 \<times> u32) list" where
  "WIN_VK_HID =
     [
      (0x41, 0x04), (0x42, 0x05), (0x43, 0x06), (0x44, 0x07), (0x45, 0x08), (0x46, 0x09),
      (0x47, 0x0A), (0x48, 0x0B), (0x49, 0x0C), (0x4A, 0x0D), (0x4B, 0x0E), (0x4C, 0x0F),
      (0x4D, 0x10), (0x4E, 0x11), (0x4F, 0x12), (0x50, 0x13), (0x51, 0x14), (0x52, 0x15),
      (0x53, 0x16), (0x54, 0x17), (0x55, 0x18), (0x56, 0x19), (0x57, 0x1A), (0x58, 0x1B),
      (0x59, 0x1C), (0x5A, 0x1D), (0x31, 0x1E), (0x32, 0x1F), (0x33, 0x20), (0x34, 0x21),
      (0x35, 0x22), (0x36, 0x23), (0x37, 0x24), (0x38, 0x25), (0x39, 0x26), (0x30, 0x27),
      (0x0D, 0x28), (0x1B, 0x29), (0x08, 0x2A), (0x09, 0x2B), (0x20, 0x2C), (0xBD, 0x2D),
      (0xBB, 0x2E), (0xDB, 0x2F), (0xDD, 0x30), (0xDC, 0x31), (0xBA, 0x33), (0xDE, 0x34),
      (0xC0, 0x35), (0xBC, 0x36), (0xBE, 0x37), (0xBF, 0x38), (0x14, 0x39), (0xE2, 0x64),
      (0x5D, 0x65), (0x70, 0x3A), (0x71, 0x3B), (0x72, 0x3C), (0x73, 0x3D), (0x74, 0x3E),
      (0x75, 0x3F), (0x76, 0x40), (0x77, 0x41), (0x78, 0x42), (0x79, 0x43), (0x7A, 0x44),
      (0x7B, 0x45), (0x7C, 0x68), (0x7D, 0x69), (0x7E, 0x6A), (0x7F, 0x6B), (0x80, 0x6C),
      (0x81, 0x6D), (0x82, 0x6E), (0x83, 0x6F), (0x84, 0x70), (0x85, 0x71), (0x86, 0x72),
      (0x87, 0x73), (0x2C, 0x46), (0x91, 0x47), (0x13, 0x48), (0x2D, 0x49), (0x24, 0x4A),
      (0x21, 0x4B), (0x2E, 0x4C), (0x23, 0x4D), (0x22, 0x4E), (0x27, 0x4F), (0x25, 0x50),
      (0x28, 0x51), (0x26, 0x52), (0x90, 0x53), (0x6F, 0x54), (0x6A, 0x55), (0x6D, 0x56),
      (0x6B, 0x57), (0x61, 0x59), (0x62, 0x5A), (0x63, 0x5B), (0x64, 0x5C), (0x65, 0x5D),
      (0x66, 0x5E), (0x67, 0x5F), (0x68, 0x60), (0x69, 0x61), (0x60, 0x62), (0x6E, 0x63),
      (0xA2, 0xE0), (0xA0, 0xE1), (0xA4, 0xE2), (0x5B, 0xE3), (0xA3, 0xE4), (0xA1, 0xE5),
      (0xA5, 0xE6), (0x5C, 0xE7)
     ]"

interpretation win_keys: key_table WIN_VK_HID
  by unfold_locales (rule distinct_uint, simp add: WIN_VK_HID_def)+

record virtual_key =
  vk_code :: u16
  vk_extended :: bool

definition needs_extended_flag :: "u16 \<Rightarrow> bool" where
  "needs_extended_flag vk \<longleftrightarrow> vk \<in>
     {0x21, 0x22, 0x23, 0x24, 0x25, 0x26, 0x27, 0x28, 0x2D, 0x2E, 0xA3, 0xA5, 0x5B, 0x5C, 0x5D,
      0x6F, 0x90, 0x2C}"

definition win_hid_from_vk :: "u16 \<Rightarrow> bool \<Rightarrow> key_code option" where
  "win_hid_from_vk vk extended =
     (if vk = VK_RETURN then Some (if extended then KEYPAD_ENTER else KEY_RETURN)
      else hid_of_native WIN_VK_HID vk)"

definition win_vk_from_hid :: "key_code \<Rightarrow> virtual_key option" where
  "win_vk_from_hid code =
     (if code = KEYPAD_ENTER then Some \<lparr> vk_code = VK_RETURN, vk_extended = True \<rparr>
      else map_option (\<lambda>vk. \<lparr> vk_code = vk, vk_extended = needs_extended_flag vk \<rparr>)
             (native_of_hid WIN_VK_HID code))"

section \<open>Properties\<close>

text \<open>On Linux and macOS the two directions of the key table are inverse to each other: a key
  is carried under a usage exactly when that usage is injected as that key.\<close>
theorem key_tables_round_trip:
  "(hid_from_evdev c = Some k \<longleftrightarrow> evdev_from_hid k = Some c) \<and>
   (mac_hid_from_vk v = Some k \<longleftrightarrow> mac_vk_from_hid k = Some v) \<and>
   (c \<in> set injectable_keys \<longleftrightarrow> hid_from_evdev c \<noteq> None)"
proof -
  have "c \<in> set injectable_keys \<longleftrightarrow> (\<exists>h. (c, h) \<in> set EVDEV_HID)"
    by (force simp: injectable_keys_def)
  also have "\<dots> \<longleftrightarrow> (\<exists>k. hid_from_evdev c = Some k)"
    unfolding hid_from_evdev_def linux_keys.hid_of_native_iff by (metis key_code.sel)
  finally show ?thesis
    using linux_keys.round_trip mac_keys.round_trip
    by (simp add: hid_from_evdev_def evdev_from_hid_def mac_hid_from_vk_def mac_vk_from_hid_def)
qed

lemma key_not_in_win_table: "key_value KEYPAD_ENTER \<notin> snd ` set WIN_VK_HID"
  by (simp add: KEYPAD_ENTER_def WIN_VK_HID_def)

lemma return_in_win_table: "(VK_RETURN, key_value KEY_RETURN) \<in> set WIN_VK_HID"
  by (simp add: KEY_RETURN_def VK_RETURN_def WIN_VK_HID_def)

lemma win_table_return:
  "(VK_RETURN, h) \<in> set WIN_VK_HID \<longleftrightarrow> h = key_value KEY_RETURN"
  using return_in_win_table win_keys.hid_of_native_iff [of VK_RETURN "KeyCode h"]
    win_keys.hid_of_native_iff [of VK_RETURN KEY_RETURN] by (metis key_code.sel option.inject)

text \<open>On Windows every usage that is injected as a key is captured from that key again, the
  keypad's Enter and the main one included, and every captured usage can be injected, as the same
  virtual key.\<close>
theorem windows_keys_round_trip:
  "(win_vk_from_hid k = Some v \<longrightarrow> win_hid_from_vk (vk_code v) (vk_extended v) = Some k) \<and>
   (win_hid_from_vk vk e = Some k \<longrightarrow> (\<exists>v. win_vk_from_hid k = Some v \<and> vk_code v = vk))"
proof (intro conjI impI)
  assume v: "win_vk_from_hid k = Some v"
  show "win_hid_from_vk (vk_code v) (vk_extended v) = Some k"
  proof (cases "k = KEYPAD_ENTER")
    case True
    then show ?thesis using v by (auto simp: win_vk_from_hid_def win_hid_from_vk_def)
  next
    case False
    then obtain c where c: "native_of_hid WIN_VK_HID k = Some c"
      and v': "v = \<lparr> vk_code = c, vk_extended = needs_extended_flag c \<rparr>"
      using v by (auto simp: win_vk_from_hid_def)
    show ?thesis
    proof (cases "c = VK_RETURN")
      case True
      then have "key_value k = key_value KEY_RETURN"
        using c win_table_return by (simp add: win_keys.native_of_hid_iff)
      then have "k = KEY_RETURN" by (simp add: key_code.expand)
      moreover have "\<not> needs_extended_flag VK_RETURN"
        by (simp add: needs_extended_flag_def VK_RETURN_def)
      ultimately show ?thesis using True v' by (simp add: win_hid_from_vk_def)
    next
      case False
      then show ?thesis using c v' win_keys.round_trip by (simp add: win_hid_from_vk_def)
    qed
  qed
next
  assume h: "win_hid_from_vk vk e = Some k"
  show "\<exists>v. win_vk_from_hid k = Some v \<and> vk_code v = vk"
  proof (cases "vk = VK_RETURN")
    case True
    have "native_of_hid WIN_VK_HID KEY_RETURN = Some VK_RETURN"
      using return_in_win_table win_keys.native_of_hid_iff by blast
    then show ?thesis
      using h True by (auto simp: win_hid_from_vk_def win_vk_from_hid_def split: if_splits)
  next
    case False
    then have "native_of_hid WIN_VK_HID k = Some vk"
      using h win_keys.round_trip by (simp add: win_hid_from_vk_def)
    then show ?thesis
      by (cases "k = KEYPAD_ENTER")
        (use key_not_in_win_table win_keys.native_of_hid_iff [of k vk] in
          \<open>force simp: win_vk_from_hid_def\<close>)+
  qed
qed

end
