(* ===== verification/LinuxInput.thy ===== *)
theory LinuxInput
  imports InputPorts Keymaps
begin

text \<open>
  \<^verbatim>\<open>crates/omni-input/src/linux/mod.rs\<close>: capturing through evdev and injecting through uinput.
  Every device has a reader thread; the readers share the byte of held modifiers and the queue, so a
  run is a sequence of raw events, each of one device.  The kernel's devices are arguments.  The
  sums and products are those of the release build, which wraps.
\<close>

unbundle bit_operations_syntax

section \<open>Raw events\<close>

datatype rel_axis = REL_X | REL_Y | REL_WHEEL | REL_HWHEEL | REL_OTHER u16

text \<open>A key with its value (1 a press, 0 a release, 2 a repetition), a movement along an axis, the end
  of a report, and what is ignored.\<close>
datatype evdev_event = EvKey u16 i32 | EvRel rel_axis i32 | EvSyn | EvOther

datatype linux_input_error = NoDevices | LinuxCaptureStopped | InjectFailed

definition UNITS_PER_WHEEL_CLICK :: i32 where
  "UNITS_PER_WHEEL_CLICK = word_of_int MILLILINES_PER_LINE"

definition VIRTUAL_DEVICE_NAME :: string where
  "VIRTUAL_DEVICE_NAME = ''omnipresent-virtual-input''"

definition button_from_evdev :: "u16 \<Rightarrow> mouse_button option" where
  "button_from_evdev code =
     (if code = 0x110 then Some MouseLeft
      else if code = 0x111 then Some MouseRight
      else if code = 0x112 then Some MouseMiddle
      else if code = 0x113 then Some MouseBack
      else if code = 0x114 then Some MouseForward
      else None)"

fun evdev_from_button :: "mouse_button \<Rightarrow> u16 option" where
  "evdev_from_button MouseLeft = Some 0x110"
| "evdev_from_button MouseRight = Some 0x111"
| "evdev_from_button MouseMiddle = Some 0x112"
| "evdev_from_button MouseBack = Some 0x113"
| "evdev_from_button MouseForward = Some 0x114"
| "evdev_from_button (MouseOther n) = None"

definition modifier_mask :: "u16 \<Rightarrow> u8 option" where
  "modifier_mask code =
     (if code = 42 \<or> code = 54 then Some 1
      else if code = 29 \<or> code = 97 then Some 2
      else if code = 56 \<or> code = 100 then Some 4
      else if code = 125 \<or> code = 126 then Some 8
      else None)"

definition update_modifiers :: "u16 \<Rightarrow> action \<Rightarrow> u8 \<Rightarrow> u8" where
  "update_modifiers code act held = record_mask (modifier_mask code) act held"

definition linux_held_modifiers :: "u8 \<Rightarrow> modifiers" where
  "linux_held_modifiers bits = held_of_bits bits"

text \<open>The event, if any, the movement still pending in this report, and the held modifiers.\<close>
definition linux_convert_event ::
  "evdev_event \<Rightarrow> mouse_delta \<Rightarrow> u8 \<Rightarrow> input_event option \<times> mouse_delta \<times> u8" where
  "linux_convert_event raw pending held =
     (case raw of
        EvKey key v \<Rightarrow>
          let act = (if v = 0 then Release else Press) in
          (case button_from_evdev key of
             Some b \<Rightarrow> (Some (Button b act), pending, held)
           | None \<Rightarrow>
               if v = 2 \<and> modifier_mask key \<noteq> None then (None, pending, held)
               else
                 let held = update_modifiers key act held in
                 (case hid_from_evdev key of
                    None \<Rightarrow> (None, pending, held)
                  | Some code \<Rightarrow> (Some (Key code act (linux_held_modifiers held)), pending, held)))
      | EvRel axis v \<Rightarrow>
          (case axis of
             REL_X \<Rightarrow> (None, pending \<lparr> dx := dx pending + v \<rparr>, held)
           | REL_Y \<Rightarrow> (None, pending \<lparr> dy := dy pending + v \<rparr>, held)
           | REL_WHEEL \<Rightarrow> (Some (Scroll \<lparr> scroll_dx = 0, scroll_dy = v * UNITS_PER_WHEEL_CLICK \<rparr>), pending, held)
           | REL_HWHEEL \<Rightarrow> (Some (Scroll \<lparr> scroll_dx = v * UNITS_PER_WHEEL_CLICK, scroll_dy = 0 \<rparr>), pending, held)
           | REL_OTHER n \<Rightarrow> (None, pending, held))
      | EvSyn \<Rightarrow>
          if dx pending \<noteq> 0 \<or> dy pending \<noteq> 0
          then (Some (Motion pending), \<lparr> dx = 0, dy = 0 \<rparr>, held)
          else (None, pending, held)
      | EvOther \<Rightarrow> (None, pending, held))"

section \<open>The source\<close>

text \<open>What a device reports of itself.\<close>
record device_info =
  di_name :: "string option"
  di_keys :: "u16 list option"
  di_axes :: "rel_axis list option"

definition is_keyboard :: "device_info \<Rightarrow> bool" where
  "is_keyboard d \<longleftrightarrow> (case di_keys d of None \<Rightarrow> False | Some ks \<Rightarrow> 30 \<in> set ks)"

definition is_mouse :: "device_info \<Rightarrow> bool" where
  "is_mouse d \<longleftrightarrow> (case di_axes d of None \<Rightarrow> False | Some axes \<Rightarrow> REL_X \<in> set axes) \<and>
     (case di_keys d of None \<Rightarrow> False | Some ks \<Rightarrow> 0x110 \<in> set ks)"

record linux_source =
  ls_queue :: capture_queue
  ls_suppressed :: bool
  ls_held :: u8
  ls_cursor_hidden :: bool

text \<open>\<open>spawned d\<close>: whether the reader thread of device \<open>d\<close> could be started.\<close>
definition linux_source_new ::
  "(device_info \<Rightarrow> bool) \<Rightarrow> device_info list \<Rightarrow> linux_input_error + linux_source" where
  "linux_source_new spawned devices =
     (let readers = filter (\<lambda>d. (is_keyboard d \<or> is_mouse d) \<and> di_name d \<noteq> Some VIRTUAL_DEVICE_NAME \<and> spawned d)
            devices
      in if readers = [] then Inl NoDevices
         else Inr \<lparr> ls_queue = \<lparr> cq_events = [], cq_alive = True \<rparr>, ls_suppressed = False, ls_held = 0,
                    ls_cursor_hidden = False \<rparr>)"

definition linux_poll :: "linux_source \<Rightarrow> (linux_input_error + input_event option) \<times> linux_source" where
  "linux_poll s = (let (r, q) = capture_poll LinuxCaptureStopped (ls_queue s) in (r, s \<lparr> ls_queue := q \<rparr>))"

text \<open>\<open>hide\<close>: whether the X server let the cursor be hidden.\<close>
definition linux_set_suppressed :: "bool \<Rightarrow> bool \<Rightarrow> linux_source \<Rightarrow> linux_source" where
  "linux_set_suppressed hide suppressed s =
     (let was = ls_suppressed s; s = s \<lparr> ls_suppressed := suppressed \<rparr>
      in if suppressed
         then (if \<not> was \<and> \<not> ls_cursor_hidden s then s \<lparr> ls_cursor_hidden := hide \<rparr> else s)
         else s \<lparr> ls_cursor_hidden := False \<rparr>)"

interpretation linux: input_source linux_poll "\<lambda>s. cq_events (ls_queue s)"
  by unfold_locales (auto simp: linux_poll_def capture_poll_def)

section \<open>The readers\<close>

record evdev_reader =
  er_grabbed :: bool
  er_pending :: mouse_delta

definition reader_new :: evdev_reader where
  "reader_new = \<lparr> er_grabbed = False, er_pending = \<lparr> dx = 0, dy = 0 \<rparr> \<rparr>"

text \<open>The grab follows suppression; \<open>granted\<close> is whether the kernel did what it was asked.\<close>
definition reader_grab :: "bool \<Rightarrow> bool \<Rightarrow> evdev_reader \<Rightarrow> evdev_reader" where
  "reader_grab granted want r =
     (if want \<noteq> er_grabbed r \<and> granted then r \<lparr> er_grabbed := want \<rparr> else r)"

fun reader_batch :: "evdev_event list \<Rightarrow> evdev_reader \<Rightarrow> linux_source \<Rightarrow> evdev_reader \<times> linux_source" where
  "reader_batch [] r s = (r, s)"
| "reader_batch (raw # raws) r s =
     (let (ev, pending, held) = linux_convert_event raw (er_pending r) (ls_held s);
          s = s \<lparr> ls_held := held \<rparr>;
          s = (case ev of None \<Rightarrow> s | Some e \<Rightarrow> s \<lparr> ls_queue := capture_send e (ls_queue s) \<rparr>)
      in reader_batch raws (r \<lparr> er_pending := pending \<rparr>) s)"

datatype fetch_result = Fetched "evdev_event list" | Interrupted | DeviceGone

text \<open>One turn of \<^verbatim>\<open>read_device\<close>; the flag is whether the thread goes on.\<close>
definition read_device_turn ::
  "bool \<Rightarrow> fetch_result \<Rightarrow> evdev_reader \<Rightarrow> linux_source \<Rightarrow> bool \<times> evdev_reader \<times> linux_source" where
  "read_device_turn granted fetched r s =
     (let r = reader_grab granted (ls_suppressed s) r in
      case fetched of
        Interrupted \<Rightarrow> (True, r, s)
      | DeviceGone \<Rightarrow> (False, r, s)
      | Fetched batch \<Rightarrow> (let (r, s) = reader_batch batch r s in (True, r, s)))"

section \<open>The sink\<close>

record 'd linux_sink =
  lk_device :: 'd
  lk_scroll :: scroll_accumulator

text \<open>The keys, buttons and axes the virtual device is created with.\<close>
definition uinput_keys :: "u16 list" where
  "uinput_keys = injectable_keys @ [0x110, 0x111, 0x112, 0x113, 0x114]"

definition uinput_axes :: "rel_axis list" where
  "uinput_axes = [REL_X, REL_Y, REL_WHEEL, REL_HWHEEL]"

text \<open>\<open>emit\<close> writes events to the device and says whether that worked.\<close>
definition linux_emit ::
  "(evdev_event list \<Rightarrow> 'd \<Rightarrow> bool \<times> 'd) \<Rightarrow> evdev_event list \<Rightarrow> 'd linux_sink \<Rightarrow>
   (linux_input_error + unit) \<times> 'd linux_sink" where
  "linux_emit emit evs s =
     (let (ok, d) = emit evs (lk_device s)
      in (if ok then Inr () else Inl InjectFailed, s \<lparr> lk_device := d \<rparr>))"

definition linux_warp ::
  "(evdev_event list \<Rightarrow> 'd \<Rightarrow> bool \<times> 'd) \<Rightarrow> i32 \<Rightarrow> i32 \<Rightarrow> 'd linux_sink \<Rightarrow>
   (linux_input_error + unit) \<times> 'd linux_sink" where
  "linux_warp emit x y s =
     (case linux_emit emit [EvRel REL_X (- 65535), EvRel REL_Y (- 65535)] s of
        (Inl e, s) \<Rightarrow> (Inl e, s)
      | (Inr _, s) \<Rightarrow> linux_emit emit [EvRel REL_X x, EvRel REL_Y y] s)"

fun action_value :: "action \<Rightarrow> i32" where
  "action_value Press = 1" | "action_value Release = 0"

definition linux_inject ::
  "(evdev_event list \<Rightarrow> 'd \<Rightarrow> bool \<times> 'd) \<Rightarrow> input_event \<Rightarrow> 'd linux_sink \<Rightarrow>
   (linux_input_error + unit) \<times> 'd linux_sink" where
  "linux_inject emit ev s =
     (case ev of
        Key code act m \<Rightarrow>
          (case evdev_from_hid code of
             None \<Rightarrow> (Inr (), s)
           | Some c \<Rightarrow> linux_emit emit [EvKey c (action_value act)] s)
      | Motion delta \<Rightarrow> linux_emit emit [EvRel REL_X (dx delta), EvRel REL_Y (dy delta)] s
      | Pointer x y \<Rightarrow> linux_warp emit x y s
      | Button b act \<Rightarrow>
          (case evdev_from_button b of
             None \<Rightarrow> (Inr (), s)
           | Some c \<Rightarrow> linux_emit emit [EvKey c (action_value act)] s)
      | Scroll delta \<Rightarrow>
          let ((cx, cy), acc) = take_lines delta (lk_scroll s);
              s = s \<lparr> lk_scroll := acc \<rparr>;
              evs = (if cy \<noteq> 0 then [EvRel REL_WHEEL cy] else []) @
                    (if cx \<noteq> 0 then [EvRel REL_HWHEEL cx] else [])
          in if evs = [] then (Inr (), s) else linux_emit emit evs s)"

section \<open>Captured modifiers\<close>

text \<open>The keys the source counts as modifiers are those whose usage the protocol counts as one.\<close>
lemma modifier_mask_table:
  "list_all (\<lambda>(c, h). modifier_mask c = map_option modifier_bits (key_modifier (KeyCode h))) EVDEV_HID"
  by code_simp

lemma modifier_mask_in_table:
  "list_all (\<lambda>c. c \<in> set (map fst EVDEV_HID)) [42, 54, 29, 97, 56, 100, 125, 126]"
  by code_simp

lemma modifier_mask_agrees:
  "modifier_mask c = map_option modifier_bits (Option.bind (hid_from_evdev c) key_modifier)"
proof (cases "hid_from_evdev c")
  case None
  then have "c \<notin> set (map fst EVDEV_HID)"
    using linux_keys.hid_of_native_iff [of c "KeyCode h" for h] unfolding hid_from_evdev_def by force
  then have "c \<notin> {42, 54, 29, 97, 56, 100, 125, 126}"
    using modifier_mask_in_table by auto
  then show ?thesis using None by (simp add: modifier_mask_def)
next
  case (Some k)
  then have "(c, key_value k) \<in> set EVDEV_HID"
    unfolding hid_from_evdev_def using linux_keys.hid_of_native_iff by simp
  then have "modifier_mask c = map_option modifier_bits (key_modifier (KeyCode (key_value k)))"
    using modifier_mask_table by (auto simp: list_all_iff)
  then show ?thesis using Some by simp
qed

lemma convert_event_held:
  assumes "linux_convert_event raw pending held = (ev, pending', held')"
  shows "carries_held (held_of_bits held) (case ev of None \<Rightarrow> [] | Some e \<Rightarrow> [e]) \<and>
         held_of_bits held' = held_after (held_of_bits held) (case ev of None \<Rightarrow> [] | Some e \<Rightarrow> [e])"
proof (cases raw)
  case (EvKey key v)
  show ?thesis
  proof (cases "hid_from_evdev key")
    case None
    then have "modifier_mask key = None" by (simp add: modifier_mask_agrees)
    then show ?thesis using assms EvKey None
      by (auto simp: linux_convert_event_def Let_def update_modifiers_def record_mask_def split: option.splits if_splits)
  next
    case (Some code)
    then have "modifier_mask key = map_option modifier_bits (key_modifier code)" by (simp add: modifier_mask_agrees)
    from record_mask_modifier [OF this] show ?thesis using assms EvKey Some
      by (auto simp: linux_convert_event_def Let_def update_modifiers_def linux_held_modifiers_def
          split: option.splits if_splits)
  qed
next
  case (EvRel axis v)
  then show ?thesis using assms by (cases axis) (auto simp: linux_convert_event_def)
qed (use assms in \<open>auto simp: linux_convert_event_def split: if_splits\<close>)

text \<open>What a batch adds to the queue.\<close>
lemma reader_batch_held:
  "\<exists>out. cq_events (ls_queue (snd (reader_batch raws r s))) = cq_events (ls_queue s) @ out \<and>
     carries_held (held_of_bits (ls_held s)) out \<and>
     held_of_bits (ls_held (snd (reader_batch raws r s))) = held_after (held_of_bits (ls_held s)) out"
proof (induction raws arbitrary: r s)
  case Nil
  then show ?case by simp
next
  case (Cons raw raws)
  obtain ev pending held where c: "linux_convert_event raw (er_pending r) (ls_held s) = (ev, pending, held)"
    by (cases "linux_convert_event raw (er_pending r) (ls_held s)")
  let ?out = "case ev of None \<Rightarrow> [] | Some e \<Rightarrow> [e]"
  define s1 where "s1 = (case ev of None \<Rightarrow> s \<lparr> ls_held := held \<rparr>
    | Some e \<Rightarrow> s \<lparr> ls_held := held, ls_queue := capture_send e (ls_queue s) \<rparr>)"
  have s1: "cq_events (ls_queue s1) = cq_events (ls_queue s) @ ?out" "ls_held s1 = held"
    by (auto simp: s1_def capture_send_def split: option.splits)
  have step: "reader_batch (raw # raws) r s = reader_batch raws (r \<lparr> er_pending := pending \<rparr>) s1"
    by (auto simp: c s1_def split: option.splits)
  obtain out where "cq_events (ls_queue (snd (reader_batch raws (r \<lparr> er_pending := pending \<rparr>) s1))) =
      cq_events (ls_queue s1) @ out"
    and "carries_held (held_of_bits (ls_held s1)) out"
    and "held_of_bits (ls_held (snd (reader_batch raws (r \<lparr> er_pending := pending \<rparr>) s1))) =
      held_after (held_of_bits (ls_held s1)) out"
    using Cons.IH by blast
  then show ?case unfolding step using s1 convert_event_held [OF c]
    by (intro exI [of _ "?out @ out"]) (auto simp: carries_held_append held_after_append)
qed

text \<open>The readers of all devices, one turn after another in any order.\<close>
fun readers_run ::
  "(nat \<times> bool \<times> fetch_result) list \<Rightarrow> (nat \<Rightarrow> evdev_reader) \<Rightarrow> linux_source \<Rightarrow>
   (nat \<Rightarrow> evdev_reader) \<times> linux_source" where
  "readers_run [] rs s = (rs, s)"
| "readers_run ((i, granted, fetched) # turns) rs s =
     (let (_, r, s) = read_device_turn granted fetched (rs i) s in readers_run turns (rs(i := r)) s)"

lemma read_device_turn_held:
  "\<exists>out. cq_events (ls_queue (snd (snd (read_device_turn granted fetched r s)))) = cq_events (ls_queue s) @ out \<and>
     carries_held (held_of_bits (ls_held s)) out \<and>
     held_of_bits (ls_held (snd (snd (read_device_turn granted fetched r s)))) = held_after (held_of_bits (ls_held s)) out"
proof (cases fetched)
  case (Fetched batch)
  then show ?thesis
    using reader_batch_held [of batch "reader_grab granted (ls_suppressed s) r" s]
    by (simp add: read_device_turn_def case_prod_unfold Let_def)
qed (simp_all add: read_device_turn_def)

lemma readers_run_held:
  "\<exists>out. cq_events (ls_queue (snd (readers_run turns rs s))) = cq_events (ls_queue s) @ out \<and>
     carries_held (held_of_bits (ls_held s)) out \<and>
     held_of_bits (ls_held (snd (readers_run turns rs s))) = held_after (held_of_bits (ls_held s)) out"
proof (induction turns arbitrary: rs s)
  case (Cons turn turns)
  obtain i granted fetched where turn: "turn = (i, granted, fetched)" by (cases turn)
  obtain b r s1 where t: "read_device_turn granted fetched (rs i) s = (b, r, s1)"
    by (cases "read_device_turn granted fetched (rs i) s")
  obtain o1 where "cq_events (ls_queue s1) = cq_events (ls_queue s) @ o1"
    "carries_held (held_of_bits (ls_held s)) o1" "held_of_bits (ls_held s1) = held_after (held_of_bits (ls_held s)) o1"
    using read_device_turn_held [of granted fetched "rs i" s] t by auto
  moreover obtain o2 where "cq_events (ls_queue (snd (readers_run turns (rs(i := r)) s1))) = cq_events (ls_queue s1) @ o2"
    "carries_held (held_of_bits (ls_held s1)) o2"
    "held_of_bits (ls_held (snd (readers_run turns (rs(i := r)) s1))) = held_after (held_of_bits (ls_held s1)) o2"
    using Cons.IH by blast
  ultimately show ?case
    by (intro exI [of _ "o1 @ o2"]) (simp add: turn t carries_held_append held_after_append)
qed simp

section \<open>Captured motion\<close>

definition motion_x :: "input_event \<Rightarrow> i32" where
  "motion_x ev = (case ev of Motion d \<Rightarrow> dx d | _ \<Rightarrow> 0)"
definition motion_y :: "input_event \<Rightarrow> i32" where
  "motion_y ev = (case ev of Motion d \<Rightarrow> dy d | _ \<Rightarrow> 0)"
definition rel_x :: "evdev_event \<Rightarrow> i32" where
  "rel_x raw = (case raw of EvRel REL_X v \<Rightarrow> v | _ \<Rightarrow> 0)"
definition rel_y :: "evdev_event \<Rightarrow> i32" where
  "rel_y raw = (case raw of EvRel REL_Y v \<Rightarrow> v | _ \<Rightarrow> 0)"

lemma convert_event_motion:
  assumes "linux_convert_event raw pending held = (ev, pending', held')"
  shows "(case ev of None \<Rightarrow> 0 | Some e \<Rightarrow> motion_x e) + dx pending' = dx pending + rel_x raw \<and>
         (case ev of None \<Rightarrow> 0 | Some e \<Rightarrow> motion_y e) + dy pending' = dy pending + rel_y raw \<and>
         ev \<noteq> Some (Motion \<lparr> dx = 0, dy = 0 \<rparr>) \<and>
         (raw = EvSyn \<longrightarrow> pending' = \<lparr> dx = 0, dy = 0 \<rparr>)"
  using assms
  by (auto simp: linux_convert_event_def Let_def motion_x_def motion_y_def rel_x_def rel_y_def
      split: evdev_event.splits rel_axis.splits option.splits if_splits)

lemma add_chain: "a + p = d + x \<Longrightarrow> b + q = p + y \<Longrightarrow> (a + b) + q = d + (x + (y :: i32))"
  by (metis add.assoc)

lemma reader_batch_motion:
  "\<exists>out. cq_events (ls_queue (snd (reader_batch raws r s))) = cq_events (ls_queue s) @ out \<and>
     sum_list (map motion_x out) + dx (er_pending (fst (reader_batch raws r s))) =
       dx (er_pending r) + sum_list (map rel_x raws) \<and>
     sum_list (map motion_y out) + dy (er_pending (fst (reader_batch raws r s))) =
       dy (er_pending r) + sum_list (map rel_y raws) \<and>
     Motion \<lparr> dx = 0, dy = 0 \<rparr> \<notin> set out \<and>
     (raws \<noteq> [] \<and> last raws = EvSyn \<longrightarrow> er_pending (fst (reader_batch raws r s)) = \<lparr> dx = 0, dy = 0 \<rparr>)"
proof (induction raws arbitrary: r s)
  case Nil
  then show ?case by simp
next
  case (Cons raw raws)
  obtain ev pending held where c: "linux_convert_event raw (er_pending r) (ls_held s) = (ev, pending, held)"
    by (cases "linux_convert_event raw (er_pending r) (ls_held s)")
  let ?out = "case ev of None \<Rightarrow> [] | Some e \<Rightarrow> [e]"
  let ?r = "r \<lparr> er_pending := pending \<rparr>"
  define s1 where "s1 = (case ev of None \<Rightarrow> s \<lparr> ls_held := held \<rparr>
    | Some e \<Rightarrow> s \<lparr> ls_held := held, ls_queue := capture_send e (ls_queue s) \<rparr>)"
  have s1: "cq_events (ls_queue s1) = cq_events (ls_queue s) @ ?out"
    by (auto simp: s1_def capture_send_def split: option.splits)
  have step: "reader_batch (raw # raws) r s = reader_batch raws ?r s1"
    by (auto simp: c s1_def split: option.splits)
  note m = convert_event_motion [OF c]
  have mx: "sum_list (map motion_x ?out) + dx pending = dx (er_pending r) + rel_x raw"
    and my: "sum_list (map motion_y ?out) + dy pending = dy (er_pending r) + rel_y raw"
    and mz: "Motion \<lparr> dx = 0, dy = 0 \<rparr> \<notin> set ?out"
    using m by (auto split: option.splits)
  obtain out where out: "cq_events (ls_queue (snd (reader_batch raws ?r s1))) = cq_events (ls_queue s1) @ out"
    "sum_list (map motion_x out) + dx (er_pending (fst (reader_batch raws ?r s1))) = dx pending + sum_list (map rel_x raws)"
    "sum_list (map motion_y out) + dy (er_pending (fst (reader_batch raws ?r s1))) = dy pending + sum_list (map rel_y raws)"
    "Motion \<lparr> dx = 0, dy = 0 \<rparr> \<notin> set out"
    "raws \<noteq> [] \<and> last raws = EvSyn \<longrightarrow> er_pending (fst (reader_batch raws ?r s1)) = \<lparr> dx = 0, dy = 0 \<rparr>"
    using Cons.IH [of ?r s1] by auto
  have last: "er_pending (fst (reader_batch raws ?r s1)) = \<lparr> dx = 0, dy = 0 \<rparr>" if "last (raw # raws) = EvSyn"
    using that out(5) m by (cases "raws = []") auto
  show ?case unfolding step
    by (rule exI [of _ "?out @ out"])
      (use s1 out(1,4) add_chain [OF mx out(2)] add_chain [OF my out(3)] mz last in auto)
qed

section \<open>Properties\<close>

text \<open>Every key event captured on Linux carries exactly the modifiers held after it, as the events
  themselves tell: whatever devices are read in whatever order, from the start of capture on a receiver
  that follows the modifier keys of the stream always agrees with what the next key event says.\<close>
theorem captured_keys_carry_held_modifiers:
  assumes "linux_source_new spawned devices = Inr s"
  shows "carries_held MOD_NONE (cq_events (ls_queue (snd (readers_run turns rs s)))) \<and>
         linux_held_modifiers (ls_held (snd (readers_run turns rs s))) =
           held_after MOD_NONE (cq_events (ls_queue (snd (readers_run turns rs s))))"
proof -
  have s: "cq_events (ls_queue s) = []" "ls_held s = 0"
    using assms by (auto simp: linux_source_new_def Let_def split: if_splits)
  have "held_of_bits 0 = MOD_NONE" by (rule modifiers_eqI) (simp add: bit_held_of_bits bits_of_mods)
  then show ?thesis using readers_run_held [of turns rs s] s by (auto simp: linux_held_modifiers_def)
qed

lemma captured_keys_carry_held_modifiers_witness:
  "carries_held MOD_NONE (cq_events (ls_queue (snd (readers_run
     [(0, True, Fetched [EvKey 42 1, EvKey 30 1]), (1, True, Fetched [EvKey 29 1, EvKey 46 1])] (\<lambda>_. reader_new)
     \<lparr> ls_queue = \<lparr> cq_events = [], cq_alive = True \<rparr>, ls_suppressed = False, ls_held = 0, ls_cursor_hidden = False \<rparr>))))"
proof -
  have "linux_source_new (\<lambda>_. True) [\<lparr> di_name = None, di_keys = Some [30], di_axes = None \<rparr>] =
      Inr \<lparr> ls_queue = \<lparr> cq_events = [], cq_alive = True \<rparr>, ls_suppressed = False, ls_held = 0, ls_cursor_hidden = False \<rparr>"
    by (simp add: linux_source_new_def is_keyboard_def)
  from captured_keys_carry_held_modifiers [OF this] show ?thesis by blast
qed

text \<open>No mouse movement is lost or made up: what a reader reports, together with what it still holds
  back for the rest of the report, adds up to what the device moved; after a complete report nothing is
  held back, and no empty movement is ever reported.\<close>
theorem captured_motion_is_conserved:
  "\<exists>out. cq_events (ls_queue (snd (reader_batch raws r s))) = cq_events (ls_queue s) @ out \<and>
     sum_list (map motion_x out) + dx (er_pending (fst (reader_batch raws r s))) =
       dx (er_pending r) + sum_list (map rel_x raws) \<and>
     sum_list (map motion_y out) + dy (er_pending (fst (reader_batch raws r s))) =
       dy (er_pending r) + sum_list (map rel_y raws) \<and>
     Motion \<lparr> dx = 0, dy = 0 \<rparr> \<notin> set out \<and>
     (raws \<noteq> [] \<and> last raws = EvSyn \<longrightarrow> er_pending (fst (reader_batch raws r s)) = \<lparr> dx = 0, dy = 0 \<rparr>)"
  by (rule reader_batch_motion)

lemma captured_motion_is_conserved_witness:
  "er_pending (fst (reader_batch [EvRel REL_X 3, EvSyn, EvRel REL_Y 2, EvSyn] reader_new
     \<lparr> ls_queue = \<lparr> cq_events = [], cq_alive = True \<rparr>, ls_suppressed = False, ls_held = 0, ls_cursor_hidden = False \<rparr>)) =
   \<lparr> dx = 0, dy = 0 \<rparr>"
  using captured_motion_is_conserved [of "[EvRel REL_X 3, EvSyn, EvRel REL_Y 2, EvSyn]" reader_new
      "\<lparr> ls_queue = \<lparr> cq_events = [], cq_alive = True \<rparr>, ls_suppressed = False, ls_held = 0, ls_cursor_hidden = False \<rparr>"]
  by (simp del: reader_batch.simps)

lemma mapped_key_injects:
  "hid_from_evdev c = Some k \<Longrightarrow> evdev_from_hid k = Some c"
  using linux_keys.round_trip by (simp add: hid_from_evdev_def evdev_from_hid_def)

lemma mapped_button_injects: "button_from_evdev c = Some b \<Longrightarrow> evdev_from_button b = Some c"
  by (auto simp: button_from_evdev_def split: if_splits)

text \<open>A key or button captured on one Linux machine is injected on another as the same evdev code,
  pressed when it was pressed or repeated and released when it was released, unless it is a key no
  usage stands for; and it is one of those the virtual device was created with.\<close>
theorem linux_relays_keys:
  assumes "linux_convert_event (EvKey c v) pending held = (Some ev, pending', held')"
  shows "linux_inject emit ev sink = linux_emit emit [EvKey c (if v = 0 then 0 else 1)] sink \<and>
         c \<in> set uinput_keys"
proof -
  have act: "action_value (if v = 0 then Release else Press) = (if v = 0 then 0 else 1)" by simp
  consider (button) b where "button_from_evdev c = Some b" "ev = Button b (if v = 0 then Release else Press)"
    | (key) k m where "hid_from_evdev c = Some k" "ev = Key k (if v = 0 then Release else Press) m"
    using assms by (auto simp: linux_convert_event_def Let_def split: option.splits if_splits)
  then show ?thesis
  proof cases
    case button
    then show ?thesis using mapped_button_injects [OF button(1)]
      by (auto simp: linux_inject_def act uinput_keys_def button_from_evdev_def split: if_splits)
  next
    case key
    then have "(c, key_value k) \<in> set EVDEV_HID" unfolding hid_from_evdev_def using linux_keys.hid_of_native_iff by simp
    then have "c \<in> set uinput_keys" by (force simp: uinput_keys_def injectable_keys_def)
    then show ?thesis using key mapped_key_injects [OF key(1)] by (simp add: linux_inject_def act)
  qed
qed

lemma linux_relays_keys_witness:
  "linux_inject (\<lambda>evs d. (True, d @ evs)) (Button MouseLeft Press) \<lparr> lk_device = [], lk_scroll = accumulator_new \<rparr> =
   (Inr (), \<lparr> lk_device = [EvKey 0x110 1], lk_scroll = accumulator_new \<rparr>)"
proof -
  have "linux_convert_event (EvKey 0x110 1) \<lparr> dx = 0, dy = 0 \<rparr> 0 =
      (Some (Button MouseLeft Press), \<lparr> dx = 0, dy = 0 \<rparr>, 0)"
    by (simp add: linux_convert_event_def button_from_evdev_def)
  from linux_relays_keys [OF this, of "\<lambda>evs d. (True, d @ evs)" "\<lparr> lk_device = [], lk_scroll = accumulator_new \<rparr>"]
  show ?thesis by (simp add: linux_emit_def)
qed

end
