(* ===== verification/WindowsInput.thy ===== *)
theory WindowsInput
  imports InputPorts Keymaps
begin

text \<open>
  \<^verbatim>\<open>crates/omni-input/src/windows\<close>: the low-level hooks that capture and swallow local input
  (\<^verbatim>\<open>source.rs\<close>), the sink that injects a peer's input and repairs the modifiers lost on the way
  (\<^verbatim>\<open>sink.rs\<close>), and the desktop metrics (\<^verbatim>\<open>mod.rs\<close>).  Win32 is an argument: what \<^verbatim>\<open>SendInput\<close> and
  \<^verbatim>\<open>SetCursorPos\<close> do, the metrics and settings read, and the events the hooks are called with.
\<close>

unbundle bit_operations_syntax

datatype windows_input_error = HookInstall | AlreadyRunning | WindowsCaptureStopped | Injection

section \<open>Settings and metrics\<close>

definition DEFAULT_LINES_PER_NOTCH :: i32 where "DEFAULT_LINES_PER_NOTCH = 3"
definition MAX_LINES_PER_NOTCH :: u32 where "MAX_LINES_PER_NOTCH = 100"

text \<open>Win32's \<^verbatim>\<open>WHEEL_DELTA\<close>, \<^verbatim>\<open>XBUTTON1\<close> and \<^verbatim>\<open>XBUTTON2\<close>.\<close>
definition WHEEL_DELTA :: i32 where "WHEEL_DELTA = 120"
definition XBUTTON1 :: u16 where "XBUTTON1 = 1"
definition XBUTTON2 :: u16 where "XBUTTON2 = 2"

text \<open>\<^const>\<open>None\<close> is a setting that could not be read.\<close>
definition system_scroll_amount :: "u32 option \<Rightarrow> i32" where
  "system_scroll_amount setting = (case setting of
      None \<Rightarrow> DEFAULT_LINES_PER_NOTCH
    | Some amount \<Rightarrow>
        if amount = 0 \<or> MAX_LINES_PER_NOTCH < amount then DEFAULT_LINES_PER_NOTCH else amount)"

definition wheel_scroll_amounts :: "u32 option \<Rightarrow> u32 option \<Rightarrow> i32 \<times> i32" where
  "wheel_scroll_amounts chars lines = (system_scroll_amount chars, system_scroll_amount lines)"

record metrics =
  virtual_width :: i32
  virtual_height :: i32
  virtual_x :: i32
  virtual_y :: i32
  primary_width :: i32
  primary_height :: i32

definition windows_desktop_bounds :: "metrics \<Rightarrow> desktop_bounds option" where
  "windows_desktop_bounds m =
     (if 0 < sint (virtual_width m) \<and> 0 < sint (virtual_height m)
      then Some \<lparr> origin_x = virtual_x m, origin_y = virtual_y m,
                  desktop_width = virtual_width m, desktop_height = virtual_height m \<rparr>
      else if 0 < sint (primary_width m) \<and> 0 < sint (primary_height m)
      then Some \<lparr> origin_x = 0, origin_y = 0,
                  desktop_width = primary_width m, desktop_height = primary_height m \<rparr>
      else None)"

definition windows_screen_size :: "metrics \<Rightarrow> (u32 \<times> u32) option" where
  "windows_screen_size m = map_option desktop_size (windows_desktop_bounds m)"

text \<open>\<open>os_cursor\<close>: where \<^verbatim>\<open>GetCursorPos\<close> says the cursor is.\<close>
definition windows_cursor_position :: "metrics \<Rightarrow> (i32 \<times> i32) option \<Rightarrow> (i32 \<times> i32) option" where
  "windows_cursor_position m os_cursor =
     do { p \<leftarrow> os_cursor; b \<leftarrow> windows_desktop_bounds m; Some (to_desktop b p) }"

definition screen_center :: "metrics \<Rightarrow> i32 \<times> i32" where
  "screen_center m = (case windows_desktop_bounds m of
      Some b \<Rightarrow> to_screen b (word_of_int (sint (desktop_width b) sdiv 2), word_of_int (sint (desktop_height b) sdiv 2))
    | None \<Rightarrow> (0, 0))"

text \<open>\<^verbatim>\<open>i32::saturating_mul\<close>.\<close>
definition saturating_mul_i32 :: "i32 \<Rightarrow> i32 \<Rightarrow> i32" where
  "saturating_mul_i32 a b = word_of_int (max i32_min (min i32_max (sint a * sint b)))"

section \<open>The sink\<close>

datatype mouse_flag = MOVE | LEFTDOWN | LEFTUP | RIGHTDOWN | RIGHTUP | MIDDLEDOWN | MIDDLEUP
  | XDOWN | XUP | WHEEL | HWHEEL

text \<open>One synthesized event: a key with its up and extended flags, or a mouse event with its data and
  movement.  All carry \<^verbatim>\<open>INJECTED_MARKER\<close>.\<close>
datatype win_input = WinKey u16 bool bool | WinMouse mouse_flag i32 i32 i32

definition MODIFIER_KEYS :: "(modifiers \<times> u16) list" where
  "MODIFIER_KEYS = [(SHIFT, 0xA0), (CONTROL, 0xA2), (ALT, 0xA4), (META, 0x5B)]"

record modifier_fix =
  fix_modifier :: modifiers
  fix_action :: action

definition reconcile :: "modifiers \<Rightarrow> modifiers \<Rightarrow> modifier_fix list" where
  "reconcile held wanted =
     map (\<lambda>m. \<lparr> fix_modifier = m, fix_action = Release \<rparr>)
       (filter (\<lambda>m. mods_contains held m \<and> \<not> mods_contains wanted m) MODS_ALL) @
     map (\<lambda>m. \<lparr> fix_modifier = m, fix_action = Press \<rparr>)
       (filter (\<lambda>m. mods_contains wanted m \<and> \<not> mods_contains held m) MODS_ALL)"

record 'd windows_sink =
  wk_os :: 'd
  wk_scroll :: scroll_accumulator
  wk_held :: modifiers

text \<open>\<open>send\<close> is \<^verbatim>\<open>SendInput\<close> for one event, with whether it was accepted.\<close>
definition win_send ::
  "(win_input \<Rightarrow> 'd \<Rightarrow> bool \<times> 'd) \<Rightarrow> win_input \<Rightarrow> 'd windows_sink \<Rightarrow>
   (windows_input_error + unit) \<times> 'd windows_sink" where
  "win_send send i s =
     (let (sent, os) = send i (wk_os s)
      in (if sent then Inr () else Inl Injection, s \<lparr> wk_os := os \<rparr>))"

definition send_key ::
  "(win_input \<Rightarrow> 'd \<Rightarrow> bool \<times> 'd) \<Rightarrow> u16 \<Rightarrow> bool \<Rightarrow> action \<Rightarrow> 'd windows_sink \<Rightarrow>
   (windows_input_error + unit) \<times> 'd windows_sink" where
  "send_key send vk extended act s = win_send send (WinKey vk (act = Release) extended) s"

fun apply_fixes ::
  "(win_input \<Rightarrow> 'd \<Rightarrow> bool \<times> 'd) \<Rightarrow> modifier_fix list \<Rightarrow> 'd windows_sink \<Rightarrow>
   (windows_input_error + unit) \<times> 'd windows_sink" where
  "apply_fixes send [] s = (Inr (), s)"
| "apply_fixes send (f # fs) s =
     (case List.find (\<lambda>(m, vk). m = fix_modifier f) MODIFIER_KEYS of
        None \<Rightarrow> apply_fixes send fs s
      | Some (m, vk) \<Rightarrow>
          (case send_key send vk False (fix_action f) s of
             (Inl e, s) \<Rightarrow> (Inl e, s)
           | (Inr _, s) \<Rightarrow>
               apply_fixes send fs (s \<lparr> wk_held := (case fix_action f of
                   Press \<Rightarrow> mods_with (wk_held s) (fix_modifier f)
                 | Release \<Rightarrow> mods_without (wk_held s) (fix_modifier f)) \<rparr>)))"

definition apply_modifiers ::
  "(win_input \<Rightarrow> 'd \<Rightarrow> bool \<times> 'd) \<Rightarrow> modifiers \<Rightarrow> 'd windows_sink \<Rightarrow>
   (windows_input_error + unit) \<times> 'd windows_sink" where
  "apply_modifiers send wanted s = apply_fixes send (reconcile (wk_held s) wanted) s"

definition inject_key ::
  "(win_input \<Rightarrow> 'd \<Rightarrow> bool \<times> 'd) \<Rightarrow> key_code \<Rightarrow> action \<Rightarrow> modifiers \<Rightarrow> 'd windows_sink \<Rightarrow>
   (windows_input_error + unit) \<times> 'd windows_sink" where
  "inject_key send code act m s =
     (case (case key_modifier code of
              Some md \<Rightarrow> (Inr (), s \<lparr> wk_held := (case act of
                  Press \<Rightarrow> mods_with (wk_held s) md | Release \<Rightarrow> mods_without (wk_held s) md) \<rparr>)
            | None \<Rightarrow> apply_modifiers send m s) of
        (Inl e, s) \<Rightarrow> (Inl e, s)
      | (Inr _, s) \<Rightarrow>
          (case win_vk_from_hid code of
             None \<Rightarrow> (Inr (), s)
           | Some key \<Rightarrow> send_key send (vk_code key) (vk_extended key) act s))"

definition inject_mouse ::
  "(win_input \<Rightarrow> 'd \<Rightarrow> bool \<times> 'd) \<Rightarrow> mouse_flag \<Rightarrow> i32 \<Rightarrow> i32 \<Rightarrow> i32 \<Rightarrow> 'd windows_sink \<Rightarrow>
   (windows_input_error + unit) \<times> 'd windows_sink" where
  "inject_mouse send flag data x y s = win_send send (WinMouse flag data x y) s"

definition inject_button ::
  "(win_input \<Rightarrow> 'd \<Rightarrow> bool \<times> 'd) \<Rightarrow> mouse_button \<Rightarrow> action \<Rightarrow> 'd windows_sink \<Rightarrow>
   (windows_input_error + unit) \<times> 'd windows_sink" where
  "inject_button send button act s =
     (case button of
        MouseLeft \<Rightarrow> inject_mouse send (if act = Press then LEFTDOWN else LEFTUP) 0 0 0 s
      | MouseRight \<Rightarrow> inject_mouse send (if act = Press then RIGHTDOWN else RIGHTUP) 0 0 0 s
      | MouseMiddle \<Rightarrow> inject_mouse send (if act = Press then MIDDLEDOWN else MIDDLEUP) 0 0 0 s
      | MouseBack \<Rightarrow> inject_mouse send (if act = Press then XDOWN else XUP) (ucast XBUTTON1) 0 0 s
      | MouseForward \<Rightarrow> inject_mouse send (if act = Press then XDOWN else XUP) (ucast XBUTTON2) 0 0 s
      | MouseOther n \<Rightarrow> (Inr (), s))"

text \<open>\<open>amounts\<close> is what \<^verbatim>\<open>wheel_scroll_amounts\<close> returns at the call.\<close>
definition win_inject_scroll ::
  "(win_input \<Rightarrow> 'd \<Rightarrow> bool \<times> 'd) \<Rightarrow> i32 \<times> i32 \<Rightarrow> scroll_delta \<Rightarrow> 'd windows_sink \<Rightarrow>
   (windows_input_error + unit) \<times> 'd windows_sink" where
  "win_inject_scroll send amounts delta s =
     (let (chars, lines) = amounts;
          ((wx, wy), acc) = take_scaled delta WHEEL_DELTA
             (saturating_mul_i32 (word_of_int MILLILINES_PER_LINE) chars)
             (saturating_mul_i32 (word_of_int MILLILINES_PER_LINE) lines) (wk_scroll s);
          s = s \<lparr> wk_scroll := acc \<rparr>
      in case (if wy \<noteq> 0 then inject_mouse send WHEEL wy 0 0 s else (Inr (), s)) of
           (Inl e, s) \<Rightarrow> (Inl e, s)
         | (Inr _, s) \<Rightarrow> if wx \<noteq> 0 then inject_mouse send HWHEEL wx 0 0 s else (Inr (), s))"

text \<open>\<open>set_cursor\<close> is \<^verbatim>\<open>SetCursorPos\<close>.\<close>
definition win_warp ::
  "(i32 \<times> i32 \<Rightarrow> 'd \<Rightarrow> bool \<times> 'd) \<Rightarrow> metrics \<Rightarrow> i32 \<Rightarrow> i32 \<Rightarrow> 'd windows_sink \<Rightarrow>
   (windows_input_error + unit) \<times> 'd windows_sink" where
  "win_warp set_cursor_pos ms x y s =
     (let p = (case windows_desktop_bounds ms of Some b \<Rightarrow> to_screen b (x, y) | None \<Rightarrow> (x, y));
          (done, os) = set_cursor_pos p (wk_os s)
      in (if done then Inr () else Inl Injection, s \<lparr> wk_os := os \<rparr>))"

definition win_inject ::
  "(win_input \<Rightarrow> 'd \<Rightarrow> bool \<times> 'd) \<Rightarrow> (i32 \<times> i32 \<Rightarrow> 'd \<Rightarrow> bool \<times> 'd) \<Rightarrow> metrics \<Rightarrow> i32 \<times> i32 \<Rightarrow>
   input_event \<Rightarrow> 'd windows_sink \<Rightarrow> (windows_input_error + unit) \<times> 'd windows_sink" where
  "win_inject send set_cursor_pos ms amounts ev s =
     (case ev of
        Key code act m \<Rightarrow> inject_key send code act m s
      | Motion delta \<Rightarrow> inject_mouse send MOVE 0 (dx delta) (dy delta) s
      | Pointer x y \<Rightarrow> win_warp set_cursor_pos ms x y s
      | Button b act \<Rightarrow> inject_button send b act s
      | Scroll delta \<Rightarrow> win_inject_scroll send amounts delta s)"

section \<open>The repair of modifiers\<close>

text \<open>What a fix does to the held modifiers, and the key it presses or releases.\<close>
definition fix_held :: "modifier_fix \<Rightarrow> modifiers \<Rightarrow> modifiers" where
  "fix_held f held = (case fix_action f of
      Press \<Rightarrow> mods_with held (fix_modifier f) | Release \<Rightarrow> mods_without held (fix_modifier f))"

definition fix_input :: "modifier_fix \<Rightarrow> win_input" where
  "fix_input f = WinKey (the (map_of MODIFIER_KEYS (fix_modifier f))) (fix_action f = Release) False"

definition agree :: "modifiers \<Rightarrow> modifiers \<Rightarrow> bool" where
  "agree m n \<longleftrightarrow> (\<forall>x\<in>set MODS_ALL. mods_contains m x = mods_contains n x)"

text \<open>\<^verbatim>\<open>SendInput\<close> as long as nothing blocks it.\<close>
definition accepts :: "(win_input \<Rightarrow> 'd \<Rightarrow> bool \<times> 'd) \<Rightarrow> bool" where
  "accepts send \<longleftrightarrow> (\<forall>i os. fst (send i os))"

lemma distinct_modifiers [simp]:
  "SHIFT \<noteq> CONTROL" "SHIFT \<noteq> ALT" "SHIFT \<noteq> META" "CONTROL \<noteq> ALT" "CONTROL \<noteq> META" "ALT \<noteq> META"
  "CONTROL \<noteq> SHIFT" "ALT \<noteq> SHIFT" "META \<noteq> SHIFT" "ALT \<noteq> CONTROL" "META \<noteq> CONTROL" "META \<noteq> ALT"
  by (simp_all add: SHIFT_def CONTROL_def ALT_def META_def)

lemma find_modifier_key:
  "m \<in> set MODS_ALL \<Longrightarrow> List.find (\<lambda>(x, vk). x = m) MODIFIER_KEYS = Some (m, the (map_of MODIFIER_KEYS m))"
  by (auto simp: MODS_ALL_def MODIFIER_KEYS_def)

lemma send_key_accepted:
  "accepts send \<Longrightarrow> send_key send vk ext act s =
     (Inr (), s \<lparr> wk_os := snd (send (WinKey vk (act = Release) ext) (wk_os s)) \<rparr>)"
  by (simp add: send_key_def win_send_def accepts_def case_prod_unfold Let_def)

lemma apply_fixes_accepted:
  assumes "accepts send" and "\<forall>f\<in>set fs. fix_modifier f \<in> set MODS_ALL"
  shows "apply_fixes send fs s =
    (Inr (), s \<lparr> wk_os := fold (\<lambda>f os. snd (send (fix_input f) os)) fs (wk_os s),
                wk_held := fold fix_held fs (wk_held s) \<rparr>)"
  using assms(2)
  by (induction fs arbitrary: s)
    (simp_all add: find_modifier_key send_key_accepted [OF assms(1)] fix_input_def fix_held_def split: action.split)

lemma reconcile_modifiers: "f \<in> set (reconcile held wanted) \<Longrightarrow> fix_modifier f \<in> set MODS_ALL"
  by (auto simp: reconcile_def)

lemma bit_releases:
  "bit (modifier_bits (fold fix_held (map (\<lambda>m. \<lparr> fix_modifier = m, fix_action = Release \<rparr>) ms) h)) i \<longleftrightarrow>
   bit (modifier_bits h) i \<and> (\<forall>m\<in>set ms. \<not> bit (modifier_bits m) i)"
  by (induction ms arbitrary: h) (auto simp: fix_held_def bits_of_mods)

lemma bit_presses:
  "bit (modifier_bits (fold fix_held (map (\<lambda>m. \<lparr> fix_modifier = m, fix_action = Press \<rparr>) ms) h)) i \<longleftrightarrow>
   bit (modifier_bits h) i \<or> (\<exists>m\<in>set ms. bit (modifier_bits m) i)"
  by (induction ms arbitrary: h) (auto simp: fix_held_def bits_of_mods)

lemma mods_contains_one:
  "mods_contains m SHIFT \<longleftrightarrow> bit (modifier_bits m) 0" "mods_contains m CONTROL \<longleftrightarrow> bit (modifier_bits m) 1"
  "mods_contains m ALT \<longleftrightarrow> bit (modifier_bits m) 2" "mods_contains m META \<longleftrightarrow> bit (modifier_bits m) 3"
  by (simp_all add: mods_contains_bits bits_of_modifier)

lemma bit_reconciled:
  "bit (modifier_bits (fold fix_held (reconcile held wanted) held)) i \<longleftrightarrow>
   (if i < 4 then bit (modifier_bits wanted) i else bit (modifier_bits held) i)"
proof -
  have "i < 4 \<longleftrightarrow> i = 0 \<or> i = 1 \<or> i = 2 \<or> i = 3" by auto
  then show ?thesis
    by (auto simp: reconcile_def bit_releases bit_presses MODS_ALL_def bits_of_modifier mods_contains_one)
qed

lemma agree_reconciled: "agree (fold fix_held (reconcile held wanted) held) wanted"
  by (simp add: agree_def MODS_ALL_def mods_contains_one bit_reconciled)

lemma reconcile_nothing: "agree held wanted \<Longrightarrow> reconcile held wanted = []"
  by (auto simp: agree_def reconcile_def filter_empty_conv)

lemma apply_modifiers_accepted:
  assumes "accepts send"
  shows "apply_modifiers send m s =
    (Inr (), s \<lparr> wk_os := fold (\<lambda>f os. snd (send (fix_input f) os)) (reconcile (wk_held s) m) (wk_os s),
                wk_held := fold fix_held (reconcile (wk_held s) m) (wk_held s) \<rparr>)"
  unfolding apply_modifiers_def
  by (rule apply_fixes_accepted [OF assms]) (use reconcile_modifiers in blast)

text \<open>What a key event does to the sink.\<close>
definition key_inputs :: "key_code \<Rightarrow> action \<Rightarrow> win_input list" where
  "key_inputs code act = (case win_vk_from_hid code of
      None \<Rightarrow> [] | Some key \<Rightarrow> [WinKey (vk_code key) (act = Release) (vk_extended key)])"

lemma inject_key_accepted:
  assumes "accepts send"
  shows "inject_key send code act m s =
    (let fs = (if key_modifier code = None then reconcile (wk_held s) m else []) in
     (Inr (), s \<lparr> wk_os := fold (\<lambda>i os. snd (send i os)) (map fix_input fs @ key_inputs code act) (wk_os s),
                 wk_held := (if key_modifier code = None then fold fix_held fs (wk_held s)
                             else record_modifier code act (wk_held s)) \<rparr>))"
proof -
  have acc: "fst (send i os)" for i os using assms by (simp add: accepts_def)
  show ?thesis
    using acc by (auto simp: inject_key_def apply_modifiers_accepted [OF assms] key_inputs_def send_key_def
        win_send_def record_modifier_def fold_map comp_def case_prod_unfold Let_def
        split: option.splits action.splits)
qed

lemma fix_inputs:
  "map fix_input (map (\<lambda>m. \<lparr> fix_modifier = m, fix_action = act \<rparr>) (filter P MODS_ALL)) =
   map (\<lambda>vk. WinKey vk (act = Release) False) (map snd (filter (\<lambda>(x, _). P x) MODIFIER_KEYS))"
  by (simp add: MODS_ALL_def MODIFIER_KEYS_def fix_input_def)

lemma reconcile_inputs:
  "map fix_input (reconcile held wanted) =
   map (\<lambda>vk. WinKey vk True False)
     (map snd (filter (\<lambda>(x, _). mods_contains held x \<and> \<not> mods_contains wanted x) MODIFIER_KEYS)) @
   map (\<lambda>vk. WinKey vk False False)
     (map snd (filter (\<lambda>(x, _). mods_contains wanted x \<and> \<not> mods_contains held x) MODIFIER_KEYS))"
  unfolding reconcile_def map_append fix_inputs by simp

text \<open>A system that records what it is sent, and a stream of events injected into it.\<close>
definition recording :: "win_input \<Rightarrow> win_input list \<Rightarrow> bool \<times> win_input list" where
  "recording i sent = (True, sent @ [i])"

fun win_inject_all ::
  "metrics \<Rightarrow> i32 \<times> i32 \<Rightarrow> input_event list \<Rightarrow> win_input list windows_sink \<Rightarrow> win_input list windows_sink" where
  "win_inject_all ms amounts [] s = s"
| "win_inject_all ms amounts (ev # evs) s =
     win_inject_all ms amounts evs (snd (win_inject recording (\<lambda>p sent. (True, sent)) ms amounts ev s))"

definition is_key_input :: "win_input \<Rightarrow> bool" where
  "is_key_input i = (case i of WinKey _ _ _ \<Rightarrow> True | _ \<Rightarrow> False)"

definition event_keys :: "input_event \<Rightarrow> win_input list" where
  "event_keys ev = (case ev of Key code act m \<Rightarrow> key_inputs code act | _ \<Rightarrow> [])"

lemma accepts_recording [simp]: "accepts recording"
  by (simp add: accepts_def recording_def)

lemma fold_recording: "fold (\<lambda>i os. snd (recording i os)) is os = os @ is"
  by (induction "is" arbitrary: os) (simp_all add: recording_def)

lemma key_inputs_are_keys: "filter is_key_input (key_inputs code act) = key_inputs code act"
  by (simp add: key_inputs_def is_key_input_def split: option.splits)

lemma inject_other_keeps_keys:
  assumes "\<And>code act m. ev \<noteq> Key code act m"
  shows "filter is_key_input (wk_os (snd (win_inject recording (\<lambda>p sent. (True, sent)) ms amounts ev s))) =
      filter is_key_input (wk_os s)"
    "wk_held (snd (win_inject recording (\<lambda>p sent. (True, sent)) ms amounts ev s)) = wk_held s"
  using assms
  by (cases ev; auto simp: win_inject_def inject_mouse_def win_send_def recording_def is_key_input_def win_warp_def
      inject_button_def win_inject_scroll_def split_beta Let_def split: mouse_button.splits)+

lemma inject_carried_key:
  assumes "m = record_modifier code act (wk_held s)"
  shows "snd (win_inject recording (\<lambda>p sent. (True, sent)) ms amounts (Key code act m) s) =
    s \<lparr> wk_os := wk_os s @ key_inputs code act, wk_held := record_modifier code act (wk_held s) \<rparr>"
proof -
  have "reconcile (wk_held s) m = []" if "key_modifier code = None"
    using assms that by (intro reconcile_nothing) (simp add: agree_def record_modifier_def)
  moreover have "record_modifier code act (wk_held s) = wk_held s" if "key_modifier code = None"
    using that by (simp add: record_modifier_def)
  ultimately show ?thesis
    by (simp add: win_inject_def inject_key_accepted Let_def fold_recording)
qed

lemma carried_stream_sends_its_keys:
  "carries_held (wk_held s) evs \<Longrightarrow>
   filter is_key_input (wk_os (win_inject_all ms amounts evs s)) =
     filter is_key_input (wk_os s) @ concat (map event_keys evs) \<and>
   wk_held (win_inject_all ms amounts evs s) = held_after (wk_held s) evs"
proof (induction evs arbitrary: s)
  case Nil
  then show ?case by simp
next
  case (Cons ev evs)
  show ?case
  proof (cases "\<exists>code act m. ev = Key code act m")
    case True
    then obtain code act m where ev: "ev = Key code act m" by blast
    then have m: "m = record_modifier code act (wk_held s)"
      and rest: "carries_held (record_modifier code act (wk_held s)) evs" using Cons.prems by simp_all
    show ?thesis
      using Cons.IH [of "s \<lparr> wk_os := wk_os s @ key_inputs code act, wk_held := record_modifier code act (wk_held s) \<rparr>"] rest
      by (simp add: ev inject_carried_key [OF m] event_keys_def key_inputs_are_keys)
  next
    case False
    then have no: "\<And>code act m. ev \<noteq> Key code act m" by blast
    then have "carries_held (wk_held s) evs" "held_after (wk_held s) (ev # evs) = held_after (wk_held s) evs"
      "event_keys ev = []" using Cons.prems by (cases ev; simp add: event_keys_def)+
    then show ?thesis
      using Cons.IH inject_other_keeps_keys [OF no] by simp
  qed
qed

section \<open>The source\<close>

text \<open>The statics the hooks share.  \<open>ws_queue\<close> is \<^verbatim>\<open>EVENT_TX\<close> with what was sent: its sender is gone when
  the queue is not alive.  \<open>ws_parked\<close> lists the calls of \<^verbatim>\<open>SetCursorPos\<close>.\<close>
record windows_source =
  ws_queue :: capture_queue
  ws_installed :: bool
  ws_suppressed :: bool
  ws_modifiers :: u8
  ws_last :: "i32 \<times> i32"
  ws_have_last :: bool
  ws_chars :: i32
  ws_lines :: i32
  ws_wheel_x :: scaled
  ws_wheel_y :: scaled
  ws_parked :: "(i32 \<times> i32) list"

definition refresh_wheel_settings :: "i32 \<times> i32 \<Rightarrow> windows_source \<Rightarrow> windows_source" where
  "refresh_wheel_settings amounts s = s \<lparr> ws_chars := fst amounts, ws_lines := snd amounts \<rparr>"

definition windows_release :: "windows_source \<Rightarrow> windows_source" where
  "windows_release s = s \<lparr> ws_queue := (ws_queue s) \<lparr> cq_alive := False \<rparr>, ws_installed := False \<rparr>"

text \<open>What comes of starting the hook thread.  When the thread itself cannot be started the function
  returns at once, without \<open>release\<close>.\<close>
datatype hook_start = NoThread | NoHooks | Hooked

definition windows_source_new ::
  "hook_start \<Rightarrow> i32 \<times> i32 \<Rightarrow> windows_source \<Rightarrow> (windows_input_error + unit) \<times> windows_source" where
  "windows_source_new started amounts s =
     (if ws_installed s then (Inl AlreadyRunning, s)
      else
        let s = s \<lparr> ws_installed := True, ws_queue := \<lparr> cq_events = [], cq_alive = True \<rparr>,
                    ws_suppressed := False, ws_modifiers := 0, ws_have_last := False \<rparr>;
            s = refresh_wheel_settings amounts s \<lparr> ws_wheel_x := scaled_new, ws_wheel_y := scaled_new \<rparr>
        in case started of
             NoThread \<Rightarrow> (Inl HookInstall, s)
           | NoHooks \<Rightarrow> (Inl HookInstall, windows_release s)
           | Hooked \<Rightarrow> (Inr (), s))"

definition windows_poll :: "windows_source \<Rightarrow> (windows_input_error + input_event option) \<times> windows_source" where
  "windows_poll s = (let (r, q) = capture_poll WindowsCaptureStopped (ws_queue s) in (r, s \<lparr> ws_queue := q \<rparr>))"

interpretation windows: input_source windows_poll "\<lambda>s. cq_events (ws_queue s)"
  by unfold_locales (auto simp: windows_poll_def capture_poll_def)

text \<open>The cursor is parked at the centre of the desktop and motion anchored there.\<close>
definition park :: "metrics \<Rightarrow> windows_source \<Rightarrow> windows_source" where
  "park ms s = s \<lparr> ws_parked := ws_parked s @ [screen_center ms], ws_last := screen_center ms \<rparr>"

definition windows_set_suppressed :: "metrics \<Rightarrow> bool \<Rightarrow> windows_source \<Rightarrow> windows_source" where
  "windows_set_suppressed ms suppressed s =
     (let s = s \<lparr> ws_suppressed := suppressed \<rparr>
      in if suppressed then park ms s \<lparr> ws_have_last := True \<rparr> else s \<lparr> ws_have_last := False \<rparr>)"

definition windows_emit :: "input_event \<Rightarrow> windows_source \<Rightarrow> windows_source" where
  "windows_emit ev s = (if cq_alive (ws_queue s) then s \<lparr> ws_queue := capture_send ev (ws_queue s) \<rparr> else s)"

definition windows_held_modifiers :: "u8 \<Rightarrow> modifiers" where
  "windows_held_modifiers bits = held_of_bits bits"

definition modifier_bit :: "u32 \<Rightarrow> u8 option" where
  "modifier_bit vk =
     (if vk \<in> {0xA0, 0xA1, 0x10} then Some 1
      else if vk \<in> {0xA2, 0xA3, 0x11} then Some 2
      else if vk \<in> {0xA4, 0xA5, 0x12} then Some 4
      else if vk \<in> {0x5B, 0x5C} then Some 8
      else None)"

text \<open>A hook passes an event on or swallows it.\<close>
datatype hook_result = CallNext | Swallow

datatype key_message = KEYDOWN | SYSKEYDOWN | KEYUP | SYSKEYUP | KEY_OTHER

record key_info =
  ki_vk :: u32
  ki_extended :: bool
  ki_injected :: bool

text \<open>\<open>act\<close> is whether the hook was called with \<^verbatim>\<open>HC_ACTION\<close>.\<close>
definition keyboard_proc ::
  "bool \<Rightarrow> key_message \<Rightarrow> key_info \<Rightarrow> windows_source \<Rightarrow> hook_result \<times> windows_source" where
  "keyboard_proc hc_action msg info s =
     (if \<not> hc_action then (CallNext, s)
      else if ki_injected info then (CallNext, s)
      else
        case (if msg \<in> {KEYDOWN, SYSKEYDOWN} then Some Press
              else if msg \<in> {KEYUP, SYSKEYUP} then Some Release else None) of
          None \<Rightarrow> (CallNext, s)
        | Some act \<Rightarrow>
            let s = s \<lparr> ws_modifiers := record_mask (modifier_bit (ki_vk info)) act (ws_modifiers s) \<rparr>;
                s = (case win_hid_from_vk (ucast (ki_vk info)) (ki_extended info) of
                       None \<Rightarrow> s
                     | Some hid \<Rightarrow> windows_emit (Key hid act (windows_held_modifiers (ws_modifiers s))) s)
            in (if ws_suppressed s then Swallow else CallNext, s))"

datatype mouse_message = WM_MOUSEMOVE | WM_LBUTTONDOWN | WM_LBUTTONUP | WM_RBUTTONDOWN | WM_RBUTTONUP
  | WM_MBUTTONDOWN | WM_MBUTTONUP | WM_XBUTTONDOWN | WM_XBUTTONUP | WM_MOUSEWHEEL | WM_MOUSEHWHEEL
  | WM_OTHER

record mouse_info =
  mi_pt :: "i32 \<times> i32"
  mi_data :: u32
  mi_injected :: bool

definition xbutton :: "mouse_info \<Rightarrow> mouse_button" where
  "xbutton info = (if (ucast (drop_bit 16 (mi_data info)) :: u16) = XBUTTON1 then MouseBack else MouseForward)"

definition wheel_millilines :: "scaled \<Rightarrow> mouse_info \<Rightarrow> i32 \<Rightarrow> i32 \<times> scaled" where
  "wheel_millilines carry info amount_per_notch =
     (let raw = scast (ucast (drop_bit 16 (mi_data info)) :: 16 word) :: i32;
          per_notch = saturating_mul_i32 amount_per_notch (word_of_int MILLILINES_PER_LINE)
      in scaled_take raw per_notch WHEEL_DELTA carry)"

definition convert_mouse :: "metrics \<Rightarrow> mouse_message \<Rightarrow> mouse_info \<Rightarrow> windows_source \<Rightarrow> windows_source" where
  "convert_mouse ms msg info s =
     (case msg of
        WM_MOUSEMOVE \<Rightarrow>
          if \<not> ws_have_last s then s \<lparr> ws_have_last := True, ws_last := mi_pt info \<rparr>
          else
            let x = fst (mi_pt info) - fst (ws_last s); y = snd (mi_pt info) - snd (ws_last s);
                s = (if x \<noteq> 0 \<or> y \<noteq> 0 then windows_emit (Motion \<lparr> dx = x, dy = y \<rparr>) s else s)
            in if ws_suppressed s then park ms s else s \<lparr> ws_last := mi_pt info \<rparr>
      | WM_LBUTTONDOWN \<Rightarrow> windows_emit (Button MouseLeft Press) s
      | WM_LBUTTONUP \<Rightarrow> windows_emit (Button MouseLeft Release) s
      | WM_RBUTTONDOWN \<Rightarrow> windows_emit (Button MouseRight Press) s
      | WM_RBUTTONUP \<Rightarrow> windows_emit (Button MouseRight Release) s
      | WM_MBUTTONDOWN \<Rightarrow> windows_emit (Button MouseMiddle Press) s
      | WM_MBUTTONUP \<Rightarrow> windows_emit (Button MouseMiddle Release) s
      | WM_XBUTTONDOWN \<Rightarrow> windows_emit (Button (xbutton info) Press) s
      | WM_XBUTTONUP \<Rightarrow> windows_emit (Button (xbutton info) Release) s
      | WM_MOUSEWHEEL \<Rightarrow>
          let (m, carry) = wheel_millilines (ws_wheel_y s) info (ws_lines s); s = s \<lparr> ws_wheel_y := carry \<rparr>
          in if m \<noteq> 0 then windows_emit (Scroll \<lparr> scroll_dx = 0, scroll_dy = m \<rparr>) s else s
      | WM_MOUSEHWHEEL \<Rightarrow>
          let (m, carry) = wheel_millilines (ws_wheel_x s) info (ws_chars s); s = s \<lparr> ws_wheel_x := carry \<rparr>
          in if m \<noteq> 0 then windows_emit (Scroll \<lparr> scroll_dx = m, scroll_dy = 0 \<rparr>) s else s
      | WM_OTHER \<Rightarrow> s)"

definition mouse_proc ::
  "metrics \<Rightarrow> bool \<Rightarrow> mouse_message \<Rightarrow> mouse_info \<Rightarrow> windows_source \<Rightarrow> hook_result \<times> windows_source" where
  "mouse_proc ms hc_action msg info s =
     (if \<not> hc_action then (CallNext, s)
      else if mi_injected info then (CallNext, s)
      else let s = convert_mouse ms msg info s
           in (if ws_suppressed s then Swallow else CallNext, s))"

text \<open>The timer tick of the hook thread: \<open>rearmed\<close> is whether the hooks could be installed again; the
  flag is whether the thread goes on.\<close>
definition hook_timer :: "i32 \<times> i32 \<Rightarrow> bool \<Rightarrow> windows_source \<Rightarrow> bool \<times> windows_source" where
  "hook_timer amounts rearmed s =
     (let s = refresh_wheel_settings amounts s
      in if rearmed then (True, s) else (False, s \<lparr> ws_queue := (ws_queue s) \<lparr> cq_alive := False \<rparr> \<rparr>))"

text \<open>What happens to a source while it runs: calls of its two hooks, the daemon turning suppression on and
  off, and the timer of the hook thread.\<close>
datatype source_step = KeyHook bool key_message key_info | MouseHook bool mouse_message mouse_info
  | SetSuppressed bool | HookTimer "i32 \<times> i32" bool

definition source_step :: "metrics \<Rightarrow> source_step \<Rightarrow> windows_source \<Rightarrow> windows_source" where
  "source_step ms st s = (case st of
      KeyHook hc msg info \<Rightarrow> snd (keyboard_proc hc msg info s)
    | MouseHook hc msg info \<Rightarrow> snd (mouse_proc ms hc msg info s)
    | SetSuppressed b \<Rightarrow> windows_set_suppressed ms b s
    | HookTimer amounts rearmed \<Rightarrow> snd (hook_timer amounts rearmed s))"

section \<open>Captured modifiers\<close>

lemma modifier_bit_table:
  "list_all (\<lambda>(c, h). modifier_bit (ucast c) = map_option modifier_bits (key_modifier (KeyCode h))) WIN_VK_HID"
  by code_simp

lemma modifier_bit_in_table:
  "list_all (\<lambda>c. c \<in> set (map fst WIN_VK_HID)) [0xA0, 0xA1, 0xA2, 0xA3, 0xA4, 0xA5, 0x5B, 0x5C]"
  by code_simp

text \<open>The virtual keys that Win32 reports for a physical key: one byte, and for the modifiers the key of
  the side that was pressed.\<close>
definition physical_key :: "key_info \<Rightarrow> bool" where
  "physical_key info \<longleftrightarrow> ki_vk info < 0x100 \<and> ki_vk info \<notin> {0x10, 0x11, 0x12}"

lemma modifier_bit_agrees:
  assumes "physical_key info"
  shows "modifier_bit (ki_vk info) =
    map_option modifier_bits (Option.bind (win_hid_from_vk (ucast (ki_vk info)) (ki_extended info)) key_modifier)"
proof -
  let ?vk = "ki_vk info" and ?c = "ucast (ki_vk info) :: u16"
  have small: "?vk < 0x100" and generic: "?vk \<notin> {0x10, 0x11, 0x12}"
    using assms by (auto simp: physical_key_def)
  have c: "ucast ?c = ?vk" if "?vk < 0x100"
  proof -
    have "unat ?vk < 256" using that by (simp add: word_less_nat_alt)
    then have "unat (ucast ?c :: u32) = unat ?vk" by (simp add: unsigned_ucast_eq unsigned_take_bit_eq take_bit_nat_eq_self_iff)
    then show ?thesis by (simp only: word_unat_eq_iff)
  qed
  have fwd: "modifier_bit ?vk = map_option modifier_bits (key_modifier (KeyCode h))" if "(?c, h) \<in> set WIN_VK_HID" for h
    using modifier_bit_table that c [OF small] by (auto simp: list_all_iff)
  show ?thesis
  proof (cases "?c = VK_RETURN")
    case True
    then show ?thesis using c [OF small]
      by (auto simp: win_hid_from_vk_def modifier_bit_def key_modifier_def VK_RETURN_def KEYPAD_ENTER_def KEY_RETURN_def)
  next
    case False
    then have hid: "win_hid_from_vk ?c (ki_extended info) = hid_of_native WIN_VK_HID ?c"
      by (simp add: win_hid_from_vk_def)
    show ?thesis
    proof (cases "hid_of_native WIN_VK_HID ?c")
      case None
      then have "?c \<notin> set (map fst WIN_VK_HID)"
        using win_keys.hid_of_native_iff [of ?c "KeyCode h" for h] by force
      then have "?vk \<notin> {0xA0, 0xA1, 0xA2, 0xA3, 0xA4, 0xA5, 0x5B, 0x5C}"
        using modifier_bit_in_table by auto (force+)
      then show ?thesis using generic None hid by (simp add: modifier_bit_def)
    next
      case (Some k)
      then have "(?c, key_value k) \<in> set WIN_VK_HID" by (simp add: win_keys.hid_of_native_iff)
      from fwd [OF this] show ?thesis using hid Some by simp
    qed
  qed
qed

text \<open>A key the source is told about is one of the physical keys.\<close>
definition physical_step :: "source_step \<Rightarrow> bool" where
  "physical_step st = (case st of KeyHook hc msg info \<Rightarrow> physical_key info | _ \<Rightarrow> True)"

definition no_key :: "input_event \<Rightarrow> bool" where
  "no_key ev = (case ev of Key _ _ _ \<Rightarrow> False | _ \<Rightarrow> True)"

text \<open>How a step may change the queue and the held modifiers.\<close>
definition extends_held :: "windows_source \<Rightarrow> windows_source \<Rightarrow> bool" where
  "extends_held s s' \<longleftrightarrow> (\<exists>out. cq_events (ws_queue s') = cq_events (ws_queue s) @ out \<and>
     (cq_alive (ws_queue s') \<longrightarrow> cq_alive (ws_queue s)) \<and> (\<not> cq_alive (ws_queue s) \<longrightarrow> out = []) \<and>
     carries_held (held_of_bits (ws_modifiers s)) out \<and>
     (cq_alive (ws_queue s') \<longrightarrow> held_of_bits (ws_modifiers s') = held_after (held_of_bits (ws_modifiers s)) out))"

lemma extends_held_refl:
  "ws_modifiers s' = ws_modifiers s \<Longrightarrow> cq_events (ws_queue s') = cq_events (ws_queue s) \<Longrightarrow>
   (cq_alive (ws_queue s') \<longrightarrow> cq_alive (ws_queue s)) \<Longrightarrow> extends_held s s'"
  by (simp add: extends_held_def)

lemma extends_held_self [simp]: "extends_held s s"
  by (simp add: extends_held_refl)

lemma extends_held_trans: "extends_held s t \<Longrightarrow> extends_held t u \<Longrightarrow> extends_held s u"
  unfolding extends_held_def
  by (elim exE conjE, rule_tac x = "out @ outa" in exI) (auto simp: carries_held_append held_after_append)

lemma extends_held_emit:
  "no_key ev \<Longrightarrow> extends_held s (windows_emit ev s)"
  unfolding extends_held_def
  by (rule exI [of _ "if cq_alive (ws_queue s) then [ev] else []"])
    (cases ev; simp add: windows_emit_def capture_send_def no_key_def)

lemma keyboard_proc_held:
  assumes "physical_key info"
  shows "extends_held s (snd (keyboard_proc hc msg info s))"
proof -
  let ?hid = "win_hid_from_vk (ucast (ki_vk info)) (ki_extended info)"
  have one: "extends_held s (case ?hid of None \<Rightarrow> t
       | Some hid \<Rightarrow> windows_emit (Key hid act (windows_held_modifiers (ws_modifiers t))) t)"
    if "t = s \<lparr> ws_modifiers := record_mask (modifier_bit (ki_vk info)) act (ws_modifiers s) \<rparr>" for t act
  proof (cases ?hid)
    case None
    then show ?thesis using that modifier_bit_agrees [OF assms]
      by (simp add: extends_held_def record_mask_def)
  next
    case (Some hid)
    then have "modifier_bit (ki_vk info) = map_option modifier_bits (key_modifier hid)"
      using modifier_bit_agrees [OF assms] by simp
    note rec = record_mask_modifier [OF this, of act "ws_modifiers s"]
    show ?thesis unfolding extends_held_def
      by (rule exI [of _ "if cq_alive (ws_queue s) then [Key hid act (windows_held_modifiers (ws_modifiers t))] else []"])
        (simp add: that Some windows_emit_def capture_send_def windows_held_modifiers_def rec)
  qed
  show ?thesis
    by (simp add: keyboard_proc_def Let_def one extends_held_refl)
qed

lemma convert_mouse_held: "extends_held s (convert_mouse ms msg info s)"
proof -
  have set_wheel: "extends_held s (s \<lparr> ws_wheel_y := c \<rparr>)" "extends_held s (s \<lparr> ws_wheel_x := c \<rparr>)"
    "extends_held s (s \<lparr> ws_have_last := True, ws_last := p \<rparr>)" for c p
    by (simp_all add: extends_held_def)
  have anchored: "extends_held t (park ms t)" "extends_held t (t \<lparr> ws_last := p \<rparr>)" for t p
    by (simp_all add: extends_held_def park_def)
  note emit = extends_held_emit extends_held_trans [OF _ extends_held_emit]
  show ?thesis
    by (cases msg)
      (auto simp: convert_mouse_def Let_def split_beta no_key_def
        intro!: emit set_wheel anchored extends_held_trans [OF extends_held_emit anchored(1)]
          extends_held_trans [OF extends_held_emit anchored(2)])
qed

lemma source_step_held: "physical_step st \<Longrightarrow> extends_held s (source_step ms st s)"
  by (cases st)
    (simp_all add: source_step_def physical_step_def keyboard_proc_held mouse_proc_def Let_def convert_mouse_held
      windows_set_suppressed_def park_def hook_timer_def refresh_wheel_settings_def
      extends_held_refl)

lemma source_steps_held:
  "list_all physical_step sts \<Longrightarrow> extends_held s (fold (source_step ms) sts s)"
  by (induction sts arbitrary: s)
    (auto intro: extends_held_trans [OF source_step_held] extends_held_refl)

section \<open>The distance of scrolling\<close>

text \<open>What one wheel event turned, in 120ths of a notch, and a run of such events at a source.\<close>
definition wheel_turn :: "mouse_info \<Rightarrow> int" where
  "wheel_turn info = sint (scast (ucast (drop_bit 16 (mi_data info)) :: 16 word) :: i32)"

definition turn_wheel :: "metrics \<Rightarrow> mouse_info list \<Rightarrow> windows_source \<Rightarrow> windows_source" where
  "turn_wheel ms infos s = fold (convert_mouse ms WM_MOUSEWHEEL) infos s"

text \<open>Vertical milli-lines of an event, and vertical wheel turns among what the system was sent.\<close>
definition scrolled :: "input_event \<Rightarrow> int" where
  "scrolled ev = (case ev of Scroll d \<Rightarrow> sint (scroll_dy d) | _ \<Rightarrow> 0)"

definition turned :: "win_input \<Rightarrow> int" where
  "turned i = (case i of WinMouse WHEEL d _ _ \<Rightarrow> sint d | _ \<Rightarrow> 0)"

lemma per_notch:
  assumes "1 \<le> sint n" and "sint n \<le> 100"
  shows "sint (saturating_mul_i32 n (word_of_int MILLILINES_PER_LINE)) = sint n * 1000"
    "sint (saturating_mul_i32 (word_of_int MILLILINES_PER_LINE) n) = sint n * 1000"
proof -
  have m: "sint (word_of_int MILLILINES_PER_LINE :: i32) = 1000" by (simp add: MILLILINES_PER_LINE_def)
  have b: "max i32_min (min i32_max (sint n * 1000)) = sint n * 1000"
    using assms by simp
  show "sint (saturating_mul_i32 n (word_of_int MILLILINES_PER_LINE)) = sint n * 1000"
    "sint (saturating_mul_i32 (word_of_int MILLILINES_PER_LINE) n) = sint n * 1000"
    using assms by (simp_all only: saturating_mul_i32_def m b mult.commute [of 1000 "sint n"])
      (simp_all add: sint_word_of_int_i32 del: of_int_mult)
qed

lemma small_product:
  assumes "\<bar>v\<bar> \<le> (12000 :: int)" and "1 \<le> n" and "n \<le> 100"
  shows "\<bar>v * (n * 1000)\<bar> \<le> 1200000000"
proof -
  have "\<bar>v\<bar> * \<bar>n * 1000\<bar> \<le> 12000 * 100000" using assms by (intro mult_mono) auto
  then show ?thesis by (simp add: abs_mult)
qed

lemma turn_wheel_scrolls:
  assumes n: "1 \<le> sint (ws_lines s)" "sint (ws_lines s) \<le> 100" and "cq_alive (ws_queue s)"
    and "\<bar>sint (scaled_pending (ws_wheel_y s))\<bar> < 120"
    and "\<forall>info\<in>set infos. \<bar>wheel_turn info\<bar> \<le> 12000"
  shows "\<exists>out. cq_events (ws_queue (turn_wheel ms infos s)) = cq_events (ws_queue s) @ out \<and>
    (\<forall>ev\<in>set out. \<exists>m. ev = Scroll \<lparr> scroll_dx = 0, scroll_dy = m \<rparr> \<and> \<bar>sint m * 120\<bar> \<le> 1200000240) \<and>
    (\<Sum>ev\<leftarrow>out. scrolled ev) * 120 + sint (scaled_pending (ws_wheel_y (turn_wheel ms infos s))) =
      sint (scaled_pending (ws_wheel_y s)) + (\<Sum>info\<leftarrow>infos. wheel_turn info) * (sint (ws_lines s) * 1000) \<and>
    \<bar>sint (scaled_pending (ws_wheel_y (turn_wheel ms infos s)))\<bar> < 120"
  using assms
proof (induction infos arbitrary: s)
  case Nil
  then show ?case by (simp add: turn_wheel_def)
next
  case (Cons info infos)
  let ?K = "sint (ws_lines s) * 1000"
  obtain m carry where w: "wheel_millilines (ws_wheel_y s) info (ws_lines s) = (m, carry)"
    by (cases "wheel_millilines (ws_wheel_y s) info (ws_lines s)")
  define s1 where "s1 = convert_mouse ms WM_MOUSEWHEEL info s"
  have small: "\<bar>wheel_turn info * ?K\<bar> \<le> 1200000000"
    by (rule small_product) (use Cons.prems in auto)
  have d: "sint WHEEL_DELTA = 120" by (simp add: WHEEL_DELTA_def)
  have bound: "\<bar>sint (scaled_pending (ws_wheel_y s)) + wheel_turn info * ?K\<bar> \<le> i32_max"
    using small Cons.prems(4) by simp
  have "sint m * 120 + sint (scaled_pending carry) = sint (scaled_pending (ws_wheel_y s)) + wheel_turn info * ?K"
    and carry: "\<bar>sint (scaled_pending carry)\<bar> < 120"
    using scaled_take_conserves [of WHEEL_DELTA "ws_wheel_y s"
        "scast (ucast (drop_bit 16 (mi_data info)) :: 16 word)"
        "saturating_mul_i32 (ws_lines s) (word_of_int MILLILINES_PER_LINE)"]
      bound w d per_notch(1) [OF Cons.prems(1,2)]
    by (simp_all add: wheel_millilines_def Let_def wheel_turn_def)
  note step = this
  let ?out = "if m \<noteq> 0 then [Scroll \<lparr> scroll_dx = 0, scroll_dy = m \<rparr>] else []"
  have s1: "cq_events (ws_queue s1) = cq_events (ws_queue s) @ ?out" "cq_alive (ws_queue s1)"
    "ws_lines s1 = ws_lines s" "ws_wheel_y s1 = carry"
    using Cons.prems(3) by (simp_all add: s1_def convert_mouse_def w windows_emit_def capture_send_def Let_def)
  have small_m: "\<bar>sint m * 120\<bar> \<le> 1200000240"
    using step(1) small carry Cons.prems(4) by linarith
  have turn: "turn_wheel ms (info # infos) s = turn_wheel ms infos s1" by (simp add: turn_wheel_def s1_def)
  obtain out where out: "cq_events (ws_queue (turn_wheel ms infos s1)) = cq_events (ws_queue s1) @ out"
    "\<forall>ev\<in>set out. \<exists>m. ev = Scroll \<lparr> scroll_dx = 0, scroll_dy = m \<rparr> \<and> \<bar>sint m * 120\<bar> \<le> 1200000240"
    "(\<Sum>ev\<leftarrow>out. scrolled ev) * 120 + sint (scaled_pending (ws_wheel_y (turn_wheel ms infos s1))) =
      sint (scaled_pending carry) + (\<Sum>info\<leftarrow>infos. wheel_turn info) * ?K"
    "\<bar>sint (scaled_pending (ws_wheel_y (turn_wheel ms infos s1)))\<bar> < 120"
    using Cons.IH [of s1] Cons.prems s1 carry by auto
  have "(\<Sum>ev\<leftarrow>?out @ out. scrolled ev) = sint m + (\<Sum>ev\<leftarrow>out. scrolled ev)"
    by (simp add: scrolled_def)
  then have "(\<Sum>ev\<leftarrow>?out @ out. scrolled ev) * 120 + sint (scaled_pending (ws_wheel_y (turn_wheel ms infos s1))) =
      sint (scaled_pending (ws_wheel_y s)) + (\<Sum>info\<leftarrow>info # infos. wheel_turn info) * ?K"
    using step(1) out(3) by (simp add: algebra_simps)
  then show ?case unfolding turn
    by (intro exI [of _ "?out @ out"]) (use out(1,2,4) s1(1) small_m in auto)
qed

lemma inject_scroll_turns:
  assumes "1 \<le> sint n" "sint n \<le> 100" and "\<bar>sint (scaled_pending (acc_y (wk_scroll s)))\<bar> < sint n * 1000"
    and "\<bar>sint m * 120\<bar> \<le> 1200000240"
    and "s' = snd (win_inject recording sc ms (c, n) (Scroll \<lparr> scroll_dx = 0, scroll_dy = m \<rparr>) s)"
  shows "(\<Sum>i\<leftarrow>wk_os s'. turned i) * (sint n * 1000) + sint (scaled_pending (acc_y (wk_scroll s'))) =
      (\<Sum>i\<leftarrow>wk_os s. turned i) * (sint n * 1000) + sint (scaled_pending (acc_y (wk_scroll s))) + sint m * 120"
    "\<bar>sint (scaled_pending (acc_y (wk_scroll s')))\<bar> < sint n * 1000"
proof -
  let ?d = "saturating_mul_i32 (word_of_int MILLILINES_PER_LINE) n"
  have d: "sint ?d = sint n * 1000" "0 < sint ?d" using per_notch(2) assms(1,2) by simp_all
  obtain wx ax where x: "scaled_take 0 WHEEL_DELTA (saturating_mul_i32 (word_of_int MILLILINES_PER_LINE) c)
      (acc_x (wk_scroll s)) = (wx, ax)" by fastforce
  obtain wy ay where y: "scaled_take m WHEEL_DELTA ?d (acc_y (wk_scroll s)) = (wy, ay)" by fastforce
  have w: "sint WHEEL_DELTA = 120" by (simp add: WHEEL_DELTA_def)
  have bound: "\<bar>sint (scaled_pending (acc_y (wk_scroll s))) + sint m * sint WHEEL_DELTA\<bar> \<le> i32_max"
    unfolding w using assms(2-4) by simp
  have sent: "(\<Sum>i\<leftarrow>wk_os s'. turned i) = (\<Sum>i\<leftarrow>wk_os s. turned i) + sint wy" "acc_y (wk_scroll s') = ay"
    using x y by (auto simp: assms(5) win_inject_def win_inject_scroll_def take_scaled_def inject_mouse_def win_send_def
        recording_def turned_def Let_def)
  show "(\<Sum>i\<leftarrow>wk_os s'. turned i) * (sint n * 1000) + sint (scaled_pending (acc_y (wk_scroll s'))) =
      (\<Sum>i\<leftarrow>wk_os s. turned i) * (sint n * 1000) + sint (scaled_pending (acc_y (wk_scroll s))) + sint m * 120"
    using scaled_take_conserves(1) [OF d(2) bound] y d(1) w by (simp add: sent algebra_simps)
  show "\<bar>sint (scaled_pending (acc_y (wk_scroll s')))\<bar> < sint n * 1000"
    using scaled_take_conserves(2) [OF d(2) bound] y d(1) by (simp add: sent)
qed

lemma inject_scrolls_turn:
  assumes "1 \<le> sint n" "sint n \<le> 100" and "\<bar>sint (scaled_pending (acc_y (wk_scroll s)))\<bar> < sint n * 1000"
    and "\<forall>ev\<in>set evs. \<exists>m. ev = Scroll \<lparr> scroll_dx = 0, scroll_dy = m \<rparr> \<and> \<bar>sint m * 120\<bar> \<le> 1200000240"
  shows "(\<Sum>i\<leftarrow>wk_os (win_inject_all ms (c, n) evs s). turned i) * (sint n * 1000) +
      sint (scaled_pending (acc_y (wk_scroll (win_inject_all ms (c, n) evs s)))) =
      (\<Sum>i\<leftarrow>wk_os s. turned i) * (sint n * 1000) + sint (scaled_pending (acc_y (wk_scroll s))) +
      (\<Sum>ev\<leftarrow>evs. scrolled ev) * 120 \<and>
    \<bar>sint (scaled_pending (acc_y (wk_scroll (win_inject_all ms (c, n) evs s))))\<bar> < sint n * 1000"
  using assms(3,4)
proof (induction evs arbitrary: s)
  case Nil
  then show ?case by simp
next
  case (Cons ev evs)
  then obtain m where ev: "ev = Scroll \<lparr> scroll_dx = 0, scroll_dy = m \<rparr>" and m: "\<bar>sint m * 120\<bar> \<le> 1200000240" by auto
  define s1 where "s1 = snd (win_inject recording (\<lambda>p sent. (True, sent)) ms (c, n) ev s)"
  note one = inject_scroll_turns [OF assms(1,2) Cons.prems(1) m, OF s1_def [unfolded ev]]
  show ?case using Cons.IH [of s1] Cons.prems(2) one
    by (simp add: s1_def [symmetric]) (simp add: ev scrolled_def algebra_simps)
qed

section \<open>Properties\<close>



text \<open>C17. An ordinary key arriving on Windows repairs the modifiers first: as long as the system accepts
  input, the modifiers held afterwards agree with those the event carries, keys held too long are let go
  before missing ones are pressed, each of the four at most once, and the key itself comes last.\<close>
theorem sink_repairs_modifiers:
  assumes "accepts send" and "key_modifier code = None"
    and "inject_key send code act m s = (r, s')"
  shows "r = Inr () \<and> agree (wk_held s') m \<and>
    wk_os s' = fold (\<lambda>i os. snd (send i os))
      (map (\<lambda>vk. WinKey vk True False)
         (map snd (filter (\<lambda>(x, _). mods_contains (wk_held s) x \<and> \<not> mods_contains m x) MODIFIER_KEYS)) @
       map (\<lambda>vk. WinKey vk False False)
         (map snd (filter (\<lambda>(x, _). mods_contains m x \<and> \<not> mods_contains (wk_held s) x) MODIFIER_KEYS)) @
       key_inputs code act) (wk_os s)"
  using assms(2,3) agree_reconciled
  by (auto simp: inject_key_accepted [OF assms(1)] reconcile_inputs)

lemma sink_repairs_modifiers_witness:
  "wk_os (snd (inject_key (\<lambda>i os. (True, os @ [i])) (KeyCode 4) Press SHIFT
     \<lparr> wk_os = [], wk_scroll = accumulator_new, wk_held = CONTROL \<rparr>)) =
   [WinKey 0xA2 True False, WinKey 0xA0 False False, WinKey 0x41 False False]"
proof -
  let ?s = "\<lparr> wk_os = [], wk_scroll = accumulator_new, wk_held = CONTROL \<rparr>"
  let ?send = "\<lambda>i os. (True, os @ [i :: win_input])"
  have acc: "accepts ?send" by (simp add: accepts_def)
  have key: "key_inputs (KeyCode 4) Press = [WinKey 0x41 False False]" by code_simp
  have releases: "filter (\<lambda>(x, _). mods_contains CONTROL x \<and> \<not> mods_contains SHIFT x) MODIFIER_KEYS = [(CONTROL, 0xA2)]"
    by code_simp
  have presses: "filter (\<lambda>(x, _). mods_contains SHIFT x \<and> \<not> mods_contains CONTROL x) MODIFIER_KEYS = [(SHIFT, 0xA0)]"
    by code_simp
  have ordinary: "key_modifier (KeyCode 4) = None" by code_simp
  show ?thesis
    using sink_repairs_modifiers [OF acc ordinary, of Press SHIFT ?s, OF prod.collapse [symmetric]]
    by (simp add: key releases presses)
qed

text \<open>While input is withheld nothing local gets through and nothing is lost: a physical key or mouse
  event is swallowed, a key of the table is queued with its held modifiers, and input this or another
  program injected is passed on without being captured.\<close>
theorem suppressed_input_is_swallowed:
  assumes "ws_suppressed s" and "cq_alive (ws_queue s)"
  shows "(ki_injected info \<longrightarrow> keyboard_proc True msg info s = (CallNext, s)) \<and>
    (mi_injected minfo \<longrightarrow> mouse_proc ms True mmsg minfo s = (CallNext, s)) \<and>
    (\<not> mi_injected minfo \<longrightarrow> fst (mouse_proc ms True mmsg minfo s) = Swallow) \<and>
    (\<not> ki_injected info \<and> msg \<noteq> KEY_OTHER \<longrightarrow>
       fst (keyboard_proc True msg info s) = Swallow \<and>
       (\<forall>hid. win_hid_from_vk (ucast (ki_vk info)) (ki_extended info) = Some hid \<longrightarrow>
          cq_events (ws_queue (snd (keyboard_proc True msg info s))) =
            cq_events (ws_queue s) @
              [Key hid (if msg \<in> {KEYDOWN, SYSKEYDOWN} then Press else Release)
                 (windows_held_modifiers (ws_modifiers (snd (keyboard_proc True msg info s))))]))"
proof -
  have emit: "ws_suppressed (windows_emit ev t) = ws_suppressed t" for ev t by (simp add: windows_emit_def)
  have park: "ws_suppressed (park ms t) = ws_suppressed t" for t by (simp add: park_def)
  have mouse: "ws_suppressed (convert_mouse ms mmsg minfo s) = ws_suppressed s"
    by (simp add: convert_mouse_def Let_def split_beta emit park split: mouse_message.splits)
  show ?thesis using assms
    by (cases msg) (auto simp: keyboard_proc_def mouse_proc_def mouse emit Let_def windows_emit_def capture_send_def
        split: option.splits)
qed

lemma suppressed_input_is_swallowed_witness:
  "fst (keyboard_proc True KEYDOWN \<lparr> ki_vk = 0x41, ki_extended = False, ki_injected = False \<rparr>
     \<lparr> ws_queue = \<lparr> cq_events = [], cq_alive = True \<rparr>, ws_installed = True, ws_suppressed = True,
       ws_modifiers = 0, ws_last = (0, 0), ws_have_last = True, ws_chars = 3, ws_lines = 3, ws_wheel_x = scaled_new,
       ws_wheel_y = scaled_new, ws_parked = [] \<rparr>) = Swallow"
  by (rule suppressed_input_is_swallowed [THEN conjunct2, THEN conjunct2, THEN conjunct2, THEN mp, THEN conjunct1])
    simp_all



end
