(* ===== verification/MacInput.thy ===== *)
theory MacInput
  imports Complex_Main InputPorts Keymaps
begin

text \<open>
  \<^verbatim>\<open>crates/omni-input/src/macos\<close>: the translation between Core Graphics and the protocol (\<^verbatim>\<open>convert.rs\<close>),
  the event tap that captures and withholds local input (\<^verbatim>\<open>source.rs\<close>), the sink with its drags and
  click counts (\<^verbatim>\<open>sink.rs\<close>), and the desktop over all displays (\<^verbatim>\<open>mod.rs\<close>).  Core Graphics is an
  argument of the sink: creating events, posting them, reading and warping the cursor, the displays.
  Coordinates and line counts, \<^verbatim>\<open>f64\<close> in the code, are reals: the values that occur are 32-bit integers
  and 16.16 fixed-point numbers, on which the code's sums and products are exact.  Time is in seconds.
\<close>

unbundle bit_operations_syntax

datatype macos_input_error = TapCreation | MacCaptureStopped | EventCreation

section \<open>Flags, buttons, Caps Lock\<close>

text \<open>The flags of an event, as the set of those that are up; the code looks at five.\<close>
datatype cg_flag = FlagAlphaShift | FlagShift | FlagControl | FlagAlternate | FlagCommand
type_synonym cg_flags = "cg_flag set"

definition modifiers_from_flags :: "cg_flags \<Rightarrow> modifiers" where
  "modifiers_from_flags flags =
     (let m = MOD_NONE;
          m = (if FlagShift \<in> flags then mods_with m SHIFT else m);
          m = (if FlagControl \<in> flags then mods_with m CONTROL else m);
          m = (if FlagAlternate \<in> flags then mods_with m ALT else m)
      in if FlagCommand \<in> flags then mods_with m META else m)"

definition flags_from_modifiers :: "modifiers \<Rightarrow> cg_flags" where
  "flags_from_modifiers m =
     (let flags = {};
          flags = (if mods_contains m SHIFT then insert FlagShift flags else flags);
          flags = (if mods_contains m CONTROL then insert FlagControl flags else flags);
          flags = (if mods_contains m ALT then insert FlagAlternate flags else flags)
      in if mods_contains m META then insert FlagCommand flags else flags)"

definition CAPS_LOCK_VK :: u16 where "CAPS_LOCK_VK = 57"

definition is_modifier_vk :: "u16 \<Rightarrow> bool" where
  "is_modifier_vk vk \<longleftrightarrow> 54 \<le> vk \<and> vk \<le> 62"

definition caps_lock_on :: "cg_flags \<Rightarrow> bool" where
  "caps_lock_on flags \<longleftrightarrow> FlagAlphaShift \<in> flags"

definition caps_lock_tap :: "bool \<Rightarrow> bool \<Rightarrow> modifiers \<Rightarrow> input_event list option" where
  "caps_lock_tap previous now m =
     (if previous = now then None
      else Some [Key CAPS_LOCK Press m, Key CAPS_LOCK Release m])"

definition toggle_modifier :: "u64 \<Rightarrow> u16 \<Rightarrow> u64 \<times> action" where
  "toggle_modifier held vk =
     (let b = push_bit (unat (vk mod 64)) 1
      in if held AND b \<noteq> 0 then (held AND NOT b, Release) else (held OR b, Press))"

definition cg_button_number :: "mouse_button \<Rightarrow> int" where
  "cg_button_number button = (case button of
      MouseLeft \<Rightarrow> 0 | MouseRight \<Rightarrow> 1 | MouseMiddle \<Rightarrow> 2 | MouseBack \<Rightarrow> 3 | MouseForward \<Rightarrow> 4
    | MouseOther n \<Rightarrow> uint n)"

definition next_click_count :: "bool \<Rightarrow> real \<Rightarrow> real \<Rightarrow> int \<Rightarrow> real \<Rightarrow> real \<Rightarrow> int" where
  "next_click_count same_button elapsed distance previous_count interval max_distance =
     (if same_button \<and> elapsed \<le> interval \<and> distance \<le> max_distance then previous_count + 1 else 1)"

definition button_from_cg_number :: "int \<Rightarrow> mouse_button" where
  "button_from_cg_number number =
     (if number = 0 then MouseLeft
      else if number = 1 then MouseRight
      else if number = 2 then MouseMiddle
      else if number = 3 then MouseBack
      else if number = 4 then MouseForward
      else MouseOther (word_of_int (max 0 (min 255 number))))"

section \<open>Fractional lines\<close>

text \<open>\<^verbatim>\<open>f64::round\<close>, half away from zero, and the saturating cast to \<^verbatim>\<open>i32\<close>.\<close>
definition round_away :: "real \<Rightarrow> int" where
  "round_away x = (if 0 \<le> x then \<lfloor>x + 1 / 2\<rfloor> else - \<lfloor>- x + 1 / 2\<rfloor>)"

definition saturate_i32 :: "int \<Rightarrow> i32" where
  "saturate_i32 k = word_of_int (max i32_min (min i32_max k))"

text \<open>\<^const>\<open>None\<close> is not a number, which a cast turns into zero.\<close>
definition millilines_from_lines :: "real option \<Rightarrow> i32" where
  "millilines_from_lines lines = (case lines of
      None \<Rightarrow> 0
    | Some l \<Rightarrow>
        let m = saturate_i32 (round_away (l * real_of_int MILLILINES_PER_LINE))
        in if m \<noteq> 0 \<or> l = 0 then m else if l < 0 then - 1 else 1)"

section \<open>The desktop\<close>

record display =
  disp_x :: real
  disp_y :: real
  disp_width :: real
  disp_height :: real

text \<open>Casting an \<^verbatim>\<open>f64\<close> to \<^verbatim>\<open>u32\<close> and \<^verbatim>\<open>i32\<close>: towards zero, saturating.\<close>
definition real_to_u32 :: "real \<Rightarrow> u32" where
  "real_to_u32 x = word_of_int (max 0 (min 4294967295 \<lfloor>x\<rfloor>))"

definition real_to_i32 :: "real \<Rightarrow> i32" where
  "real_to_i32 x = saturate_i32 (if 0 \<le> x then \<lfloor>x\<rfloor> else \<lceil>x\<rceil>)"

definition display_extent :: "display \<Rightarrow> real \<times> real \<times> real \<times> real" where
  "display_extent d = (disp_x d, disp_y d, disp_x d + disp_width d, disp_y d + disp_height d)"

definition extend_union ::
  "display \<Rightarrow> (real \<times> real \<times> real \<times> real) option \<Rightarrow> (real \<times> real \<times> real \<times> real) option" where
  "extend_union d acc =
     (let (left, top, right, bottom) = display_extent d
      in Some (case acc of
          None \<Rightarrow> (left, top, right, bottom)
        | Some (l, t, r, b) \<Rightarrow> (min l left, min t top, max r right, max b bottom)))"

text \<open>\<open>active\<close> is the list of displays, if the system gives one; \<open>main_display\<close> the fallback when it is empty.\<close>
definition mac_desktop_bounds :: "display list option \<Rightarrow> display \<Rightarrow> desktop_bounds option" where
  "mac_desktop_bounds active main_display =
     do { displays \<leftarrow> active;
          let (left, top, right, bottom) = (case fold extend_union displays None of
              Some u \<Rightarrow> u | None \<Rightarrow> display_extent main_display);
          let width = real_to_u32 (right - left);
          let height = real_to_u32 (bottom - top);
          if 0 < width \<and> 0 < height
          then Some \<lparr> origin_x = real_to_i32 left, origin_y = real_to_i32 top,
                      desktop_width = width, desktop_height = height \<rparr>
          else None }"

definition mac_screen_size :: "display list option \<Rightarrow> display \<Rightarrow> (u32 \<times> u32) option" where
  "mac_screen_size active main_display = map_option desktop_size (mac_desktop_bounds active main_display)"

text \<open>\<open>location\<close>: where Core Graphics says the cursor is.\<close>
definition mac_cursor_position ::
  "display list option \<Rightarrow> display \<Rightarrow> (real \<times> real) option \<Rightarrow> (i32 \<times> i32) option" where
  "mac_cursor_position active main_display location =
     do { p \<leftarrow> location; b \<leftarrow> mac_desktop_bounds active main_display;
          Some (to_desktop b (real_to_i32 (fst p), real_to_i32 (snd p))) }"

section \<open>The source\<close>

datatype tap_type = TapDisabledByTimeout | TapDisabledByUserInput | KeyDown | KeyUp | FlagsChanged
  | MouseMoved | LeftMouseDragged | RightMouseDragged | OtherMouseDragged
  | LeftMouseDown | LeftMouseUp | RightMouseDown | RightMouseUp | OtherMouseDown | OtherMouseUp
  | ScrollWheel | TapOther

text \<open>The fields of an event that the tap reads; the integer fields are \<^verbatim>\<open>i64\<close>.\<close>
record tap_event =
  te_keycode :: int
  te_flags :: cg_flags
  te_dx :: int
  te_dy :: int
  te_button :: int
  te_axis1 :: "real option"
  te_axis2 :: "real option"
  te_user_data :: int

definition INJECTED_MARKER :: int where "INJECTED_MARKER = 0x4F4D4E49"

text \<open>\<open>ms_hidden\<close> counts the calls that hide the cursor against those that show it.\<close>
record mac_source =
  ms_queue :: capture_queue
  ms_suppressed :: bool
  ms_held :: u64
  ms_caps :: bool
  ms_hidden :: int

text \<open>\<open>tapped\<close>: whether the tap thread started and could create its tap.\<close>
definition mac_source_new :: "bool \<Rightarrow> macos_input_error + mac_source" where
  "mac_source_new tapped =
     (if tapped
      then Inr \<lparr> ms_queue = \<lparr> cq_events = [], cq_alive = True \<rparr>, ms_suppressed = False, ms_held = 0,
                 ms_caps = False, ms_hidden = 0 \<rparr>
      else Inl TapCreation)"

definition mac_poll :: "mac_source \<Rightarrow> (macos_input_error + input_event option) \<times> mac_source" where
  "mac_poll s = (let (r, q) = capture_poll MacCaptureStopped (ms_queue s) in (r, s \<lparr> ms_queue := q \<rparr>))"

interpretation mac: input_source mac_poll "\<lambda>s. cq_events (ms_queue s)"
  by unfold_locales (auto simp: mac_poll_def capture_poll_def)

definition mac_set_suppressed :: "bool \<Rightarrow> mac_source \<Rightarrow> mac_source" where
  "mac_set_suppressed suppressed s =
     (let old = ms_suppressed s; s = s \<lparr> ms_suppressed := suppressed \<rparr>
      in if suppressed \<and> \<not> old then s \<lparr> ms_hidden := ms_hidden s + 1 \<rparr>
         else if \<not> suppressed \<and> old then s \<lparr> ms_hidden := ms_hidden s - 1 \<rparr>
         else s)"

definition convert_one :: "tap_type \<Rightarrow> tap_event \<Rightarrow> u64 \<Rightarrow> input_event option \<times> u64" where
  "convert_one ty ev held =
     (if ty = KeyDown \<or> ty = KeyUp then
        case mac_hid_from_vk (word_of_int (te_keycode ev)) of
          None \<Rightarrow> (None, held)
        | Some code \<Rightarrow>
            (Some (Key code (if ty = KeyDown then Press else Release) (modifiers_from_flags (te_flags ev))), held)
      else if ty = FlagsChanged then
        let vk = word_of_int (te_keycode ev)
        in if \<not> is_modifier_vk vk then (None, held)
           else case mac_hid_from_vk vk of
               None \<Rightarrow> (None, held)
             | Some code \<Rightarrow>
                 let (held, act) = toggle_modifier held vk
                 in (Some (Key code act (modifiers_from_flags (te_flags ev))), held)
      else if ty \<in> {MouseMoved, LeftMouseDragged, RightMouseDragged, OtherMouseDragged} then
        (Some (Motion \<lparr> dx = word_of_int (te_dx ev), dy = word_of_int (te_dy ev) \<rparr>), held)
      else if ty \<in> {LeftMouseDown, LeftMouseUp, RightMouseDown, RightMouseUp, OtherMouseDown, OtherMouseUp} then
        (Some (Button (button_from_cg_number (te_button ev))
           (if ty \<in> {LeftMouseDown, RightMouseDown, OtherMouseDown} then Press else Release)), held)
      else if ty = ScrollWheel then
        let y = millilines_from_lines (te_axis1 ev); x = millilines_from_lines (te_axis2 ev)
        in (if x = 0 \<and> y = 0 then None else Some (Scroll \<lparr> scroll_dx = x, scroll_dy = y \<rparr>), held)
      else (None, held))"

definition mac_convert_event :: "tap_type \<Rightarrow> tap_event \<Rightarrow> u64 \<Rightarrow> bool \<Rightarrow> input_event list \<times> u64 \<times> bool" where
  "mac_convert_event ty ev held caps =
     (if ty = FlagsChanged \<and> (word_of_int (te_keycode ev) :: u16) = CAPS_LOCK_VK then
        let now = caps_lock_on (te_flags ev)
        in (case caps_lock_tap caps now (modifiers_from_flags (te_flags ev)) of Some tap \<Rightarrow> tap | None \<Rightarrow> [],
            held, now)
      else
        let (one, held) = convert_one ty ev held
        in (case one of Some e \<Rightarrow> [e] | None \<Rightarrow> [], held, caps))"

datatype tap_result = TapKeep | TapDrop

definition tap_callback :: "tap_type \<Rightarrow> tap_event \<Rightarrow> mac_source \<Rightarrow> tap_result \<times> mac_source" where
  "tap_callback ty ev s =
     (if ty = TapDisabledByTimeout \<or> ty = TapDisabledByUserInput then (TapKeep, s)
      else if te_user_data ev = INJECTED_MARKER then (TapKeep, s)
      else
        let (out, held, caps) = mac_convert_event ty ev (ms_held s) (ms_caps s);
            s = s \<lparr> ms_held := held, ms_caps := caps, ms_queue := fold capture_send out (ms_queue s) \<rparr>
        in (if ms_suppressed s then TapDrop else TapKeep, s))"

text \<open>Dropping the source stops the tap and shows the cursor, however often it was hidden.\<close>
definition mac_drop :: "mac_source \<Rightarrow> mac_source" where
  "mac_drop s = s \<lparr> ms_queue := (ms_queue s) \<lparr> cq_alive := False \<rparr>, ms_hidden := ms_hidden s - 1 \<rparr>"

section \<open>The sink\<close>

record display_point =
  pt_x :: real
  pt_y :: real

definition offset_point :: "display_point \<Rightarrow> mouse_delta \<Rightarrow> display_point" where
  "offset_point p delta = \<lparr> pt_x = pt_x p + real_of_int (sint (dx delta)), pt_y = pt_y p + real_of_int (sint (dy delta)) \<rparr>"

definition distance_to :: "display_point \<Rightarrow> display_point \<Rightarrow> real" where
  "distance_to p q = sqrt ((pt_x p - pt_x q) ^ 2 + (pt_y p - pt_y q) ^ 2)"

definition from_desktop :: "desktop_bounds option \<Rightarrow> i32 \<Rightarrow> i32 \<Rightarrow> display_point" where
  "from_desktop bounds x y =
     (let p = (case bounds of Some b \<Rightarrow> to_screen b (x, y) | None \<Rightarrow> (x, y))
      in \<lparr> pt_x = real_of_int (sint (fst p)), pt_y = real_of_int (sint (snd p)) \<rparr>)"

text \<open>\<^verbatim>\<open>f64::clamp\<close>, which panics when the bounds are the wrong way round.\<close>
definition clamp_f64 :: "real \<Rightarrow> real \<Rightarrow> real \<Rightarrow> real option" where
  "clamp_f64 x low high = (if low \<le> high then Some (max low (min high x)) else None)"

definition clamp_to_display :: "desktop_bounds option \<Rightarrow> display_point \<Rightarrow> display_point option" where
  "clamp_to_display bounds p = (case bounds of
      None \<Rightarrow> Some p
    | Some b \<Rightarrow>
        let left = real_of_int (sint (origin_x b)); top = real_of_int (sint (origin_y b))
        in do { x \<leftarrow> clamp_f64 (pt_x p) left (left + real_of_int (uint (desktop_width b)) - 1);
                y \<leftarrow> clamp_f64 (pt_y p) top (top + real_of_int (uint (desktop_height b)) - 1);
                Some \<lparr> pt_x = x, pt_y = y \<rparr> })"

definition DOUBLE_CLICK_INTERVAL :: real where "DOUBLE_CLICK_INTERVAL = 1 / 2"
definition DOUBLE_CLICK_DISTANCE :: real where "DOUBLE_CLICK_DISTANCE = 4"

record last_click =
  lc_button :: int
  lc_at :: real
  lc_position :: display_point
  lc_count :: int

datatype cg_button = CgLeft | CgRight | CgCenter

text \<open>What is posted.  A button event has its number when the code sets one, and its click count.\<close>
datatype cg_event =
    CgKey u16 bool cg_flags
  | CgMove tap_type display_point cg_button cg_flags
  | CgClick tap_type display_point cg_button "int option" int cg_flags
  | CgScroll i32 i32

record 'd cg_api =
  cg_create :: "'d \<Rightarrow> bool \<times> 'd"
  cg_post :: "cg_event \<Rightarrow> 'd \<Rightarrow> 'd"
  cg_show :: "display_point \<Rightarrow> 'd \<Rightarrow> 'd"
  cg_location :: "'d \<Rightarrow> display_point"
  cg_bounds :: "'d \<Rightarrow> desktop_bounds option"

record 'd mac_sink =
  mk_os :: 'd
  mk_held_buttons :: u32
  mk_modifiers :: modifiers
  mk_last_click :: "last_click option"
  mk_scroll :: scroll_accumulator

definition mac_sink_new :: "'d \<Rightarrow> macos_input_error + 'd mac_sink" where
  "mac_sink_new os = Inr \<lparr> mk_os = os, mk_held_buttons = 0, mk_modifiers = MOD_NONE, mk_last_click = None,
                           mk_scroll = accumulator_new \<rparr>"

text \<open>An event source and an event are created, the event is posted.\<close>
definition mac_post_event ::
  "'d cg_api \<Rightarrow> cg_event \<Rightarrow> 'd mac_sink \<Rightarrow> (macos_input_error + unit) \<times> 'd mac_sink" where
  "mac_post_event api e s =
     (let (created, os) = cg_create api (mk_os s)
      in if created then (Inr (), s \<lparr> mk_os := cg_post api e os \<rparr>) else (Inl EventCreation, s \<lparr> mk_os := os \<rparr>))"

definition read_cursor :: "'d cg_api \<Rightarrow> 'd mac_sink \<Rightarrow> (macos_input_error + display_point) \<times> 'd mac_sink" where
  "read_cursor api s =
     (let (created, os) = cg_create api (mk_os s)
      in (if created then Inr (cg_location api os) else Inl EventCreation, s \<lparr> mk_os := os \<rparr>))"

definition keep_cursor_visible :: "'d cg_api \<Rightarrow> display_point \<Rightarrow> 'd mac_sink \<Rightarrow> 'd mac_sink" where
  "keep_cursor_visible api p s = s \<lparr> mk_os := cg_show api p (mk_os s) \<rparr>"

definition mac_inject_key ::
  "'d cg_api \<Rightarrow> key_code \<Rightarrow> action \<Rightarrow> modifiers \<Rightarrow> 'd mac_sink \<Rightarrow> (macos_input_error + unit) \<times> 'd mac_sink" where
  "mac_inject_key api code act m s = (case mac_vk_from_hid code of
      None \<Rightarrow> (Inr (), s)
    | Some vk \<Rightarrow> mac_post_event api (CgKey vk (act = Press) (flags_from_modifiers m)) (s \<lparr> mk_modifiers := m \<rparr>))"

definition move_kind :: "u32 \<Rightarrow> tap_type \<times> cg_button" where
  "move_kind held =
     (if held AND 1 \<noteq> 0 then (LeftMouseDragged, CgLeft)
      else if held AND 2 \<noteq> 0 then (RightMouseDragged, CgRight)
      else if held \<noteq> 0 then (OtherMouseDragged, CgCenter)
      else (MouseMoved, CgLeft))"

definition move_to ::
  "'d cg_api \<Rightarrow> display_point \<Rightarrow> 'd mac_sink \<Rightarrow> (macos_input_error + unit) \<times> 'd mac_sink" where
  "move_to api p s =
     (let (ty, button) = move_kind (mk_held_buttons s)
      in case mac_post_event api (CgMove ty p button (flags_from_modifiers (mk_modifiers s))) s of
           (Inl e, s) \<Rightarrow> (Inl e, s)
         | (Inr _, s) \<Rightarrow> (Inr (), keep_cursor_visible api p s))"

text \<open>The option is the panic of \<^verbatim>\<open>clamp\<close>.\<close>
definition inject_motion ::
  "'d cg_api \<Rightarrow> mouse_delta \<Rightarrow> 'd mac_sink \<Rightarrow> ((macos_input_error + unit) \<times> 'd mac_sink) option" where
  "inject_motion api delta s = (case read_cursor api s of
      (Inl e, s) \<Rightarrow> Some (Inl e, s)
    | (Inr p, s) \<Rightarrow>
        map_option (\<lambda>q. move_to api q s) (clamp_to_display (cg_bounds api (mk_os s)) (offset_point p delta)))"

definition inject_pointer ::
  "'d cg_api \<Rightarrow> i32 \<Rightarrow> i32 \<Rightarrow> 'd mac_sink \<Rightarrow> ((macos_input_error + unit) \<times> 'd mac_sink) option" where
  "inject_pointer api x y s =
     map_option (\<lambda>q. move_to api q s)
       (clamp_to_display (cg_bounds api (mk_os s)) (from_desktop (cg_bounds api (mk_os s)) x y))"

text \<open>\<open>now\<close> is what the clock says.\<close>
definition click_state :: "real \<Rightarrow> int \<Rightarrow> action \<Rightarrow> display_point \<Rightarrow> 'd mac_sink \<Rightarrow> int \<times> 'd mac_sink" where
  "click_state now button act position s =
     (case act of
        Press \<Rightarrow>
          let count = (case mk_last_click s of
                Some lc \<Rightarrow> next_click_count (lc_button lc = button) (max 0 (now - lc_at lc))
                            (distance_to position (lc_position lc)) (lc_count lc)
                            DOUBLE_CLICK_INTERVAL DOUBLE_CLICK_DISTANCE
              | None \<Rightarrow> 1)
          in (count, s \<lparr> mk_last_click := Some \<lparr> lc_button = button, lc_at = now, lc_position = position,
                                                lc_count = count \<rparr> \<rparr>)
      | Release \<Rightarrow>
          (case mk_last_click s of
             Some lc \<Rightarrow> (if lc_button lc = button then lc_count lc else 1, s)
           | None \<Rightarrow> (1, s)))"

definition click_kind :: "int \<Rightarrow> action \<Rightarrow> tap_type \<times> cg_button" where
  "click_kind number act =
     (if number = 0 then (if act = Press then LeftMouseDown else LeftMouseUp, CgLeft)
      else if number = 1 then (if act = Press then RightMouseDown else RightMouseUp, CgRight)
      else (if act = Press then OtherMouseDown else OtherMouseUp, CgCenter))"

definition mac_inject_button ::
  "'d cg_api \<Rightarrow> real \<Rightarrow> mouse_button \<Rightarrow> action \<Rightarrow> 'd mac_sink \<Rightarrow>
   ((macos_input_error + unit) \<times> 'd mac_sink) option" where
  "mac_inject_button api now button act s =
     (let number = cg_button_number button; (ty, cg_button) = click_kind number act
      in case read_cursor api s of
           (Inl e, s) \<Rightarrow> Some (Inl e, s)
         | (Inr p, s) \<Rightarrow>
             do { position \<leftarrow> clamp_to_display (cg_bounds api (mk_os s)) p;
                  let (count, s) = click_state now number act position s;
                  case mac_post_event api (CgClick ty position cg_button (if 2 \<le> number then Some number else None)
                         count (flags_from_modifiers (mk_modifiers s))) s of
                    (Inl e, s) \<Rightarrow> Some (Inl e, s)
                  | (Inr _, s) \<Rightarrow>
                      let b = push_bit (nat (max 0 (min 31 number))) 1
                      in Some (Inr (), s \<lparr> mk_held_buttons := (case act of
                             Press \<Rightarrow> mk_held_buttons s OR b
                           | Release \<Rightarrow> mk_held_buttons s AND NOT b) \<rparr>) })"

definition mac_inject_scroll ::
  "'d cg_api \<Rightarrow> scroll_delta \<Rightarrow> 'd mac_sink \<Rightarrow> (macos_input_error + unit) \<times> 'd mac_sink" where
  "mac_inject_scroll api delta s =
     (let ((x, y), acc) = take_lines delta (mk_scroll s); s = s \<lparr> mk_scroll := acc \<rparr>
      in if x = 0 \<and> y = 0 then (Inr (), s) else mac_post_event api (CgScroll y x) s)"

definition mac_inject ::
  "'d cg_api \<Rightarrow> real \<Rightarrow> input_event \<Rightarrow> 'd mac_sink \<Rightarrow>
   ((macos_input_error + unit) \<times> 'd mac_sink) option" where
  "mac_inject api now ev s =
     (case ev of
        Key code act m \<Rightarrow> Some (mac_inject_key api code act m s)
      | Motion delta \<Rightarrow> inject_motion api delta s
      | Pointer x y \<Rightarrow> inject_pointer api x y s
      | Button b act \<Rightarrow> mac_inject_button api now b act s
      | Scroll delta \<Rightarrow> Some (mac_inject_scroll api delta s))"

text \<open>The flags of this move are left as the event source gives them.\<close>
definition mac_warp ::
  "'d cg_api \<Rightarrow> i32 \<Rightarrow> i32 \<Rightarrow> 'd mac_sink \<Rightarrow> ((macos_input_error + unit) \<times> 'd mac_sink) option" where
  "mac_warp api x y s =
     map_option (\<lambda>p. case mac_post_event api (CgMove MouseMoved p CgLeft {}) s of
          (Inl e, s) \<Rightarrow> (Inl e, s)
        | (Inr _, s) \<Rightarrow> (Inr (), keep_cursor_visible api p s))
      (clamp_to_display (cg_bounds api (mk_os s)) (from_desktop (cg_bounds api (mk_os s)) x y))"

section \<open>Running the tap\<close>

definition tap_run :: "(tap_type \<times> tap_event) list \<Rightarrow> mac_source \<Rightarrow> mac_source" where
  "tap_run evs s = fold (\<lambda>(ty, ev) s. snd (tap_callback ty ev s)) evs s"

text \<open>What a machine's own Caps Lock latch is after it received the events: every press flips it.\<close>
fun latch_after :: "bool \<Rightarrow> input_event list \<Rightarrow> bool" where
  "latch_after latch [] = latch"
| "latch_after latch (Key code act m # evs) =
     latch_after (if code = CAPS_LOCK \<and> act = Press then \<not> latch else latch) evs"
| "latch_after latch (ev # evs) = latch_after latch evs"

lemma latch_after_append: "latch_after latch (xs @ ys) = latch_after (latch_after latch xs) ys"
  by (induction latch xs rule: latch_after.induct) auto

text \<open>What the system last said of Caps Lock, among the events the tap acts on.\<close>
definition caps_report :: "tap_type \<times> tap_event \<Rightarrow> bool \<Rightarrow> bool" where
  "caps_report = (\<lambda>(ty, ev) caps.
     if ty = FlagsChanged \<and> (word_of_int (te_keycode ev) :: u16) = CAPS_LOCK_VK \<and> te_user_data ev \<noteq> INJECTED_MARKER
     then caps_lock_on (te_flags ev) else caps)"

text \<open>Core Graphics reports the Caps Lock key as a change of flags and never as a key going down.\<close>
definition caps_by_flags :: "tap_type \<times> tap_event \<Rightarrow> bool" where
  "caps_by_flags = (\<lambda>(ty, ev). \<not> (ty = KeyDown \<and> mac_hid_from_vk (word_of_int (te_keycode ev)) = Some CAPS_LOCK))"

lemma capture_send_all: "cq_events (fold capture_send out q) = cq_events q @ out"
  by (induction out arbitrary: q) (simp_all add: capture_send_def)

lemma caps_vk: "mac_hid_from_vk vk = Some CAPS_LOCK \<longleftrightarrow> vk = CAPS_LOCK_VK"
proof -
  have "(CAPS_LOCK_VK, key_value CAPS_LOCK) \<in> set MAC_VK_HID"
    by (simp add: CAPS_LOCK_VK_def CAPS_LOCK_def MAC_VK_HID_def)
  then have h: "mac_hid_from_vk CAPS_LOCK_VK = Some CAPS_LOCK"
    by (simp add: mac_hid_from_vk_def mac_keys.hid_of_native_iff)
  show ?thesis
  proof
    assume "mac_hid_from_vk vk = Some CAPS_LOCK"
    then have "native_of_hid MAC_VK_HID CAPS_LOCK = Some vk" "native_of_hid MAC_VK_HID CAPS_LOCK = Some CAPS_LOCK_VK"
      using h mac_keys.round_trip by (simp_all add: mac_hid_from_vk_def)
    then show "vk = CAPS_LOCK_VK" by simp
  qed (simp add: h)
qed

lemma convert_event_latch:
  assumes "caps_by_flags (ty, ev)" and "mac_convert_event ty ev held caps = (out, held', caps')"
  shows "latch_after caps out = caps' \<and>
    caps' = (if ty = FlagsChanged \<and> (word_of_int (te_keycode ev) :: u16) = CAPS_LOCK_VK then caps_lock_on (te_flags ev) else caps)"
proof (cases "ty = FlagsChanged \<and> (word_of_int (te_keycode ev) :: u16) = CAPS_LOCK_VK")
  case True
  then show ?thesis using assms(2)
    by (auto simp: mac_convert_event_def Let_def caps_lock_tap_def split: if_splits)
next
  case False
  obtain one h where one: "convert_one ty ev held = (one, h)" by fastforce
  have "one \<noteq> Some (Key CAPS_LOCK Press m)" for m
    using one False assms(1)
    by (auto simp: convert_one_def caps_by_flags_def caps_vk Let_def split: if_splits option.splits prod.splits)
  then have "latch_after caps (case one of Some e \<Rightarrow> [e] | None \<Rightarrow> []) = caps"
    by (cases one; cases "the one") auto
  moreover have "out = (case one of Some e \<Rightarrow> [e] | None \<Rightarrow> [])" "caps' = caps"
    using assms(2) False one by (auto simp: mac_convert_event_def)
  ultimately show ?thesis using False by auto
qed

lemma tap_run_latch:
  "list_all caps_by_flags evs \<Longrightarrow>
   \<exists>out. cq_events (ms_queue (tap_run evs s)) = cq_events (ms_queue s) @ out \<and>
     latch_after (ms_caps s) out = ms_caps (tap_run evs s) \<and>
     ms_caps (tap_run evs s) = fold caps_report evs (ms_caps s)"
proof (induction evs arbitrary: s)
  case Nil
  then show ?case by (simp add: tap_run_def)
next
  case (Cons e evs)
  obtain ty ev where e: "e = (ty, ev)" by (cases e)
  define s1 where "s1 = snd (tap_callback ty ev s)"
  obtain out held caps where c: "mac_convert_event ty ev (ms_held s) (ms_caps s) = (out, held, caps)"
    by (cases "mac_convert_event ty ev (ms_held s) (ms_caps s)")
  have latch: "latch_after (ms_caps s) out = caps \<and> caps = (if ty = FlagsChanged \<and>
      (word_of_int (te_keycode ev) :: u16) = CAPS_LOCK_VK then caps_lock_on (te_flags ev) else ms_caps s)"
    using convert_event_latch [OF _ c] Cons.prems e by simp
  have "\<exists>o1. cq_events (ms_queue s1) = cq_events (ms_queue s) @ o1 \<and> latch_after (ms_caps s) o1 = ms_caps s1 \<and>
      ms_caps s1 = caps_report e (ms_caps s)"
  proof (cases "ty = TapDisabledByTimeout \<or> ty = TapDisabledByUserInput \<or> te_user_data ev = INJECTED_MARKER")
    case True
    then show ?thesis by (auto simp: s1_def tap_callback_def caps_report_def e)
  next
    case False
    then show ?thesis using latch
      by (intro exI [of _ out]) (auto simp: s1_def tap_callback_def caps_report_def e c capture_send_all Let_def)
  qed
  then obtain o1 where o1: "cq_events (ms_queue s1) = cq_events (ms_queue s) @ o1"
    "latch_after (ms_caps s) o1 = ms_caps s1" "ms_caps s1 = caps_report e (ms_caps s)" by blast
  obtain o2 where o2: "cq_events (ms_queue (tap_run evs s1)) = cq_events (ms_queue s1) @ o2"
    "latch_after (ms_caps s1) o2 = ms_caps (tap_run evs s1)" "ms_caps (tap_run evs s1) = fold caps_report evs (ms_caps s1)"
    using Cons by fastforce
  have "tap_run (e # evs) s = tap_run evs s1" by (simp add: tap_run_def s1_def e)
  then show ?case using o1 o2 by (intro exI [of _ "o1 @ o2"]) (simp add: latch_after_append)
qed

section \<open>The desktop\<close>

definition inside :: "desktop_bounds \<Rightarrow> display_point \<Rightarrow> bool" where
  "inside b p \<longleftrightarrow>
     real_of_int (sint (origin_x b)) \<le> pt_x p \<and>
     pt_x p \<le> real_of_int (sint (origin_x b) + uint (desktop_width b) - 1) \<and>
     real_of_int (sint (origin_y b)) \<le> pt_y p \<and>
     pt_y p \<le> real_of_int (sint (origin_y b) + uint (desktop_height b) - 1)"

definition usable :: "desktop_bounds option \<Rightarrow> bool" where
  "usable bounds = (case bounds of None \<Rightarrow> True | Some b \<Rightarrow> 0 < desktop_width b \<and> 0 < desktop_height b)"

lemma desktop_bounds_usable: "usable (mac_desktop_bounds active main_display)"
  by (cases active)
    (auto simp: usable_def mac_desktop_bounds_def Let_def split: option.splits prod.splits if_splits)

lemma positive_word: "0 < w \<Longrightarrow> 1 \<le> real_of_int (uint (w :: u32))"
proof -
  assume "0 < w"
  then have "0 < uint w" by (simp add: word_less_def)
  then show ?thesis by linarith
qed

lemma clamp_inside:
  assumes "usable bounds"
  shows "\<exists>q. clamp_to_display bounds p = Some q \<and> (\<forall>b. bounds = Some b \<longrightarrow> inside b q)"
proof (cases bounds)
  case None
  then show ?thesis by (simp add: clamp_to_display_def)
next
  case (Some b)
  then have "1 \<le> real_of_int (uint (desktop_width b))" "1 \<le> real_of_int (uint (desktop_height b))"
    using assms positive_word by (auto simp only: usable_def option.case)
  then show ?thesis using Some
    by (auto simp: clamp_to_display_def clamp_f64_def inside_def Let_def)
qed

text \<open>A system whose displays do not change and that keeps a log of the events posted.\<close>
definition logs :: "'d cg_api \<Rightarrow> ('d \<Rightarrow> cg_event list) \<Rightarrow> desktop_bounds option \<Rightarrow> bool" where
  "logs api posted bounds \<longleftrightarrow>
     (\<forall>os. cg_bounds api os = bounds \<and> posted (snd (cg_create api os)) = posted os \<and>
        (\<forall>e. posted (cg_post api e os) = posted os @ [e]) \<and> (\<forall>p. posted (cg_show api p os) = posted os))"

definition event_at :: "cg_event \<Rightarrow> display_point option" where
  "event_at e = (case e of CgMove _ p _ _ \<Rightarrow> Some p | CgClick _ p _ _ _ _ \<Rightarrow> Some p | _ \<Rightarrow> None)"

definition on_desktop :: "desktop_bounds option \<Rightarrow> cg_event \<Rightarrow> bool" where
  "on_desktop bounds e \<longleftrightarrow> (\<forall>p b. event_at e = Some p \<longrightarrow> bounds = Some b \<longrightarrow> inside b p)"

text \<open>One injection added at most one event to the log, and it lies on the desktop.\<close>
definition logged :: "('d \<Rightarrow> cg_event list) \<Rightarrow> desktop_bounds option \<Rightarrow> 'd mac_sink \<Rightarrow> 'd mac_sink \<Rightarrow> bool" where
  "logged posted bounds s s' \<longleftrightarrow>
     posted (mk_os s') = posted (mk_os s) \<or>
     (\<exists>e. posted (mk_os s') = posted (mk_os s) @ [e] \<and> on_desktop bounds e)"

lemma logged_post:
  "logs api posted bounds \<Longrightarrow> on_desktop bounds e \<Longrightarrow> logged posted bounds s (snd (mac_post_event api e s))"
  by (auto simp: logs_def logged_def mac_post_event_def split_beta Let_def)

lemma logged_cursor:
  assumes "logs api posted bounds" and "read_cursor api s = (r, s1)"
  shows "posted (mk_os s1) = posted (mk_os s)"
  using assms by (auto simp: logs_def read_cursor_def split_beta Let_def)

lemma logged_after: "posted (mk_os s1) = posted (mk_os s) \<Longrightarrow> logged posted bounds s1 s' \<Longrightarrow> logged posted bounds s s'"
  by (simp add: logged_def)

lemma logged_move:
  assumes "logs api posted bounds" and "\<forall>b. bounds = Some b \<longrightarrow> inside b p"
  shows "logged posted bounds s (snd (move_to api p s))"
proof -
  obtain ty button where k: "move_kind (mk_held_buttons s) = (ty, button)" by fastforce
  let ?e = "CgMove ty p button (flags_from_modifiers (mk_modifiers s))"
  have e: "on_desktop bounds ?e" using assms(2) by (simp add: on_desktop_def event_at_def)
  have show_same: "posted (mk_os (keep_cursor_visible api q t)) = posted (mk_os t)" for q t
    using assms(1) by (simp add: logs_def keep_cursor_visible_def)
  show ?thesis using logged_post [OF assms(1) e, of s] k
    by (cases "mac_post_event api ?e s") (auto simp: move_to_def logged_def show_same split: sum.splits)
qed

lemma logged_click_state: "mk_os (snd (click_state now number act position s)) = mk_os s"
  by (simp add: click_state_def Let_def split: action.splits option.splits)

lemma logged_button:
  assumes "logs api posted bounds" and "usable bounds"
  shows "\<exists>r. mac_inject_button api now button act s = Some r \<and> logged posted bounds s (snd r)"
proof -
  let ?number = "cg_button_number button"
  obtain ty cg where k: "click_kind ?number act = (ty, cg)" by fastforce
  obtain r1 s1 where rc: "read_cursor api s = (r1, s1)" by fastforce
  note same = logged_cursor [OF assms(1) rc]
  show ?thesis
  proof (cases r1)
    case (Inl e)
    then show ?thesis using rc k same by (simp add: mac_inject_button_def logged_def)
  next
    case (Inr p)
    obtain q where q: "clamp_to_display bounds p = Some q" "\<forall>b. bounds = Some b \<longrightarrow> inside b q"
      using clamp_inside [OF assms(2)] by blast
    have b: "cg_bounds api os = bounds" for os using assms(1) by (simp add: logs_def)
    obtain count s2 where c: "click_state now ?number act q s1 = (count, s2)" by fastforce
    have s2: "mk_os s2 = mk_os s1" using logged_click_state [of now ?number act q s1] c by simp
    let ?e = "CgClick ty q cg (if 2 \<le> ?number then Some ?number else None) count (flags_from_modifiers (mk_modifiers s2))"
    have e: "on_desktop bounds ?e" using q(2) by (simp add: on_desktop_def event_at_def)
    obtain r3 s3 where p3: "mac_post_event api ?e s2 = (r3, s3)" by fastforce
    have "logged posted bounds s s3"
      using logged_post [OF assms(1) e, of s2] p3 s2 same by (simp add: logged_def)
    then show ?thesis using rc k Inr q(1) b c p3
      by (cases r3) (auto simp: mac_inject_button_def logged_def Let_def)
  qed
qed

lemma logged_inject:
  assumes "logs api posted bounds" and "usable bounds"
  shows "\<exists>r. mac_inject api now ev s = Some r \<and> logged posted bounds s (snd r)"
proof -
  have b: "cg_bounds api os = bounds" for os using assms(1) by (simp add: logs_def)
  have other: "on_desktop bounds (CgKey vk down flags)" "on_desktop bounds (CgScroll y x)" for vk down flags y x
    by (simp_all add: on_desktop_def event_at_def)
  show ?thesis
  proof (cases ev)
    case (Key code act m)
    show ?thesis
    proof (cases "mac_vk_from_hid code")
      case None
      then show ?thesis using Key by (simp add: mac_inject_def mac_inject_key_def logged_def)
    next
      case (Some vk)
      have "logged posted bounds s (snd (mac_post_event api (CgKey vk (act = Press) (flags_from_modifiers m))
          (s \<lparr> mk_modifiers := m \<rparr>)))"
        by (rule logged_after [OF _ logged_post [OF assms(1) other(1)]]) simp
      then show ?thesis using Key Some by (simp add: mac_inject_def mac_inject_key_def)
    qed
  next
    case (Motion delta)
    obtain r1 s1 where rc: "read_cursor api s = (r1, s1)" by fastforce
    note same = logged_cursor [OF assms(1) rc]
    show ?thesis
    proof (cases r1)
      case (Inl e)
      then show ?thesis using rc same Motion by (simp add: mac_inject_def inject_motion_def logged_def)
    next
      case (Inr p)
      obtain q where q: "clamp_to_display bounds (offset_point p delta) = Some q"
        "\<forall>b. bounds = Some b \<longrightarrow> inside b q"
        using clamp_inside [OF assms(2)] by blast
      then show ?thesis using rc Motion Inr b logged_after [OF same logged_move [OF assms(1) q(2)]]
        by (simp add: mac_inject_def inject_motion_def)
    qed
  next
    case (Pointer x y)
    obtain q where q: "clamp_to_display bounds (from_desktop bounds x y) = Some q"
      "\<forall>b. bounds = Some b \<longrightarrow> inside b q"
      using clamp_inside [OF assms(2)] by blast
    then show ?thesis using Pointer b logged_move [OF assms(1) q(2)]
      by (simp add: mac_inject_def inject_pointer_def)
  next
    case (Button button act)
    then show ?thesis using logged_button [OF assms] by (simp add: mac_inject_def)
  next
    case (Scroll delta)
    obtain x y acc where t: "take_lines delta (mk_scroll s) = ((x, y), acc)" by (metis prod.exhaust)
    have "logged posted bounds s (snd (mac_post_event api (CgScroll y x) (s \<lparr> mk_scroll := acc \<rparr>)))"
      by (rule logged_after [OF _ logged_post [OF assms(1) other(2)]]) simp
    then show ?thesis using Scroll t
      by (simp add: mac_inject_def mac_inject_scroll_def Let_def) (simp add: logged_def)
  qed
qed

text \<open>Displays at whole 32-bit coordinates, as Core Graphics reports them.\<close>
definition whole_display :: "display \<Rightarrow> bool" where
  "whole_display d \<longleftrightarrow> (\<exists>x y w h :: int. disp_x d = of_int x \<and> disp_y d = of_int y \<and> disp_width d = of_int w \<and>
     disp_height d = of_int h \<and> \<bar>x\<bar> \<le> 1000000000 \<and> \<bar>y\<bar> \<le> 1000000000 \<and> 0 \<le> w \<and> w \<le> 1000000000 \<and>
     0 \<le> h \<and> h \<le> 1000000000)"

definition whole_extent :: "real \<times> real \<times> real \<times> real \<Rightarrow> bool" where
  "whole_extent u \<longleftrightarrow> (\<exists>l t r b :: int. u = (of_int l, of_int t, of_int r, of_int b) \<and>
     \<bar>l\<bar> \<le> 1000000000 \<and> \<bar>t\<bar> \<le> 1000000000 \<and> \<bar>r\<bar> \<le> 2000000000 \<and> \<bar>b\<bar> \<le> 2000000000 \<and> l \<le> r \<and> t \<le> b)"

definition extent_covers :: "real \<times> real \<times> real \<times> real \<Rightarrow> display \<Rightarrow> bool" where
  "extent_covers u d \<longleftrightarrow> (case (u, display_extent d) of ((l, t, r, b), (l', t', r', b')) \<Rightarrow>
     l \<le> l' \<and> t \<le> t' \<and> r' \<le> r \<and> b' \<le> b)"

lemma whole_extent_display: "whole_display d \<Longrightarrow> whole_extent (display_extent d)"
  unfolding whole_display_def whole_extent_def display_extent_def
  by (elim exE conjE, rule_tac x = x in exI, rule_tac x = y in exI, rule_tac x = "x + w" in exI,
      rule_tac x = "y + h" in exI) auto

lemma whole_extend:
  assumes "whole_display d" and "whole_extent u" and "extend_union d (Some u) = Some v"
  shows "whole_extent v \<and> extent_covers v d \<and> (\<forall>d'. extent_covers u d' \<longrightarrow> extent_covers v d')"
proof -
  obtain l t r b :: int where u: "u = (of_int l, of_int t, of_int r, of_int b)" "\<bar>l\<bar> \<le> 1000000000"
    "\<bar>t\<bar> \<le> 1000000000" "\<bar>r\<bar> \<le> 2000000000" "\<bar>b\<bar> \<le> 2000000000" "l \<le> r" "t \<le> b"
    using assms(2) by (auto simp: whole_extent_def)
  obtain l' t' r' b' :: int where d: "display_extent d = (of_int l', of_int t', of_int r', of_int b')"
    "\<bar>l'\<bar> \<le> 1000000000" "\<bar>t'\<bar> \<le> 1000000000" "\<bar>r'\<bar> \<le> 2000000000" "\<bar>b'\<bar> \<le> 2000000000" "l' \<le> r'" "t' \<le> b'"
    using whole_extent_display [OF assms(1)] by (auto simp: whole_extent_def)
  have v: "v = (of_int (min l l'), of_int (min t t'), of_int (max r r'), of_int (max b b'))"
    using assms(3) by (auto simp: extend_union_def u(1) d(1) of_int_min of_int_max)
  have "\<bar>min l l'\<bar> \<le> 1000000000" "\<bar>min t t'\<bar> \<le> 1000000000" "\<bar>max r r'\<bar> \<le> 2000000000" "\<bar>max b b'\<bar> \<le> 2000000000"
    "min l l' \<le> max r r'" "min t t' \<le> max b b'"
    using u(2-) d(2-) by (auto simp: min_def max_def)
  then have "whole_extent v" unfolding v whole_extent_def by blast
  then show ?thesis by (auto simp: v u(1) d(1) extent_covers_def)
qed

lemma union_covers:
  assumes "list_all whole_display ds" and "whole_extent u"
  shows "\<exists>v. fold extend_union ds (Some u) = Some v \<and> whole_extent v \<and>
    (\<forall>d. d \<in> set ds \<or> extent_covers u d \<longrightarrow> extent_covers v d)"
  using assms
proof (induction ds arbitrary: u)
  case Nil
  then show ?case by simp
next
  case (Cons d ds)
  obtain w where w: "extend_union d (Some u) = Some w"
    by (simp add: extend_union_def split_beta Let_def)
  have "whole_extent w \<and> extent_covers w d \<and> (\<forall>d'. extent_covers u d' \<longrightarrow> extent_covers w d')"
    using whole_extend [OF _ Cons.prems(2) w] Cons.prems(1) by simp
  then show ?case using Cons.IH [of w] Cons.prems(1) w by auto
qed

lemma real_to_i32_whole: "\<bar>k\<bar> \<le> 1000000000 \<Longrightarrow> sint (real_to_i32 (of_int k)) = k"
  by (simp add: real_to_i32_def saturate_i32_def sint_word_of_int_i32)

lemma real_to_u32_whole: "0 \<le> k \<Longrightarrow> k \<le> 4000000000 \<Longrightarrow> uint (real_to_u32 (of_int k)) = k"
  by (simp add: real_to_u32_def uint_word_of_int_u32)

section \<open>Properties\<close>

text \<open>Caps Lock stays in step: a machine that starts with the same latch as the capturing Mac last
  saw, and flips it for every press it receives, ends with what the Mac's own flags last said, however
  often and however repeatedly the state was reported.\<close>
theorem caps_lock_stays_in_step:
  assumes "list_all caps_by_flags evs"
    and "cq_events (ms_queue (tap_run evs s)) = cq_events (ms_queue s) @ out"
  shows "latch_after (ms_caps s) out = fold caps_report evs (ms_caps s)"
  using tap_run_latch [OF assms(1), of s] assms(2) by auto

lemma caps_lock_stays_in_step_witness:
  "latch_after False [Key CAPS_LOCK Press MOD_NONE, Key CAPS_LOCK Release MOD_NONE] = True"
proof -
  let ?ev = "\<lparr> te_keycode = 57, te_flags = {FlagAlphaShift}, te_dx = 0, te_dy = 0, te_button = 0, te_axis1 = None,
    te_axis2 = None, te_user_data = 0 \<rparr>"
  let ?s = "\<lparr> ms_queue = \<lparr> cq_events = [], cq_alive = True \<rparr>, ms_suppressed = False, ms_held = 0, ms_caps = False,
    ms_hidden = 0 \<rparr>"
  have "cq_events (ms_queue (tap_run [(FlagsChanged, ?ev), (FlagsChanged, ?ev)] ?s)) =
      cq_events (ms_queue ?s) @ [Key CAPS_LOCK Press MOD_NONE, Key CAPS_LOCK Release MOD_NONE]"
    by (simp add: tap_run_def tap_callback_def INJECTED_MARKER_def mac_convert_event_def CAPS_LOCK_VK_def
        caps_lock_on_def caps_lock_tap_def modifiers_from_flags_def Let_def capture_send_def)
  from caps_lock_stays_in_step [OF _ this] show ?thesis
    by (simp add: caps_by_flags_def caps_report_def CAPS_LOCK_VK_def INJECTED_MARKER_def caps_lock_on_def)
qed

text \<open>C28. Injecting into a Mac never panics, posts at most one event, and every mouse event lies on the
  desktop the displays make up, wherever the peer points and however far it moves.\<close>
theorem mac_injection_stays_on_desktop:
  assumes "logs api posted (mac_desktop_bounds active main_display)"
  shows "\<exists>r s'. mac_inject api now ev s = Some (r, s') \<and>
    (posted (mk_os s') = posted (mk_os s) \<or>
     (\<exists>e. posted (mk_os s') = posted (mk_os s) @ [e] \<and> on_desktop (mac_desktop_bounds active main_display) e))"
  using logged_inject [OF assms desktop_bounds_usable, of now ev s]
  by (auto simp: logged_def)

lemma mac_injection_stays_on_desktop_witness:
  "\<exists>r s'. mac_inject \<lparr> cg_create = \<lambda>os. (True, os), cg_post = \<lambda>e os. os @ [e], cg_show = \<lambda>p os. os,
       cg_location = \<lambda>os. \<lparr> pt_x = 0, pt_y = 0 \<rparr>,
       cg_bounds = \<lambda>os. mac_desktop_bounds (Some []) \<lparr> disp_x = 0, disp_y = 0, disp_width = 800, disp_height = 600 \<rparr> \<rparr>
     0 (Motion \<lparr> dx = 9000, dy = - 1 \<rparr>)
     \<lparr> mk_os = [], mk_held_buttons = 0, mk_modifiers = MOD_NONE, mk_last_click = None, mk_scroll = accumulator_new \<rparr> =
     Some (r, s') \<and>
   (mk_os s' = [] \<or> (\<exists>e. mk_os s' = [e] \<and> on_desktop
      (mac_desktop_bounds (Some []) \<lparr> disp_x = 0, disp_y = 0, disp_width = 800, disp_height = 600 \<rparr>) e))"
proof -
  let ?api = "\<lparr> cg_create = \<lambda>os. (True, os), cg_post = \<lambda>e os. os @ [e], cg_show = \<lambda>p os. os,
       cg_location = \<lambda>os. \<lparr> pt_x = 0, pt_y = 0 \<rparr>,
       cg_bounds = \<lambda>os. mac_desktop_bounds (Some []) \<lparr> disp_x = 0, disp_y = 0, disp_width = 800, disp_height = 600 \<rparr> \<rparr>"
  have "logs ?api id (mac_desktop_bounds (Some []) \<lparr> disp_x = 0, disp_y = 0, disp_width = 800, disp_height = 600 \<rparr>)"
    by (simp add: logs_def)
  from mac_injection_stays_on_desktop [OF this, of 0 "Motion \<lparr> dx = 9000, dy = - 1 \<rparr>"
      "\<lparr> mk_os = [], mk_held_buttons = 0, mk_modifiers = MOD_NONE, mk_last_click = None, mk_scroll = accumulator_new \<rparr>"]
  show ?thesis by simp
qed

text \<open>The desktop of a Mac covers all of its displays: whatever their arrangement, no part of a
  display lies outside the rectangle the topology is built from.\<close>
theorem mac_desktop_covers_displays:
  assumes "list_all whole_display displays" and "d \<in> set displays"
    and "mac_desktop_bounds (Some displays) main_display = Some b"
  shows "of_int (sint (origin_x b)) \<le> disp_x d \<and> of_int (sint (origin_y b)) \<le> disp_y d \<and>
    disp_x d + disp_width d \<le> of_int (sint (origin_x b) + uint (desktop_width b)) \<and>
    disp_y d + disp_height d \<le> of_int (sint (origin_y b) + uint (desktop_height b))"
proof -
  obtain e es where displays: "displays = e # es" using assms(2) by (cases displays) auto
  have e: "extend_union e None = Some (display_extent e)" by (simp add: extend_union_def split_beta Let_def)
  obtain v where v: "fold extend_union es (Some (display_extent e)) = Some v" "whole_extent v"
    "\<forall>d. d \<in> set es \<or> extent_covers (display_extent e) d \<longrightarrow> extent_covers v d"
    using union_covers [of es "display_extent e"] assms(1) whole_extent_display [of e] displays by auto
  have cover: "extent_covers v d"
    using v(3) assms(2) displays by (auto simp: extent_covers_def split_beta)
  obtain l t r bt where u: "v = (of_int l, of_int t, of_int r, of_int bt)" "\<bar>l\<bar> \<le> 1000000000" "\<bar>t\<bar> \<le> 1000000000"
    "\<bar>r\<bar> \<le> 2000000000" "\<bar>bt\<bar> \<le> 2000000000" "l \<le> r" "t \<le> bt"
    using v(2) by (auto simp: whole_extent_def)
  have "b = \<lparr> origin_x = real_to_i32 (of_int l), origin_y = real_to_i32 (of_int t),
      desktop_width = real_to_u32 (of_int (r - l)), desktop_height = real_to_u32 (of_int (bt - t)) \<rparr>"
    using assms(3) u(1) v(1) e by (simp add: mac_desktop_bounds_def displays Let_def split: if_splits flip: of_int_diff)
  moreover have "sint (real_to_i32 (of_int l)) = l" "sint (real_to_i32 (of_int t)) = t"
    by (rule real_to_i32_whole [OF u(2)], rule real_to_i32_whole [OF u(3)])
  moreover have "uint (real_to_u32 (of_int (r - l))) = r - l" by (rule real_to_u32_whole) (use u in linarith)+
  moreover have "uint (real_to_u32 (of_int (bt - t))) = bt - t" by (rule real_to_u32_whole) (use u in linarith)+
  ultimately have b: "sint (origin_x b) = l" "sint (origin_y b) = t" "sint (origin_x b) + uint (desktop_width b) = r"
    "sint (origin_y b) + uint (desktop_height b) = bt" by simp_all
  show ?thesis using cover unfolding b(3,4) unfolding b(1,2) u(1) extent_covers_def display_extent_def by simp
qed

lemma mac_desktop_covers_displays_witness:
  "\<exists>b. mac_desktop_bounds (Some [\<lparr> disp_x = 0, disp_y = 0, disp_width = 1440, disp_height = 900 \<rparr>,
       \<lparr> disp_x = - 1920, disp_y = - 200, disp_width = 1920, disp_height = 1080 \<rparr>])
       \<lparr> disp_x = 0, disp_y = 0, disp_width = 1440, disp_height = 900 \<rparr> = Some b \<and> of_int (sint (origin_x b)) \<le> (- 1920 :: real)"
proof -
  let ?d = "\<lparr> disp_x = 0, disp_y = 0, disp_width = 1440, disp_height = 900 \<rparr>"
  let ?e = "\<lparr> disp_x = - 1920, disp_y = - 200, disp_width = 1920, disp_height = 1080 \<rparr>"
  have d: "whole_display ?d" unfolding whole_display_def
    by (rule exI [of _ 0], rule exI [of _ 0], rule exI [of _ 1440], rule exI [of _ 900]) simp
  have e: "whole_display ?e" unfolding whole_display_def
    by (rule exI [of _ "- 1920"], rule exI [of _ "- 200"], rule exI [of _ 1920], rule exI [of _ 1080]) simp
  have "\<exists>b. mac_desktop_bounds (Some [?d, ?e]) ?d = Some b"
    by (simp add: mac_desktop_bounds_def extend_union_def display_extent_def real_to_u32_def Let_def)
  then obtain b where b: "mac_desktop_bounds (Some [?d, ?e]) ?d = Some b" by blast
  have "list_all whole_display [?d, ?e]" using d e by simp
  from mac_desktop_covers_displays [OF this, of ?e, OF _ b] show ?thesis using b by auto
qed

text \<open>Clicks add up to double and triple clicks: a release carries the count of its press, the next press of
  the same button counts one more exactly when it comes within half a second and four pixels, and a press
  of another button starts again at one.\<close>
theorem clicks_add_up:
  "(let (count, s1) = click_state t1 button Press p s in
     fst (click_state t2 button Release q s1) = count \<and>
     fst (click_state t3 button Press q (snd (click_state t2 button Release q s1))) =
       (if max 0 (t3 - t1) \<le> 1 / 2 \<and> distance_to q p \<le> 4 then count + 1 else 1) \<and>
     (button' \<noteq> button \<longrightarrow> fst (click_state t3 button' Press q s1) = 1))"
  by (simp add: click_state_def next_click_count_def DOUBLE_CLICK_INTERVAL_def DOUBLE_CLICK_DISTANCE_def Let_def
      split_beta)

text \<open>A modifier report the tap misses turns that key around: the tap only alternates, so after a lost
  release the next press is sent as a release although the flags of the very event say the modifier is
  down, and it stays inverted from then on.\<close>
theorem missed_report_inverts_modifier:
  assumes "is_modifier_vk (word_of_int (te_keycode ev))" and "mac_hid_from_vk (word_of_int (te_keycode ev)) = Some code"
    and "bit held (unat ((word_of_int (te_keycode ev) :: u16) mod 64))"
  shows "fst (convert_one FlagsChanged ev held) = Some (Key code Release (modifiers_from_flags (te_flags ev))) \<and>
    (te_keycode ev' = te_keycode ev \<longrightarrow>
       fst (convert_one FlagsChanged ev' (snd (convert_one FlagsChanged ev held))) =
         Some (Key code Press (modifiers_from_flags (te_flags ev'))))"
proof -
  let ?vk = "word_of_int (te_keycode ev) :: u16" and ?i = "unat ((word_of_int (te_keycode ev) :: u16) mod 64)"
  have b: "w AND push_bit ?i 1 \<noteq> 0 \<longleftrightarrow> bit w ?i" for w :: u64
    by (simp add: bit_iff_and_push_bit_not_eq_0)
  have down: "toggle_modifier held ?vk = (held AND NOT (push_bit ?i 1), Release)"
    using assms(3) b [of held] by (simp add: toggle_modifier_def Let_def)
  have "\<not> bit (held AND NOT (push_bit ?i 1)) ?i"
  proof -
    have "bit (push_bit ?i 1 :: u64) ?i" using bit_imp_le_length [OF assms(3)] by (simp add: bit_exp_iff)
    then show ?thesis by (simp add: bit_and_iff bit_not_iff)
  qed
  then have up: "snd (toggle_modifier (held AND NOT (push_bit ?i 1)) ?vk) = Press"
    using b [of "held AND NOT (push_bit ?i 1)"] by (simp add: toggle_modifier_def Let_def)
  show ?thesis using assms(1,2) down up by (auto simp: convert_one_def Let_def split_beta)
qed

lemma missed_report_inverts_modifier_witness:
  "fst (convert_one FlagsChanged \<lparr> te_keycode = 56, te_flags = {FlagShift}, te_dx = 0, te_dy = 0, te_button = 0,
      te_axis1 = None, te_axis2 = None, te_user_data = 0 \<rparr> (push_bit 56 1)) = Some (Key (KeyCode 0xE1) Release SHIFT)"
proof -
  let ?ev = "\<lparr> te_keycode = 56, te_flags = {FlagShift}, te_dx = 0, te_dy = 0, te_button = 0,
      te_axis1 = None, te_axis2 = None, te_user_data = 0 \<rparr>"
  have hid: "mac_hid_from_vk (word_of_int (te_keycode ?ev)) = Some (KeyCode 0xE1)"
    unfolding mac_hid_from_vk_def mac_keys.hid_of_native_iff by (simp add: MAC_VK_HID_def)
  have vk: "is_modifier_vk (word_of_int (te_keycode ?ev))" by (simp add: is_modifier_vk_def)
  have held: "bit (push_bit 56 1 :: u64) (unat ((word_of_int (te_keycode ?ev) :: u16) mod 64))" by simp
  have "modifiers_from_flags {FlagShift} = SHIFT"
    by (rule modifiers_eqI) (simp add: modifiers_from_flags_def bits_of_mods)
  then show ?thesis using missed_report_inverts_modifier [OF vk hid held, of ?ev] by simp
qed

text \<open>Modifiers survive the way into flags and back, and mouse buttons the way into numbers and back, except
  that an extra button numbered like a named one comes back as the named one.\<close>
theorem mac_vocabulary_round_trips:
  "(bit (modifier_bits (modifiers_from_flags (flags_from_modifiers m))) i \<longleftrightarrow> i < 4 \<and> bit (modifier_bits m) i) \<and>
   flags_from_modifiers (modifiers_from_flags flags) = flags - {FlagAlphaShift} \<and>
   (button_from_cg_number (cg_button_number b) = b \<longleftrightarrow> (\<forall>n. b = MouseOther n \<longrightarrow> 5 \<le> n)) \<and>
   cg_button_number (button_from_cg_number k) = max 0 (min 255 k)"
proof (intro conjI)
  show "bit (modifier_bits (modifiers_from_flags (flags_from_modifiers m))) i \<longleftrightarrow> i < 4 \<and> bit (modifier_bits m) i"
  proof -
    have "i < 4 \<longleftrightarrow> i = 0 \<or> i = 1 \<or> i = 2 \<or> i = 3" by auto
    then show ?thesis
      by (auto simp: modifiers_from_flags_def flags_from_modifiers_def Let_def bits_of_mods bits_of_modifier
          mods_contains_bits)
  qed
  show "flags_from_modifiers (modifiers_from_flags flags) = flags - {FlagAlphaShift}"
  proof -
    have "f \<in> flags_from_modifiers (modifiers_from_flags flags) \<longleftrightarrow> f \<in> flags - {FlagAlphaShift}" for f
      by (cases f) (auto simp: modifiers_from_flags_def flags_from_modifiers_def Let_def bits_of_mods bits_of_modifier
          mods_contains_bits)
    then show ?thesis by blast
  qed
  show "button_from_cg_number (cg_button_number b) = b \<longleftrightarrow> (\<forall>n. b = MouseOther n \<longrightarrow> 5 \<le> n)"
  proof (cases b)
    case (MouseOther n)
    have "5 \<le> n \<longleftrightarrow> 5 \<le> uint n" by (simp add: word_le_def)
    moreover have "max 0 (min 255 (uint n)) = uint n" using uint_lt2p [of n] by simp
    moreover have "uint n = 0 \<or> uint n = 1 \<or> uint n = 2 \<or> uint n = 3 \<or> uint n = 4" if "\<not> 5 \<le> uint n"
      using that uint_ge_0 [of n] by arith
    ultimately show ?thesis using MouseOther
      by (auto simp: cg_button_number_def button_from_cg_number_def)
  qed (simp_all add: cg_button_number_def button_from_cg_number_def)
  show "cg_button_number (button_from_cg_number k) = max 0 (min 255 k)"
  proof -
    have "uint (word_of_int (max 0 (min 255 k)) :: u8) = max 0 (min 255 k)"
      by (simp add: uint_word_of_int)
    then show ?thesis by (simp add: cg_button_number_def button_from_cg_number_def)
  qed
qed

end
