(* ===== verification/Relay.thy ===== *)
theory Relay
  imports LinuxInput WindowsInput MacInput
begin

text \<open>
  The adapters of two machines together: what is captured on one and injected on the other.
\<close>

section \<open>Properties\<close>



end
