(* ===== verification/Capture.thy ===== *)
theory Capture
  imports System Relay
begin

text \<open>
  \<^verbatim>\<open>run_capture\<close> of \<^verbatim>\<open>daemon.rs\<close>: the thread that applies suppression, polls the platform's source and
  routes what it yields.  It knows its source only through the port, so its lemmas are proved in a locale
  over the port's contract, which every platform's source interprets.
\<close>

section \<open>The thread\<close>

record 's capture_task =
  ct_source :: 's
  ct_suppressed :: bool
  ct_running :: bool

definition capture_start :: "'s \<Rightarrow> 's capture_task" where
  "capture_start source = \<lparr> ct_source = source, ct_suppressed = False, ct_running = True \<rparr>"

text \<open>Applying a suppression decided anywhere.\<close>
definition apply_suppression :: "(bool \<Rightarrow> 's \<Rightarrow> 's) \<Rightarrow> bool \<Rightarrow> 's capture_task \<Rightarrow> 's capture_task" where
  "apply_suppression set_suppressed wanted t =
     (if wanted \<noteq> ct_suppressed t
      then t \<lparr> ct_source := set_suppressed wanted (ct_source t), ct_suppressed := wanted \<rparr> else t)"

text \<open>One turn of the loop; the option is the panic of \<^verbatim>\<open>route_captured\<close>.\<close>
definition capture_turn ::
  "('s \<Rightarrow> ('e + input_event option) \<times> 's) \<Rightarrow> (bool \<Rightarrow> 's \<Rightarrow> 's) \<Rightarrow> machine_id list \<Rightarrow> (i32 \<times> i32) option \<Rightarrow>
   's capture_task \<Rightarrow> 'p shared \<Rightarrow> ('s capture_task \<times> 'p shared) option" where
  "capture_turn poll set_suppressed ord os_cursor t sh =
     (let t = apply_suppression set_suppressed (sh_suppress sh) t;
          (polled, source) = poll (ct_source t);
          t = t \<lparr> ct_source := source \<rparr>
      in case polled of
           Inr (Some ev) \<Rightarrow> map_option (Pair t) (route_captured ord os_cursor ev sh)
         | Inr None \<Rightarrow> Some (t, sh)
         | Inl e \<Rightarrow> Some (t \<lparr> ct_running := False \<rparr>, sh \<lparr> sh_capturing := False \<rparr>))"

fun capture_turns ::
  "('s \<Rightarrow> ('e + input_event option) \<times> 's) \<Rightarrow> (bool \<Rightarrow> 's \<Rightarrow> 's) \<Rightarrow> (machine_id list \<times> (i32 \<times> i32) option) list \<Rightarrow>
   's capture_task \<Rightarrow> 'p shared \<Rightarrow> ('s capture_task \<times> 'p shared) option" where
  "capture_turns poll set_suppressed [] t sh = Some (t, sh)"
| "capture_turns poll set_suppressed ((ord, os_cursor) # turns) t sh =
     (if ct_running t
      then do { (t, sh) \<leftarrow> capture_turn poll set_suppressed ord os_cursor t sh;
                capture_turns poll set_suppressed turns t sh }
      else Some (t, sh))"

text \<open>The events themselves, routed one after another.\<close>
fun route_all ::
  "((machine_id list \<times> (i32 \<times> i32) option) \<times> input_event) list \<Rightarrow> 'p shared \<Rightarrow> 'p shared option" where
  "route_all [] sh = Some sh"
| "route_all (((ord, os_cursor), ev) # evs) sh =
     do { sh \<leftarrow> route_captured ord os_cursor ev sh; route_all evs sh }"

section \<open>What the thread asks of a source\<close>

locale capture_source = input_source poll waiting
  for poll :: "'s \<Rightarrow> ('e + input_event option) \<times> 's" and waiting :: "'s \<Rightarrow> input_event list" +
  fixes set_suppressed :: "bool \<Rightarrow> 's \<Rightarrow> 's" and withheld :: "'s \<Rightarrow> bool"
  assumes suppressing_keeps_waiting: "waiting (set_suppressed b s) = waiting s"
    and suppressing_withholds: "withheld (set_suppressed b s) = b"
    and polling_keeps_withheld: "withheld (snd (poll s)) = withheld s"
begin

definition synced :: "'s capture_task \<Rightarrow> bool" where
  "synced t \<longleftrightarrow> withheld (ct_source t) = ct_suppressed t"

lemma apply_keeps_waiting: "waiting (ct_source (apply_suppression set_suppressed b t)) = waiting (ct_source t)"
  by (simp add: apply_suppression_def suppressing_keeps_waiting)

lemma apply_keeps_running: "ct_running (apply_suppression set_suppressed b t) = ct_running t"
  by (simp add: apply_suppression_def)

lemma apply_withholds:
  "synced t \<Longrightarrow> withheld (ct_source (apply_suppression set_suppressed b t)) = b \<and>
     ct_suppressed (apply_suppression set_suppressed b t) = b"
  by (simp add: apply_suppression_def synced_def suppressing_withholds)

lemma turn_withholds:
  assumes "synced t" and "capture_turn poll set_suppressed ord os_cursor t sh = Some (t', sh')"
  shows "synced t' \<and> withheld (ct_source t') = sh_suppress sh"
proof -
  let ?t = "apply_suppression set_suppressed (sh_suppress sh) t"
  obtain r src where p: "poll (ct_source ?t) = (r, src)" by fastforce
  have w: "withheld src = sh_suppress sh"
    using polling_keeps_withheld [of "ct_source ?t"] p apply_withholds [OF assms(1)] by simp
  have turn: "(case r of
        Inr (Some ev) \<Rightarrow> map_option (Pair (?t \<lparr> ct_source := src \<rparr>)) (route_captured ord os_cursor ev sh)
      | Inr None \<Rightarrow> Some (?t \<lparr> ct_source := src \<rparr>, sh)
      | Inl e \<Rightarrow> Some (?t \<lparr> ct_source := src, ct_running := False \<rparr>, sh \<lparr> sh_capturing := False \<rparr>)) = Some (t', sh')"
    using assms(2) unfolding capture_turn_def Let_def p by simp
  have src: "ct_source t' = src \<and> ct_suppressed t' = ct_suppressed ?t"
  proof (cases r)
    case (Inl e)
    then show ?thesis using turn by auto
  next
    case (Inr polled)
    then show ?thesis using turn by (cases polled) auto
  qed
  then show ?thesis using w apply_withholds [OF assms(1)] by (simp add: synced_def)
qed

lemma turn_routes_next:
  assumes "waiting (ct_source t) = ev # evs"
  shows "\<exists>t'. waiting (ct_source t') = evs \<and> ct_running t' = ct_running t \<and>
    capture_turn poll set_suppressed ord os_cursor t sh = map_option (Pair t') (route_captured ord os_cursor ev sh)"
proof -
  let ?t = "apply_suppression set_suppressed (sh_suppress sh) t"
  have "waiting (ct_source ?t) = ev # evs" using assms by (simp add: apply_keeps_waiting)
  from poll_some [OF this] obtain src where "poll (ct_source ?t) = (Inr (Some ev), src)" "waiting src = evs"
    by (cases "poll (ct_source ?t)") auto
  then show ?thesis
    by (intro exI [of _ "?t \<lparr> ct_source := src \<rparr>"]) (simp add: capture_turn_def apply_keeps_running)
qed

lemma turn_stops:
  assumes "fst (poll (ct_source (apply_suppression set_suppressed (sh_suppress sh) t))) = Inl e"
    and "capture_turn poll set_suppressed ord os_cursor t sh = Some (t', sh')"
  shows "\<not> ct_running t' \<and> sh' = sh \<lparr> sh_capturing := False \<rparr>"
  using assms by (auto simp: capture_turn_def split_beta Let_def)

lemma turns_route_all:
  assumes "waiting (ct_source t) = evs @ rest" and "length turns = length evs" and "ct_running t"
  shows "map_option snd (capture_turns poll set_suppressed turns t sh) = route_all (zip turns evs) sh"
  using assms
proof (induction evs arbitrary: turns t sh)
  case Nil
  then show ?case by simp
next
  case (Cons ev evs)
  then obtain ord os_cursor turns' where turns: "turns = (ord, os_cursor) # turns'" "length turns' = length evs"
    by (cases turns) auto
  obtain t' where t': "waiting (ct_source t') = evs @ rest" "ct_running t'"
    "capture_turn poll set_suppressed ord os_cursor t sh = map_option (Pair t') (route_captured ord os_cursor ev sh)"
    using turn_routes_next [of t ev "evs @ rest" ord os_cursor sh] Cons.prems by auto
  show ?case using Cons.IH [OF t'(1) turns(2) t'(2)] Cons.prems(3)
    by (cases "route_captured ord os_cursor ev sh") (simp_all add: turns(1) t'(3))
qed

end

interpretation linux_capture: capture_source linux_poll "\<lambda>s. cq_events (ls_queue s)" "linux_set_suppressed hide" ls_suppressed
  by unfold_locales (auto simp: linux_set_suppressed_def linux_poll_def Let_def split_beta)

interpretation windows_capture:
  capture_source windows_poll "\<lambda>s. cq_events (ws_queue s)" "windows_set_suppressed ms" ws_suppressed
  by unfold_locales (auto simp: windows_set_suppressed_def park_def windows_poll_def Let_def split_beta)

interpretation mac_capture: capture_source mac_poll "\<lambda>s. cq_events (ms_queue s)" mac_set_suppressed ms_suppressed
  by unfold_locales (auto simp: mac_set_suppressed_def mac_poll_def Let_def split_beta)

section \<open>Properties\<close>

lemma tap_drops: "ms_suppressed s \<Longrightarrow> ty \<noteq> TapDisabledByTimeout \<Longrightarrow> ty \<noteq> TapDisabledByUserInput \<Longrightarrow>
  te_user_data ev \<noteq> INJECTED_MARKER \<Longrightarrow> fst (tap_callback ty ev s) = TapDrop"
  by (simp add: tap_callback_def split_beta)

lemma hook_swallows: "ws_suppressed s \<Longrightarrow> \<not> mi_injected info \<Longrightarrow> fst (mouse_proc ms True msg info s) = Swallow"
  by (auto simp: mouse_proc_def convert_mouse_def Let_def split_beta windows_emit_def park_def
      split: mouse_message.splits)


text \<open>Sources with nothing waiting, at the start of the thread.\<close>
definition idle_linux :: linux_source where
  "idle_linux = \<lparr> ls_queue = \<lparr> cq_events = [], cq_alive = True \<rparr>, ls_suppressed = False, ls_held = 0,
     ls_cursor_hidden = False \<rparr>"
definition idle_windows :: windows_source where
  "idle_windows = \<lparr> ws_queue = \<lparr> cq_events = [], cq_alive = True \<rparr>, ws_installed = True, ws_suppressed = False,
     ws_modifiers = 0, ws_last = (0, 0), ws_have_last = False, ws_chars = 3, ws_lines = 3, ws_wheel_x = scaled_new,
     ws_wheel_y = scaled_new, ws_parked = [] \<rparr>"
definition idle_mac :: mac_source where
  "idle_mac = \<lparr> ms_queue = \<lparr> cq_events = [], cq_alive = True \<rparr>, ms_suppressed = False, ms_held = 0, ms_caps = False,
     ms_hidden = 0 \<rparr>"

lemma idle_turns:
  "\<exists>l. capture_turn linux_poll (linux_set_suppressed False) [] None (capture_start idle_linux) sh = Some (l, sh)"
  "\<exists>w. capture_turn windows_poll (windows_set_suppressed ms) [] None (capture_start idle_windows) sh = Some (w, sh)"
  "\<exists>m. capture_turn mac_poll mac_set_suppressed [] None (capture_start idle_mac) sh = Some (m, sh)"
  by (simp_all add: capture_turn_def capture_start_def apply_suppression_def Let_def split_beta linux_poll_def
      windows_poll_def mac_poll_def capture_poll_def linux_set_suppressed_def windows_set_suppressed_def
      mac_set_suppressed_def park_def idle_linux_def idle_windows_def idle_mac_def)


text \<open>C6. What was captured is routed, all of it, in order and once: as many turns of the capture thread as
  events are waiting do to the daemon exactly what routing those events one after another does, the panic
  included, on Linux, Windows and macOS alike and however suppression changes on the way.\<close>
theorem captured_events_are_routed_in_order:
  assumes "length turns = length evs" and "ct_running l" and "ct_running w" and "ct_running m"
    and "cq_events (ls_queue (ct_source l)) = evs @ rest" and "cq_events (ws_queue (ct_source w)) = evs @ rest"
    and "cq_events (ms_queue (ct_source m)) = evs @ rest"
  shows "map_option snd (capture_turns linux_poll (linux_set_suppressed hide) turns l sh) = route_all (zip turns evs) sh \<and>
    map_option snd (capture_turns windows_poll (windows_set_suppressed ms) turns w sh) = route_all (zip turns evs) sh \<and>
    map_option snd (capture_turns mac_poll mac_set_suppressed turns m sh) = route_all (zip turns evs) sh"
  using linux_capture.turns_route_all [OF assms(5) assms(1,2)]
    windows_capture.turns_route_all [OF assms(6) assms(1) assms(3)]
    mac_capture.turns_route_all [OF assms(7) assms(1) assms(4)] by blast

lemma captured_events_are_routed_in_order_witness:
  "map_option snd (capture_turns mac_poll mac_set_suppressed [([], None)]
     (capture_start (idle_mac \<lparr> ms_queue := \<lparr> cq_events = [Button MouseLeft Press], cq_alive = True \<rparr> \<rparr>)) demo_home) =
   route_all [(([], None), Button MouseLeft Press)] demo_home"
proof -
  let ?q = "\<lparr> cq_events = [Button MouseLeft Press], cq_alive = True \<rparr>"
  let ?evs = "[Button MouseLeft Press]"
  have "map_option snd (capture_turns mac_poll mac_set_suppressed [([], None)]
     (capture_start (idle_mac \<lparr> ms_queue := ?q \<rparr>)) demo_home) = route_all (zip [([], None)] ?evs) demo_home"
    by (rule captured_events_are_routed_in_order [of "[([], None)]" ?evs "capture_start (idle_linux \<lparr> ls_queue := ?q \<rparr>)"
          "capture_start (idle_windows \<lparr> ws_queue := ?q \<rparr>)" "capture_start (idle_mac \<lparr> ms_queue := ?q \<rparr>)" "[]",
          THEN conjunct2, THEN conjunct2]) (simp_all add: capture_start_def)
  then show ?thesis by simp
qed

text \<open>When the source of a platform is gone and everything it captured has been routed, the thread ends and the
  daemon says so, and nothing else about the daemon changes.\<close>
theorem lost_capture_is_reported:
  assumes "cq_events (ws_queue (ct_source w)) = []" and "\<not> cq_alive (ws_queue (ct_source w))"
  shows "\<exists>w'. capture_turn windows_poll (windows_set_suppressed ms) ord os w sh = Some (w', sh \<lparr> sh_capturing := False \<rparr>) \<and>
    \<not> ct_running w'"
  using assms
  by (simp add: capture_turn_def apply_suppression_def Let_def split_beta windows_poll_def capture_poll_def
      windows_set_suppressed_def park_def)

lemma lost_capture_is_reported_witness:
  "\<exists>w'. capture_turn windows_poll (windows_set_suppressed \<lparr> virtual_width = 800, virtual_height = 600, virtual_x = 0,
      virtual_y = 0, primary_width = 800, primary_height = 600 \<rparr>) [] None
      (capture_start (windows_release idle_windows)) demo_home = Some (w', demo_home \<lparr> sh_capturing := False \<rparr>) \<and>
    \<not> ct_running w'"
  by (rule lost_capture_is_reported) (simp_all add: capture_start_def windows_release_def idle_windows_def)

end
