(* ===== verification/Service.thy ===== *)
theory Service
  imports Capture
begin

text \<open>
  What surrounds the handlers in \<^verbatim>\<open>daemon.rs\<close>: the start of the daemon (\<^verbatim>\<open>run_with_paths\<close>), the connection of
  one client (\<^verbatim>\<open>handle_client\<close>), a subscription (\<^verbatim>\<open>stream_events\<close>), the loop that polls the clipboard
  (\<^verbatim>\<open>run_clipboard\<close>) and the end.  JSON is the library serde_json, an argument; so is the connection, as
  what writing a line does to it.
\<close>

section \<open>Starting\<close>

text \<open>What the steps of the start find: the left is the text of their error.\<close>
record boot =
  boot_ensured :: "string + unit"
  boot_config :: "string + config"
  boot_identity :: "string + fingerprint"
  boot_trust :: "string + trust_state"
  boot_runtime :: "string + unit"
  boot_endpoint :: "string + unit"
  boot_sink :: bool
  boot_source :: bool
  boot_thread :: "string + unit"
  boot_listener :: "string + unit"

definition fail_with :: "string \<Rightarrow> string \<Rightarrow> string" where
  "fail_with context_name e = context_name @ '': '' @ e"

definition or_fail :: "string \<Rightarrow> string + 'a \<Rightarrow> ('a \<Rightarrow> string + 'b) \<Rightarrow> string + 'b" where
  "or_fail context_name r k = (case r of Inl e \<Rightarrow> Inl (fail_with context_name e) | Inr x \<Rightarrow> k x)"

text \<open>The flag beside the error says whether the capture thread had been started by then.\<close>
definition run_with_paths ::
  "boot \<Rightarrow> config_file \<Rightarrow> (u32 \<times> u32) option \<Rightarrow> 'p \<Rightarrow> (string \<times> bool) + 'p shared" where
  "run_with_paths b file os_size port =
     (case or_fail ''config'' (boot_ensured b) (\<lambda>_.
           or_fail ''config'' (boot_config b) (\<lambda>cfg.
           or_fail ''identity'' (boot_identity b) (\<lambda>fp.
           or_fail ''trust store'' (boot_trust b) (\<lambda>trust.
           or_fail ''tokio runtime'' (boot_runtime b) (\<lambda>_.
           or_fail ''QUIC endpoint'' (boot_endpoint b) (\<lambda>_.
             Inr (cfg, fp, trust))))))) of
        Inl e \<Rightarrow> Inl (e, False)
      | Inr (cfg, fp, trust) \<Rightarrow>
          (case (if boot_source b then or_fail ''capture thread'' (boot_thread b) Inr else Inr ()) of
             Inl e \<Rightarrow> Inl (e, False)
           | Inr _ \<Rightarrow>
               (case or_fail ''IPC channel'' (boot_listener b) Inr of
                  Inl e \<Rightarrow> Inl (e, boot_source b)
                | Inr _ \<Rightarrow> Inr (daemon_start cfg file fp trust os_size (boot_sink b) (boot_source b) port))))"

section \<open>One client\<close>

datatype client_mode = Serving | Streaming | Closed

text \<open>\<open>parse\<close> gives the request or the text of the error; \<open>ser\<close> the bytes of a response.  The flag is the
  notification that ends the daemon.\<close>
definition serve_line ::
  "(string \<Rightarrow> string + request) \<Rightarrow> (response \<Rightarrow> string option) \<Rightarrow> (string \<Rightarrow> 'w \<Rightarrow> bool \<times> 'w) \<Rightarrow> ('w \<Rightarrow> 'w) \<Rightarrow>
   'a ipc_env \<Rightarrow> string \<Rightarrow> 'w \<Rightarrow> 'p shared \<Rightarrow> client_mode \<times> bool \<times> 'w \<times> 'p shared" where
  "serve_line parse ser write flush env line w sh =
     (let request = parse line
      in if request = Inr ReqSubscribe then (Streaming, False, w, sh)
         else
           let stopping = (request = Inr ReqStop);
               (resp, sh) = (case request of
                   Inr req \<Rightarrow> dispatch env req sh
                 | Inl e \<Rightarrow> (RespError (''bad request: '' @ e), sh))
           in case ser resp of
                None \<Rightarrow> (Closed, False, w, sh)
              | Some payload \<Rightarrow>
                  let (ok, w) = write (payload @ [CHR 0x0A]) w
                  in if \<not> ok then (Closed, False, w, sh)
                     else if stopping then (Serving, True, flush w, sh)
                     else (Serving, False, w, sh))"

text \<open>The lines of a client in turn.  Before each is read, the daemon's other tasks do what they do.\<close>
fun handle_client ::
  "(string \<Rightarrow> string + request) \<Rightarrow> (response \<Rightarrow> string option) \<Rightarrow> (string \<Rightarrow> 'w \<Rightarrow> bool \<times> 'w) \<Rightarrow> ('w \<Rightarrow> 'w) \<Rightarrow>
   (('p shared \<Rightarrow> 'p shared) \<times> 'a ipc_env \<times> string) list \<Rightarrow> 'w \<Rightarrow> 'p shared \<Rightarrow>
   client_mode \<times> nat \<times> 'w \<times> 'p shared" where
  "handle_client parse ser write flush [] w sh = (Closed, 0, w, sh)"
| "handle_client parse ser write flush ((others, env, line) # lines) w sh =
     (case serve_line parse ser write flush env line w (others sh) of
        (Serving, stop, w, sh) \<Rightarrow>
          (let (mode, stops, w, sh) = handle_client parse ser write flush lines w sh
           in (mode, stops + of_bool stop, w, sh))
      | (mode, stop, w, sh) \<Rightarrow> (mode, of_bool stop, w, sh))"

section \<open>A subscription\<close>

definition write_event :: "(status_info \<Rightarrow> string option) \<Rightarrow> (string \<Rightarrow> 'w \<Rightarrow> bool \<times> 'w) \<Rightarrow> status_info \<Rightarrow> 'w \<Rightarrow> bool \<times> 'w" where
  "write_event ser write snapshot w = (case ser snapshot of
      None \<Rightarrow> (False, w)
    | Some payload \<Rightarrow> write (payload @ [CHR 0x0A]) w)"

text \<open>What wakes a subscription, with the value of a watch as it is then.\<close>
datatype stream_wake = StateChanged | ChangesGone | ShutdownBegan | StrayLine | InputEnded

text \<open>The subscription remembers which change it has seen, as its receiver does.\<close>
record 'w stream =
  stream_out :: 'w
  stream_seen :: u64
  stream_open :: bool

definition stream_begin ::
  "(status_info \<Rightarrow> string option) \<Rightarrow> (string \<Rightarrow> 'w \<Rightarrow> bool \<times> 'w) \<Rightarrow> bool \<Rightarrow> 'a ipc_env \<Rightarrow> 'p shared \<Rightarrow> 'w \<Rightarrow> 'w stream" where
  "stream_begin ser write shutting_down env sh w =
     (if shutting_down then \<lparr> stream_out = w, stream_seen = sh_changes sh, stream_open = False \<rparr>
      else let (ok, w) = write_event ser write (status env sh) w
           in \<lparr> stream_out = w, stream_seen = sh_changes sh, stream_open = ok \<rparr>)"

definition stream_step ::
  "(status_info \<Rightarrow> string option) \<Rightarrow> (string \<Rightarrow> 'w \<Rightarrow> bool \<times> 'w) \<Rightarrow> 'a ipc_env \<Rightarrow> stream_wake \<Rightarrow> 'p shared \<Rightarrow>
   'w stream \<Rightarrow> 'w stream" where
  "stream_step ser write env wake sh s =
     (case wake of
        StateChanged \<Rightarrow>
          (if stream_seen s = sh_changes sh then s
           else let (ok, w) = write_event ser write (status env sh) (stream_out s)
                in s \<lparr> stream_out := w, stream_seen := sh_changes sh, stream_open := ok \<rparr>)
      | StrayLine \<Rightarrow> s
      | _ \<Rightarrow> s \<lparr> stream_open := False \<rparr>)"

fun stream_events ::
  "(status_info \<Rightarrow> string option) \<Rightarrow> (string \<Rightarrow> 'w \<Rightarrow> bool \<times> 'w) \<Rightarrow> ('a ipc_env \<times> stream_wake \<times> 'p shared) list \<Rightarrow>
   'w stream \<Rightarrow> 'w stream" where
  "stream_events ser write [] s = s"
| "stream_events ser write ((env, wake, sh) # wakes) s =
     (if stream_open s then stream_events ser write wakes (stream_step ser write env wake sh s) else s)"

section \<open>Polling the clipboard\<close>

datatype clip_loop = Parked | Polling | Ended

text \<open>A change of the switch comes with the value the loop then reads.\<close>
datatype clip_wake = Switched bool | SwitchGone | Stopping | Tick "machine_id list" nat "clipboard_error + clipboard_data option"

definition clip_step :: "clip_wake \<Rightarrow> clip_loop \<Rightarrow> 'p shared \<Rightarrow> clip_loop \<times> 'p shared" where
  "clip_step wake loop sh =
     (case loop of
        Ended \<Rightarrow> (Ended, sh)
      | Parked \<Rightarrow> (case wake of
            Switched v \<Rightarrow> (if v then Polling else Parked, sh)
          | Tick ord bits read \<Rightarrow> (Parked, sh)
          | _ \<Rightarrow> (Ended, sh))
      | Polling \<Rightarrow> (case wake of
            Switched v \<Rightarrow> (if v then Polling else Parked, sh)
          | Tick ord bits read \<Rightarrow> (Polling, broadcast_local_clipboard ord bits read sh)
          | _ \<Rightarrow> (Ended, sh)))"

fun run_clipboard :: "clip_wake list \<Rightarrow> clip_loop \<Rightarrow> 'p shared \<Rightarrow> clip_loop \<times> 'p shared" where
  "run_clipboard [] loop sh = (loop, sh)"
| "run_clipboard (wake # wakes) loop sh =
     (let (loop, sh) = clip_step wake loop sh in run_clipboard wakes loop sh)"

definition clip_begin :: "bool \<Rightarrow> clip_loop" where
  "clip_begin enabled = (if enabled then Polling else Parked)"

section \<open>Answers\<close>

text \<open>What the lines of a client are answered, and the state after them, without the connection.\<close>
definition answer_line :: "(string \<Rightarrow> string + request) \<Rightarrow> 'a ipc_env \<Rightarrow> string \<Rightarrow> 'p shared \<Rightarrow> response \<times> 'p shared" where
  "answer_line parse env line sh = (case parse line of
      Inr req \<Rightarrow> dispatch env req sh | Inl e \<Rightarrow> (RespError (''bad request: '' @ e), sh))"

fun answers ::
  "(string \<Rightarrow> string + request) \<Rightarrow> (('p shared \<Rightarrow> 'p shared) \<times> 'a ipc_env \<times> string) list \<Rightarrow> 'p shared \<Rightarrow>
   response list \<times> 'p shared" where
  "answers parse [] sh = ([], sh)"
| "answers parse ((others, env, line) # lines) sh =
     (let (resp, sh) = answer_line parse env line (others sh); (resps, sh) = answers parse lines sh
      in (resp # resps, sh))"

definition on_wire :: "(response \<Rightarrow> string option) \<Rightarrow> response \<Rightarrow> string" where
  "on_wire ser resp = (case ser resp of Some payload \<Rightarrow> payload @ [CHR 0x0A] | None \<Rightarrow> [])"

text \<open>A connection that takes everything and keeps it.\<close>
definition take_all_bytes :: "string \<Rightarrow> string \<Rightarrow> bool \<times> string" where
  "take_all_bytes bytes w = (True, w @ bytes)"

lemma serve_line_answers:
  assumes "parse line \<noteq> Inr ReqSubscribe" and "\<And>resp. ser resp \<noteq> None"
    and "answer_line parse env line sh = (resp, sh')"
  shows "serve_line parse ser take_all_bytes (\<lambda>w. w) env line w sh =
    (Serving, parse line = Inr ReqStop, w @ on_wire ser resp, sh')"
proof -
  obtain payload where "ser resp = Some payload" using assms(2) [of resp] by blast
  then show ?thesis using assms(1,3)
    by (cases "parse line") (auto simp: serve_line_def answer_line_def on_wire_def take_all_bytes_def Let_def)
qed

lemma handle_client_answers:
  assumes "\<And>resp. ser resp \<noteq> None" and "\<forall>(others, env, line)\<in>set lines. parse line \<noteq> Inr ReqSubscribe"
    and "answers parse lines sh = (resps, sh')"
  shows "handle_client parse ser take_all_bytes (\<lambda>w. w) lines w sh =
    (Closed, length (filter (\<lambda>(others, env, line). parse line = Inr ReqStop) lines), w @ concat (map (on_wire ser) resps), sh')"
  using assms(2,3)
proof (induction lines arbitrary: w sh resps)
  case Nil
  then show ?case by simp
next
  case (Cons l lines)
  obtain others env line where l: "l = (others, env, line)" by (cases l)
  obtain resp sh1 where r: "answer_line parse env line (others sh) = (resp, sh1)" by fastforce
  obtain resps' where rest: "answers parse lines sh1 = (resps', sh')" "resps = resp # resps'"
    using Cons.prems(2) l r by (auto split: prod.splits)
  have "parse line \<noteq> Inr ReqSubscribe" using Cons.prems(1) l by simp
  note one = serve_line_answers [OF this assms(1) r, where w = w]
  show ?case using Cons.IH [OF _ rest(1), of "w @ on_wire ser resp"] Cons.prems(1)
    by (simp add: l one rest(2))
qed

lemma answers_length: "length (fst (answers parse lines sh)) = length lines"
  by (induction lines arbitrary: sh) (auto simp: split_beta Let_def)

lemma clip_ended: "run_clipboard wakes Ended sh = (Ended, sh)"
  by (induction wakes) (simp_all add: clip_step_def)

text \<open>What the switch was last seen to be.\<close>
fun switch_after :: "bool \<Rightarrow> clip_wake list \<Rightarrow> bool" where
  "switch_after v [] = v"
| "switch_after v (Switched v' # wakes) = switch_after v' wakes"
| "switch_after v (wake # wakes) = switch_after v wakes"

lemma run_clipboard_state:
  "loop \<noteq> Ended \<Longrightarrow> fst (run_clipboard wakes loop sh) =
     (if SwitchGone \<in> set wakes \<or> Stopping \<in> set wakes then Ended
      else clip_begin (switch_after (loop = Polling) wakes))"
proof (induction wakes arbitrary: loop sh)
  case Nil
  then show ?case by (cases loop) (auto simp: clip_begin_def)
next
  case (Cons wake wakes)
  show ?case
  proof (cases wake)
    case (Switched v)
    then show ?thesis using Cons by (cases loop) (auto simp: clip_step_def)
  next
    case (Tick ord bits read)
    then show ?thesis using Cons by (cases loop) (auto simp: clip_step_def)
  qed (use Cons.prems in \<open>cases loop; auto simp: clip_step_def clip_ended\<close>)+
qed

lemma run_clipboard_parked:
  "(\<forall>v. Switched v \<in> set wakes \<longrightarrow> \<not> v) \<Longrightarrow> snd (run_clipboard wakes Parked sh) = sh"
proof (induction wakes)
  case (Cons wake wakes)
  then show ?case by (cases wake) (auto simp: clip_step_def clip_ended)
qed simp

section \<open>What outlives the daemon\<close>

text \<open>Nothing but the end of its own events ends the capture thread.\<close>
lemma capture_turn_goes_on:
  assumes "cq_alive (ws_queue (ct_source t))" and "ct_running t" and "ws_installed (ct_source t)"
    and "capture_turn windows_poll (windows_set_suppressed ms) ord os t sh = Some (t', sh')"
  shows "cq_alive (ws_queue (ct_source t')) \<and> ct_running t' \<and> ws_installed (ct_source t')"
proof -
  define t1 where "t1 = apply_suppression (windows_set_suppressed ms) (sh_suppress sh) t"
  have t1: "cq_alive (ws_queue (ct_source t1))" "ct_running t1" "ws_installed (ct_source t1)"
    using assms(1-3) by (simp_all add: t1_def apply_suppression_def windows_set_suppressed_def park_def Let_def)
  have "(case cq_events (ws_queue (ct_source t1)) of
      [] \<Rightarrow> Some (t1, sh)
    | ev # evs \<Rightarrow> map_option (Pair (t1 \<lparr> ct_source := (ct_source t1)
          \<lparr> ws_queue := (ws_queue (ct_source t1)) \<lparr> cq_events := evs \<rparr> \<rparr> \<rparr>)) (route_captured ord os ev sh)) = Some (t', sh')"
    using assms(4) t1(1) unfolding capture_turn_def t1_def [symmetric] Let_def
    by (auto simp: windows_poll_def capture_poll_def split: list.splits)
  then show ?thesis using t1 by (auto split: list.splits)
qed

text \<open>The turns of the thread, with whatever the rest of the daemon does before each.\<close>
fun capture_among ::
  "metrics \<Rightarrow> (('p shared \<Rightarrow> 'p shared) \<times> machine_id list \<times> (i32 \<times> i32) option) list \<Rightarrow>
   windows_source capture_task \<Rightarrow> 'p shared \<Rightarrow> (windows_source capture_task \<times> 'p shared) option" where
  "capture_among ms [] t sh = Some (t, sh)"
| "capture_among ms ((others, ord, os) # turns) t sh =
     do { (t, sh) \<leftarrow> capture_turn windows_poll (windows_set_suppressed ms) ord os t (others sh);
          capture_among ms turns t sh }"

lemma capture_among_goes_on:
  "cq_alive (ws_queue (ct_source t)) \<Longrightarrow> ct_running t \<Longrightarrow> ws_installed (ct_source t) \<Longrightarrow>
   capture_among ms turns t sh = Some (t', sh') \<Longrightarrow> ct_running t' \<and> ws_installed (ct_source t')"
proof (induction turns arbitrary: t sh)
  case (Cons turn turns)
  obtain others ord os where turn: "turn = (others, ord, os)" by (cases turn)
  obtain t1 sh1 where one: "capture_turn windows_poll (windows_set_suppressed ms) ord os t (others sh) = Some (t1, sh1)"
    and rest: "capture_among ms turns t1 sh1 = Some (t', sh')"
    using Cons.prems(4) turn by (auto simp: bind_eq_Some_conv)
  show ?case using Cons.IH [OF _ _ _ rest] capture_turn_goes_on [OF Cons.prems(1-3) one] by blast
qed simp

section \<open>Properties\<close>

text \<open>A client gets exactly one answer for every line, in the order of its lines, each the answer the
  request has in the state it is served in, malformed lines included; and the daemon is told to end once
  for each request to stop, when its answer has been written.\<close>
theorem client_lines_are_answered:
  assumes "\<And>resp. ser resp \<noteq> None" and "\<forall>(others, env, line)\<in>set lines. parse line \<noteq> Inr ReqSubscribe"
    and "handle_client parse ser take_all_bytes (\<lambda>w. w) lines w sh = (mode, stops, w', sh')"
  shows "\<exists>resps. length resps = length lines \<and> answers parse lines sh = (resps, sh') \<and>
    w' = w @ concat (map (on_wire ser) resps) \<and>
    stops = length (filter (\<lambda>(others, env, line). parse line = Inr ReqStop) lines)"
proof -
  obtain resps sh1 where a: "answers parse lines sh = (resps, sh1)" by fastforce
  show ?thesis using handle_client_answers [OF assms(1,2) a, where w = w] assms(3) a answers_length [of parse lines sh] by simp
qed

lemma client_lines_are_answered_witness:
  "\<exists>resps. length resps = 2 \<and>
     answers (\<lambda>line. if line = ''stop'' then Inr ReqStop else Inl ''?'') [(\<lambda>sh. sh, demo_env \<lparr> width = 1, height = 1 \<rparr>, ''x''),
       (\<lambda>sh. sh, demo_env \<lparr> width = 1, height = 1 \<rparr>, ''stop'')] demo_home =
     (resps, snd (snd (snd (handle_client (\<lambda>line. if line = ''stop'' then Inr ReqStop else Inl ''?'') (\<lambda>_. Some ''{}'')
       take_all_bytes (\<lambda>w. w) [(\<lambda>sh. sh, demo_env \<lparr> width = 1, height = 1 \<rparr>, ''x''),
         (\<lambda>sh. sh, demo_env \<lparr> width = 1, height = 1 \<rparr>, ''stop'')] [] demo_home))))"
proof -
  let ?parse = "\<lambda>line. if line = ''stop'' then Inr ReqStop else Inl ''?''"
  let ?lines = "[(\<lambda>sh :: mock_clipboard shared. sh, demo_env \<lparr> width = 1, height = 1 \<rparr>, ''x''),
    (\<lambda>sh. sh, demo_env \<lparr> width = 1, height = 1 \<rparr>, ''stop'')]"
  obtain mode stops w sh where h:
    "handle_client ?parse (\<lambda>_. Some ''{}'') take_all_bytes (\<lambda>w. w) ?lines [] demo_home = (mode, stops, w, sh)"
    by (metis prod.collapse)
  show ?thesis using client_lines_are_answered [OF _ _ h] h by (auto simp: numeral_2_eq_2 simp del: handle_client.simps answers.simps)
qed

text \<open>The clipboard is polled only while sharing is on: whatever wakes the loop, it is polling exactly when
  the switch was last seen on, a loop that never sees it on leaves the daemon untouched, and once the daemon
  stops or the switch is gone it has ended and does nothing more.\<close>
theorem clipboard_polled_only_while_shared:
  "fst (run_clipboard wakes (clip_begin on) sh) =
     (if SwitchGone \<in> set wakes \<or> Stopping \<in> set wakes then Ended else clip_begin (switch_after on wakes)) \<and>
   (\<not> on \<and> (\<forall>v. Switched v \<in> set wakes \<longrightarrow> \<not> v) \<longrightarrow> snd (run_clipboard wakes (clip_begin on) sh) = sh) \<and>
   (Stopping \<in> set wakes \<longrightarrow> run_clipboard (wakes @ later) (clip_begin on) sh = run_clipboard wakes (clip_begin on) sh)"
proof -
  have state: "fst (run_clipboard wakes (clip_begin on) sh) =
     (if SwitchGone \<in> set wakes \<or> Stopping \<in> set wakes then Ended else clip_begin (switch_after on wakes))"
    using run_clipboard_state [of "clip_begin on" wakes sh] by (simp add: clip_begin_def split: if_splits)
  have append: "run_clipboard (wakes @ later) loop sh' =
      (let (l, s) = run_clipboard wakes loop sh' in run_clipboard later l s)" for loop sh'
    by (induction wakes arbitrary: loop sh') (auto simp: split_beta Let_def)
  have "run_clipboard (wakes @ later) (clip_begin on) sh = run_clipboard wakes (clip_begin on) sh"
    if "Stopping \<in> set wakes"
    using state that append [of "clip_begin on" sh] clip_ended by (cases "run_clipboard wakes (clip_begin on) sh") auto
  then show ?thesis using state run_clipboard_parked [of wakes sh] by (auto simp: clip_begin_def)
qed

lemma clipboard_polled_only_while_shared_witness:
  "snd (run_clipboard [Tick [] 64 (Inr None), Switched False, Stopping] (clip_begin False) demo_home) = demo_home"
  by (rule clipboard_polled_only_while_shared [THEN conjunct2, THEN conjunct1, THEN mp]) auto

text \<open>Not every change of what a subscriber is shown reaches it: forgetting a peer, and the loss of input
  capture, leave the counter of changes alone, so a subscription that is up to date writes nothing.\<close>
theorem some_changes_are_not_pushed:
  assumes "stream_seen s = sh_changes sh"
    and "dispatch env (ReqRemovePeer selector) sh = (resp, sh1)"
    and "cq_events (ws_queue (ct_source w)) = []" and "\<not> cq_alive (ws_queue (ct_source w))"
    and "capture_turn windows_poll (windows_set_suppressed ms) ord os w sh = Some (w', sh2)"
  shows "stream_step ser write env' StateChanged sh1 s = s \<and> stream_step ser write env' StateChanged sh2 s = s \<and>
    \<not> st_capturing (status env' sh2)"
proof -
  have "sh_changes sh1 = sh_changes sh"
    using assms(2) by (auto simp: remove_peer_def send_command_def set_links_def Let_def split_beta split: option.splits)
  moreover have "sh2 = sh \<lparr> sh_capturing := False \<rparr>"
    using assms(3-5) by (auto simp: capture_turn_def apply_suppression_def Let_def split_beta windows_poll_def
        capture_poll_def windows_set_suppressed_def park_def split: if_splits)
  ultimately show ?thesis using assms(1) by (simp add: stream_step_def status_def)
qed

lemma some_changes_are_not_pushed_witness:
  "\<exists>sh2 :: mock_clipboard shared. \<not> st_capturing (status (demo_env \<lparr> width = 1, height = 1 \<rparr>) sh2) \<and>
     stream_step (\<lambda>_. Some ''{}'') take_all_bytes (demo_env \<lparr> width = 1, height = 1 \<rparr>) StateChanged sh2
       \<lparr> stream_out = [], stream_seen = sh_changes demo_home, stream_open = True \<rparr> =
     \<lparr> stream_out = [], stream_seen = sh_changes demo_home, stream_open = True \<rparr>"
proof -
  let ?env = "demo_env \<lparr> width = 1, height = 1 \<rparr>"
  let ?s = "\<lparr> stream_out = [], stream_seen = sh_changes demo_home, stream_open = True \<rparr>"
  let ?ms = "\<lparr> virtual_width = 800, virtual_height = 600, virtual_x = 0, virtual_y = 0, primary_width = 800,
    primary_height = 600 \<rparr>"
  let ?w = "capture_start (windows_release idle_windows)"
  have q: "cq_events (ws_queue (ct_source ?w)) = []" "\<not> cq_alive (ws_queue (ct_source ?w))"
    by (simp_all add: capture_start_def windows_release_def idle_windows_def)
  have "\<exists>w' sh2. capture_turn windows_poll (windows_set_suppressed ?ms) [] None ?w demo_home = Some (w', sh2)"
    by (simp add: capture_turn_def apply_suppression_def Let_def split_beta windows_poll_def capture_poll_def
        windows_set_suppressed_def park_def capture_start_def windows_release_def idle_windows_def)
  then obtain w' sh2 where t: "capture_turn windows_poll (windows_set_suppressed ?ms) [] None ?w demo_home = Some (w', sh2)"
    by blast
  have d: "dispatch ?env (ReqRemovePeer ''mac'') demo_home = (fst (dispatch ?env (ReqRemovePeer ''mac'') demo_home),
      snd (dispatch ?env (ReqRemovePeer ''mac'') demo_home))" by simp
  have seen: "stream_seen ?s = sh_changes demo_home" by simp
  show ?thesis
    by (rule exI [of _ sh2])
      (use some_changes_are_not_pushed [OF seen d q t, of "\<lambda>_. Some ''{}''" take_all_bytes ?env] in blast)
qed

text \<open>The capture thread outlives the daemon: as long as the hooks deliver, no number of its turns ends it,
  whatever the rest of the daemon does meanwhile, its end included; and while it holds the hooks, a daemon
  started again in the same process cannot capture.\<close>
theorem capture_outlives_the_daemon:
  assumes "cq_alive (ws_queue (ct_source t))" and "ct_running t" and "ws_installed (ct_source t)"
    and "capture_among ms turns t sh = Some (t', sh')"
  shows "ct_running t' \<and> windows_source_new started amounts (ct_source t') = (Inl AlreadyRunning, ct_source t')"
  using capture_among_goes_on [OF assms] by (simp add: windows_source_new_def)

lemma capture_outlives_the_daemon_witness:
  "\<exists>t' sh'. capture_among \<lparr> virtual_width = 800, virtual_height = 600, virtual_x = 0, virtual_y = 0,
      primary_width = 800, primary_height = 600 \<rparr> [(disconnect_all [], [], None)] (capture_start idle_windows) demo_home =
      Some (t', sh') \<and> fst (windows_source_new Hooked (3, 3) (ct_source t')) = Inl AlreadyRunning"
proof -
  let ?ms = "\<lparr> virtual_width = 800, virtual_height = 600, virtual_x = 0, virtual_y = 0, primary_width = 800,
    primary_height = 600 \<rparr>"
  let ?t = "capture_start idle_windows"
  have t: "cq_alive (ws_queue (ct_source ?t))" "ct_running ?t" "ws_installed (ct_source ?t)"
    by (simp_all add: capture_start_def idle_windows_def)
  obtain t' sh' where run: "capture_among ?ms [(disconnect_all [], [], None)] ?t demo_home = Some (t', sh')"
    using idle_turns(2) [of ?ms "disconnect_all [] demo_home"] by auto
  show ?thesis using capture_outlives_the_daemon [OF t run, of Hooked "(3, 3)"] run by auto
qed

lemma capturing_rebuild [simp]: "sh_capturing (rebuild_layout ord sh) = sh_capturing sh"
  by (simp add: rebuild_layout_def Let_def set_cursor_def set_layout_field_def)

text \<open>The error of the first step of the start that fails before the tasks run.\<close>
definition first_error :: "boot \<Rightarrow> string option" where
  "first_error b =
     (case boot_ensured b of Inl e \<Rightarrow> Some (''config: '' @ e) | Inr _ \<Rightarrow>
      case boot_config b of Inl e \<Rightarrow> Some (''config: '' @ e) | Inr _ \<Rightarrow>
      case boot_identity b of Inl e \<Rightarrow> Some (''identity: '' @ e) | Inr _ \<Rightarrow>
      case boot_trust b of Inl e \<Rightarrow> Some (''trust store: '' @ e) | Inr _ \<Rightarrow>
      case boot_runtime b of Inl e \<Rightarrow> Some (''tokio runtime: '' @ e) | Inr _ \<Rightarrow>
      case boot_endpoint b of Inl e \<Rightarrow> Some (''QUIC endpoint: '' @ e) | Inr _ \<Rightarrow>
      case boot_thread b of Inl e \<Rightarrow> if boot_source b then Some (''capture thread: '' @ e) else None | Inr _ \<Rightarrow> None)"

text \<open>A start gives a daemon, in a state from which everything else is proved and withholding nothing, or
  the first error met in the order the steps are taken; and when it is the last of them that fails, the IPC
  channel, the capture thread is already running.\<close>
theorem start_outcome:
  "case (first_error b, boot_listener b) of
     (Some e, _) \<Rightarrow> run_with_paths b file os_size port = Inl (e, False)
   | (None, Inl e) \<Rightarrow> run_with_paths b file os_size port = Inl (''IPC channel: '' @ e, boot_source b)
   | (None, Inr _) \<Rightarrow> \<exists>sh. run_with_paths b file os_size port = Inr sh \<and> daemon_reachable sh \<and>
       \<not> sh_suppress sh \<and> sh_capturing sh = boot_source b \<and> plinks sh = Map.empty"
proof -
  have started: "daemon_reachable sh \<and> \<not> sh_suppress sh \<and> sh_capturing sh = boot_source b \<and> plinks sh = Map.empty"
    if run: "run_with_paths b file os_size port = Inr sh" for sh
  proof -
    obtain cfg fp trust where sh: "sh = daemon_start cfg file fp trust os_size (boot_sink b) (boot_source b) port"
      using run by (auto simp: run_with_paths_def or_fail_def split: sum.splits if_splits)
    have "daemon_reachable sh" unfolding sh by (rule Started)
    then show ?thesis by (simp add: sh daemon_start_def)
  qed
  have "case (first_error b, boot_listener b) of
     (Some e, _) \<Rightarrow> run_with_paths b file os_size port = Inl (e, False)
   | (None, Inl e) \<Rightarrow> run_with_paths b file os_size port = Inl (''IPC channel: '' @ e, boot_source b)
   | (None, Inr _) \<Rightarrow> \<exists>sh. run_with_paths b file os_size port = Inr sh"
    by (auto simp: run_with_paths_def first_error_def or_fail_def fail_with_def split: sum.splits option.splits)
  then show ?thesis using started by (auto split: option.splits sum.splits)
qed

end
