(* ===== verification/Client.thy ===== *)
theory Client
  imports Service
begin

text \<open>
  The clients of the daemon: \<^verbatim>\<open>request\<close>, which the \<^verbatim>\<open>omni\<close> tool (\<^verbatim>\<open>crates/omni-cli/src/main.rs\<close>) and the desktop
  application (\<^verbatim>\<open>src/omni/src-tauri/src/ipc.rs\<close>) share but for one text, and the commands of the tool with
  \<^verbatim>\<open>doctor.rs\<close> and \<^verbatim>\<open>update.rs\<close>.  A command is a function from the state of everything outside it to what it
  prints, its exit code and that state afterwards.  Parsing the command line is the library clap.
\<close>

section \<open>Asking the daemon\<close>

text \<open>What the process and the channel give: the error of \<^verbatim>\<open>Paths::resolve\<close>, whether the channel opens, the
  JSON library, and what writing and reading a line do.\<close>
record 'w client_link =
  cl_paths :: "string option"
  cl_connects :: "'w \<Rightarrow> bool"
  cl_encode :: "request \<Rightarrow> string + string"
  cl_write :: "string \<Rightarrow> 'w \<Rightarrow> (string + unit) \<times> 'w"
  cl_read_line :: "'w \<Rightarrow> (string + string) \<times> 'w"
  cl_decode :: "string \<Rightarrow> string + response"

definition newline :: char where "newline = CHR 0x0A"

definition trim_end :: "string \<Rightarrow> string" where
  "trim_end s = rev (trim_front (map rev whitespace_encodings) (rev s))"

definition read_reply_line :: "(string \<Rightarrow> string + response) \<Rightarrow> string \<Rightarrow> string + response" where
  "read_reply_line dec reply =
     (if reply = [] then Inl ''the daemon closed the connection without answering''
      else case dec (trim_end reply) of
          Inl e \<Rightarrow> Inl (''bad reply: '' @ e)
        | Inr (RespError message) \<Rightarrow> Inl message
        | Inr response \<Rightarrow> Inr response)"

definition ask :: "string \<Rightarrow> 'w client_link \<Rightarrow> request \<Rightarrow> 'w \<Rightarrow> (string + response) \<times> 'w" where
  "ask not_running c req w =
     (case cl_paths c of
        Some e \<Rightarrow> (Inl e, w)
      | None \<Rightarrow>
          if \<not> cl_connects c w then (Inl not_running, w)
          else case cl_encode c req of
              Inl e \<Rightarrow> (Inl e, w)
            | Inr line \<Rightarrow>
                (case cl_write c (line @ [newline]) w of
                   (Inl e, w) \<Rightarrow> (Inl (''could not reach the daemon: '' @ e), w)
                 | (Inr _, w) \<Rightarrow>
                     (case cl_read_line c w of
                        (Inl e, w) \<Rightarrow> (Inl (''the daemon did not answer: '' @ e), w)
                      | (Inr reply, w) \<Rightarrow> (read_reply_line (cl_decode c) reply, w))))"

text \<open>The two texts for a daemon that is not there.\<close>
definition cli_not_running :: string where
  "cli_not_running = ''the daemon is not running (start it with `omni start`)''"
definition app_not_running :: string where
  "app_not_running = ''the daemon is not running''"

abbreviation cli_request :: "'w client_link \<Rightarrow> request \<Rightarrow> 'w \<Rightarrow> (string + response) \<times> 'w" where
  "cli_request \<equiv> ask cli_not_running"

section \<open>The daemon behind the channel\<close>

text \<open>The complete lines of what was written, as \<^verbatim>\<open>lines\<close> of tokio cuts them: without the newline and without
  a carriage return before it.\<close>
definition strip_return :: "string \<Rightarrow> string" where
  "strip_return line = (if line \<noteq> [] \<and> last line = CHR 0x0D then butlast line else line)"

fun cut_lines :: "string \<Rightarrow> string \<Rightarrow> string list" where
  "cut_lines acc [] = []"
| "cut_lines acc (c # cs) = (if c = newline then strip_return acc # cut_lines [] cs else cut_lines (acc @ [c]) cs)"

text \<open>A connection to a daemon: what the daemon has written to it, how often it was told to stop, and its
  state.\<close>
record 'p daemon_world =
  dw_out :: string
  dw_stops :: nat
  dw_shared :: "'p shared"

definition daemon_write ::
  "(string \<Rightarrow> string + request) \<Rightarrow> (response \<Rightarrow> string option) \<Rightarrow> 'a ipc_env \<Rightarrow> string \<Rightarrow> 'p daemon_world \<Rightarrow>
   (string + unit) \<times> 'p daemon_world" where
  "daemon_write parse ser env bytes w =
     (let (mode, stops, out, sh) = handle_client parse ser take_all_bytes (\<lambda>w. w)
            (map (\<lambda>line. (\<lambda>sh. sh, env, line)) (cut_lines [] bytes)) (dw_out w) (dw_shared w)
      in (Inr (), \<lparr> dw_out = out, dw_stops = dw_stops w + stops, dw_shared = sh \<rparr>))"

fun take_line :: "string \<Rightarrow> string \<times> string" where
  "take_line [] = ([], [])"
| "take_line (c # cs) = (if c = newline then ([c], cs) else (let (l, r) = take_line cs in (c # l, r)))"

definition daemon_read_line :: "'p daemon_world \<Rightarrow> (string + string) \<times> 'p daemon_world" where
  "daemon_read_line w = (let (line, rest) = take_line (dw_out w) in (Inr line, w \<lparr> dw_out := rest \<rparr>))"

definition daemon_link ::
  "(request \<Rightarrow> string + string) \<Rightarrow> (string \<Rightarrow> string + request) \<Rightarrow> (response \<Rightarrow> string option) \<Rightarrow>
   (string \<Rightarrow> string + response) \<Rightarrow> 'a ipc_env \<Rightarrow> 'p daemon_world client_link" where
  "daemon_link enc parse ser dec env = \<lparr> cl_paths = None, cl_connects = (\<lambda>w. True), cl_encode = enc,
     cl_write = daemon_write parse ser env, cl_read_line = daemon_read_line, cl_decode = dec \<rparr>"

text \<open>A connection just opened.\<close>
definition fresh_connection :: "'p shared \<Rightarrow> 'p daemon_world" where
  "fresh_connection sh = \<lparr> dw_out = [], dw_stops = 0, dw_shared = sh \<rparr>"

text \<open>What is relied on of JSON in one exchange: one line each way, read back as it was written.\<close>
definition json_exchange ::
  "(request \<Rightarrow> string + string) \<Rightarrow> (string \<Rightarrow> string + request) \<Rightarrow> (response \<Rightarrow> string option) \<Rightarrow>
   (string \<Rightarrow> string + response) \<Rightarrow> request \<Rightarrow> response \<Rightarrow> bool" where
  "json_exchange enc parse ser dec req resp \<longleftrightarrow>
     (case (enc req, ser resp) of
        (Inr line, Some payload) \<Rightarrow>
          newline \<notin> set line \<and> strip_return line = line \<and> parse line = Inr req \<and>
          newline \<notin> set payload \<and> dec (trim_end (payload @ [newline])) = Inr resp
      | _ \<Rightarrow> False)"

lemma cut_lines_one: "newline \<notin> set line \<Longrightarrow> cut_lines acc (line @ [newline]) = [strip_return (acc @ line)]"
  by (induction line arbitrary: acc) auto

lemma take_line_one: "newline \<notin> set payload \<Longrightarrow> take_line (payload @ [newline]) = (payload @ [newline], [])"
  by (induction payload) auto

text \<open>The exchange of one request with a daemon.\<close>
lemma ask_daemon:
  assumes "req \<noteq> ReqSubscribe" and "dispatch env req sh = (resp, sh')"
    and "json_exchange enc parse ser dec req resp"
  shows "ask not_running (daemon_link enc parse ser dec env) req (fresh_connection sh) =
    ((case resp of RespError message \<Rightarrow> Inl message | _ \<Rightarrow> Inr resp),
     (fresh_connection sh') \<lparr> dw_stops := of_bool (req = ReqStop) \<rparr>)"
proof -
  obtain line payload where j: "enc req = Inr line" "ser resp = Some payload" "newline \<notin> set line"
    "strip_return line = line" "parse line = Inr req" "newline \<notin> set payload"
    "dec (trim_end (payload @ [newline])) = Inr resp"
    using assms(3) by (auto simp: json_exchange_def split: sum.splits option.splits)
  have "daemon_write parse ser env (line @ [newline]) (fresh_connection sh) =
     (Inr (), \<lparr> dw_out = payload @ [newline], dw_stops = of_bool (req = ReqStop), dw_shared = sh' \<rparr>)"
    using assms(1,2) j cut_lines_one [OF j(3), of "[]"]
    by (simp add: daemon_write_def fresh_connection_def serve_line_def take_all_bytes_def newline_def)
  then show ?thesis using j take_line_one [OF j(6)]
    by (simp add: ask_def daemon_link_def daemon_read_line_def read_reply_line_def fresh_connection_def
        split: response.split)
qed

section \<open>What a command prints\<close>

datatype printed = Out string | Err string

datatype exit_code = SUCCESS | FAILURE

type_synonym 'w sender = "request \<Rightarrow> 'w \<Rightarrow> (string + response) \<times> 'w"
type_synonym 'w command_run = "printed list \<times> exit_code \<times> 'w"

definition omni_error :: "string \<Rightarrow> printed" where
  "omni_error e = Err (''omni: '' @ e)"

definition is_continuation :: "char \<Rightarrow> bool" where
  "is_continuation c \<longleftrightarrow> 128 \<le> (of_char c :: nat) \<and> (of_char c :: nat) < 192"

text \<open>\<^verbatim>\<open>chars().take(n)\<close> on the bytes of a text.\<close>
fun take_chars :: "nat \<Rightarrow> string \<Rightarrow> string" where
  "take_chars n [] = []"
| "take_chars n (c # cs) =
     (if is_continuation c then c # take_chars n cs
      else case n of 0 \<Rightarrow> [] | Suc k \<Rightarrow> c # take_chars k cs)"

definition ellipsis :: string where "ellipsis = [CHR 0xE2, CHR 0x80, CHR 0xA6]"

definition short :: "string \<Rightarrow> string" where
  "short fingerprint = take_chars 16 fingerprint @ ellipsis"

text \<open>\<open>debug\<close> is the derived \<^verbatim>\<open>Debug\<close> of a response.\<close>
definition unexpected :: "(response \<Rightarrow> string) \<Rightarrow> response \<Rightarrow> 'w \<Rightarrow> 'w command_run" where
  "unexpected debug response w = ([omni_error (''unexpected reply from the daemon: '' @ debug response)], FAILURE, w)"

definition simple :: "(response \<Rightarrow> string) \<Rightarrow> 'w sender \<Rightarrow> request \<Rightarrow> string \<Rightarrow> 'w \<Rightarrow> 'w command_run" where
  "simple debug send req done w = (case send req w of
      (Inr RespOk, w) \<Rightarrow> ([Out done], SUCCESS, w)
    | (Inr other, w) \<Rightarrow> unexpected debug other w
    | (Inl e, w) \<Rightarrow> ([omni_error e], FAILURE, w))"

text \<open>A listing: the lines that a response of the right kind is printed as.\<close>
definition listing ::
  "(response \<Rightarrow> string) \<Rightarrow> (response \<Rightarrow> string list option) \<Rightarrow> 'w sender \<Rightarrow> request \<Rightarrow> 'w \<Rightarrow> 'w command_run" where
  "listing debug lines_of send req w = (case send req w of
      (Inr response, w) \<Rightarrow> (case lines_of response of
          Some ls \<Rightarrow> (map Out ls, SUCCESS, w) | None \<Rightarrow> unexpected debug response w)
    | (Inl e, w) \<Rightarrow> ([omni_error e], FAILURE, w))"

definition state_word :: "string \<Rightarrow> bool \<Rightarrow> string" where
  "state_word unlinked live = (if live then ''connected'' else unlinked)"

definition peers_lines :: "response \<Rightarrow> string list option" where
  "peers_lines response = (case response of
      RespPeers peers \<Rightarrow> Some (if peers = [] then [''no known peers'']
        else map (\<lambda>p. (case peer_host p of Some h \<Rightarrow> h | None \<Rightarrow> ''<unknown host>'') @ ''  '' @
               short (peer_fingerprint p) @ ''  '' @ state_word ''trusted'' (peer_connected p)) peers)
    | _ \<Rightarrow> None)"

definition layout_lines :: "response \<Rightarrow> string list option" where
  "layout_lines response = (case response of
      RespLayout placements \<Rightarrow> Some (if placements = []
        then [''no placements '' @ em_dash @ '' peers use the default left/right chain'']
        else map (\<lambda>p. li_host p @ ''  past the '' @ li_edge p @ '' edge  ('' @
               state_word ''saved'' (li_connected p) @ '')'') placements)
    | _ \<Rightarrow> None)"

definition modifiers_lines :: "response \<Rightarrow> string list option" where
  "modifiers_lines response = (case response of
      RespModifiers swaps \<Rightarrow> Some (if swaps = []
        then [''no changes '' @ em_dash @ '' every peer gets the keys as pressed'']
        else map (\<lambda>s. mi_host s @ ''  '' @ (if mi_swap s = ''none'' then ''keys sent as pressed'' else mi_swap s) @
               ''  ('' @ state_word ''saved'' (mi_connected s) @ '')'') swaps)
    | _ \<Rightarrow> None)"

text \<open>\<^verbatim>\<open>omni layout\<close> and \<^verbatim>\<open>omni modifiers\<close>: set one, list all, or ask for the word that is missing.\<close>
definition layout_cmd ::
  "(response \<Rightarrow> string) \<Rightarrow> 'w sender \<Rightarrow> string option \<Rightarrow> string option \<Rightarrow> 'w \<Rightarrow> 'w command_run" where
  "layout_cmd debug send host edge w = (case (host, edge) of
      (Some h, Some e) \<Rightarrow> simple debug send (ReqLayout (Some h) (Some e)) ''placed'' w
    | (Some h, None) \<Rightarrow> ([omni_error (''give an edge too, e.g. `omni layout '' @ h @ '' right`'')], FAILURE, w)
    | (None, _) \<Rightarrow> listing debug layout_lines send (ReqLayout None None) w)"

definition modifiers_cmd ::
  "(response \<Rightarrow> string) \<Rightarrow> 'w sender \<Rightarrow> string option \<Rightarrow> string option \<Rightarrow> 'w \<Rightarrow> 'w command_run" where
  "modifiers_cmd debug send host swap w = (case (host, swap) of
      (Some h, Some s) \<Rightarrow> simple debug send (ReqModifiers (Some h) (Some s)) ''applied'' w
    | (Some h, None) \<Rightarrow>
        ([omni_error (''give a swap too, e.g. `omni modifiers '' @ h @ '' meta-control`'')], FAILURE, w)
    | (None, _) \<Rightarrow> listing debug modifiers_lines send (ReqModifiers None None) w)"

definition status_lines :: "status_info \<Rightarrow> string list" where
  "status_lines st =
     [''daemon: running (udp port '' @ decimal (unat (st_port st)) @ '')'', ''fingerprint: '' @ st_fingerprint st] @
     (if st_capturing st then []
      else [''input capture: unavailable '' @ em_dash @ '' target only (run `omni doctor`)'']) @
     [''clipboard sharing: '' @ (if st_clipboard_sharing st then ''on'' else ''off'')] @
     (if st_sessions st = [] then [''sessions: none'']
      else ''sessions:'' # map (\<lambda>s. ''  '' @ si_host s @ ''  '' @ short (si_fingerprint s) @ ''  '' @ si_role s @
             (if si_active s then '' (input here)'' else [])) (st_sessions st)) @
     map (\<lambda>p. ''pending request from '' @ pi_host p @ '' ('' @ short (pi_fingerprint p) @ '') '' @ em_dash @
            '' `omni accept '' @ pi_host p @ ''` to approve'') (st_pending st)"

definition status_cmd :: "(response \<Rightarrow> string) \<Rightarrow> 'w sender \<Rightarrow> 'w \<Rightarrow> 'w command_run" where
  "status_cmd debug send w = (case send ReqStatus w of
      (Inr (RespStatus st), w) \<Rightarrow> (map Out (status_lines st), SUCCESS, w)
    | (Inr other, w) \<Rightarrow> unexpected debug other w
    | (Inl _, w) \<Rightarrow> ([Out ''daemon: not running''], SUCCESS, w))"

section \<open>The environment checks\<close>

record check =
  check_name :: string
  check_ok :: bool
  check_detail :: string

definition ok_check :: "string \<Rightarrow> string \<Rightarrow> check" where
  "ok_check name detail = \<lparr> check_name = name, check_ok = True, check_detail = detail \<rparr>"

definition failed_check :: "string \<Rightarrow> string \<Rightarrow> check" where
  "failed_check name detail = \<lparr> check_name = name, check_ok = False, check_detail = detail \<rparr>"

text \<open>What the checks find: the platform's own checks and screen size, the state directory with the error of
  creating it, and the configuration in it.\<close>
record doctor_env =
  doc_platform :: "check list"
  doc_screen :: "(u32 \<times> u32) option"
  doc_dir :: string
  doc_config_path :: string
  doc_config :: config_file
  doc_ensure :: "string option"

definition times_text :: "u32 \<times> u32 \<Rightarrow> string" where
  "times_text dims = decimal (unat (fst dims)) @ (CHR 0x78 # decimal (unat (snd dims)))"

definition screen_check :: "doctor_env \<Rightarrow> check" where
  "screen_check d = (case doc_screen d of
      Some dims \<Rightarrow> ok_check ''screen size'' (''detected '' @ times_text dims)
    | None \<Rightarrow>
        (case (case config_load (doc_config d) of Inl _ \<Rightarrow> None | Inr c \<Rightarrow> cfg_screen c) of
           Some dims \<Rightarrow> ok_check ''screen size'' (''from config: '' @ times_text dims)
         | None \<Rightarrow> failed_check ''screen size''
             (''not detectable on this platform and not configured '' @ em_dash @ '' set {'' @ [CHR 0x22] @ ''screen'' @
              [CHR 0x22] @ '': [width, height]} in '' @ doc_config_path d)))"

definition state_dir_check :: "doctor_env \<Rightarrow> check" where
  "state_dir_check d = (case doc_ensure d of
      None \<Rightarrow> ok_check ''state directory'' (doc_dir d @ '' is writable'')
    | Some e \<Rightarrow> failed_check ''state directory'' (''cannot create '' @ doc_dir d @ '': '' @ e))"

definition run_checks :: "doctor_env \<Rightarrow> check list" where
  "run_checks d = doc_platform d @ [screen_check d, state_dir_check d]"

definition check_line :: "check \<Rightarrow> printed" where
  "check_line c = Out (''['' @ (if check_ok c then ''ok '' else ''FAIL'') @ ''] '' @ check_name c @ '' '' @ em_dash @
     '' '' @ check_detail c)"

text \<open>The left of the first argument is the error of \<^verbatim>\<open>Paths::resolve\<close>.\<close>
definition doctor_cmd :: "string + doctor_env \<Rightarrow> 'w sender \<Rightarrow> 'w \<Rightarrow> 'w command_run" where
  "doctor_cmd paths send w = (case paths of
      Inl e \<Rightarrow> ([omni_error e], FAILURE, w)
    | Inr d \<Rightarrow>
        let checks = run_checks d;
            all_ok = list_all check_ok checks;
            (answer, w) = send ReqStatus w;
            (line, fine) = (case answer of
                Inr (RespStatus st) \<Rightarrow>
                  if st_capturing st then (''[ok ] daemon '' @ em_dash @ '' running, input capture active'', True)
                  else (''[FAIL] daemon '' @ em_dash @ '' running but capture is off (target only);'' @
                     replicate 22 CHR 0x20 @ ''fix the permission above, then `omni stop && omni start`'' @
                     replicate 22 CHR 0x20 @ ''from this terminal'', False)
              | _ \<Rightarrow> (''[ -- ] daemon '' @ em_dash @ '' not running (`omni start`)'', True))
        in (map check_line checks @ [Out line], if all_ok \<and> fine then SUCCESS else FAILURE, w))"

section \<open>Starting the daemon\<close>

definition START_WAIT :: real where "START_WAIT = 5"
definition START_POLL :: real where "START_POLL = 1 / 10"

text \<open>The loop that waits for the daemon.  Each round is the time the clock shows at its test, with what
  happens outside during its sleep; the rounds given last until the deadline.\<close>
fun await_daemon :: "'w sender \<Rightarrow> real \<Rightarrow> (real \<times> ('w \<Rightarrow> 'w)) list \<Rightarrow> 'w \<Rightarrow> status_info option \<times> 'w" where
  "await_daemon send deadline [] w = (None, w)"
| "await_daemon send deadline ((now, others) # rounds) w =
     (if now < deadline
      then (case send ReqStatus (others w) of
          (Inr (RespStatus st), w) \<Rightarrow> (Some st, w)
        | (_, w) \<Rightarrow> await_daemon send deadline rounds w)
      else (None, w))"

definition start_cmd ::
  "string option \<Rightarrow> ('w \<Rightarrow> (string + unit) \<times> 'w) \<Rightarrow> real \<Rightarrow> (real \<times> ('w \<Rightarrow> 'w)) list \<Rightarrow> 'w sender \<Rightarrow> 'w \<Rightarrow>
   'w command_run" where
  "start_cmd no_exe spawn began rounds send w =
     (case send ReqStatus w of
        (Inr _, w) \<Rightarrow> ([Out ''daemon already running''], SUCCESS, w)
      | (Inl _, w) \<Rightarrow>
          (case no_exe of
             Some e \<Rightarrow> ([omni_error (''cannot locate own binary: '' @ e)], FAILURE, w)
           | None \<Rightarrow>
               (case spawn w of
                  (Inl e, w) \<Rightarrow> ([omni_error (''could not start the daemon: '' @ e)], FAILURE, w)
                | (Inr _, w) \<Rightarrow>
                    (case await_daemon send (began + START_WAIT) rounds w of
                       (Some st, w) \<Rightarrow>
                         ([Out (''daemon started (udp port '' @ decimal (unat (st_port st)) @ '')''),
                           Out (''fingerprint: '' @ st_fingerprint st)], SUCCESS, w)
                     | (None, w) \<Rightarrow>
                         ([omni_error (''the daemon did not come up '' @ em_dash @
                             '' check the log in the config directory'')], FAILURE, w)))))"

section \<open>The operating system\<close>

datatype file_act =
    RemoveTree string
  | CreateTree string
  | RemoveFile string
  | WriteFile string string
  | MakeExecutable string
  | ReplaceSelf string

record exit_report =
  er_success :: bool
  er_status :: string
  er_stdout :: string
  er_stderr :: string

text \<open>What the tool calls of the system.  A file operation gives nothing, or whether its error is that there is no
  such file and its text; a program run to its end gives its report or the error of starting it.\<close>
record 'w os =
  os_file :: "file_act \<Rightarrow> 'w \<Rightarrow> (bool \<times> string) option \<times> 'w"
  os_run :: "string list \<Rightarrow> 'w \<Rightarrow> (string + exit_report) \<times> 'w"
  os_spawn :: "string list \<Rightarrow> 'w \<Rightarrow> string option \<times> 'w"
  os_exists :: "string \<Rightarrow> 'w \<Rightarrow> bool"
  os_exe :: "string + string"
  os_join :: "string \<Rightarrow> string \<Rightarrow> string"
  os_name :: string
  os_arch :: string
  os_temp_dir :: string
  os_temp_var :: "string option"
  os_pid :: nat

section \<open>Removing the program\<close>

definition double_quote :: char where "double_quote = CHR 0x22"

definition cleanup_script :: "string \<Rightarrow> string" where
  "cleanup_script exe = ''@echo off'' @ [newline] @ ''REM Cleanup script for omnipresent uninstall'' @ [newline] @
     ''timeout /t 2 /nobreak >nul 2>&1'' @ [newline] @ ''del /f /q '' @ [double_quote] @ exe @ [double_quote] @ [newline]"

text \<open>A running program can delete its own file except on Windows, where a script is left to do it.\<close>
definition remove_self :: "'w os \<Rightarrow> 'w \<Rightarrow> printed list \<times> 'w" where
  "remove_self os w = (case os_exe os of
      Inl _ \<Rightarrow> ([], w)
    | Inr exe \<Rightarrow>
        if os_name os = ''windows'' then
          (case os_temp_var os of
             None \<Rightarrow> ([], w)
           | Some temp \<Rightarrow>
               let batch = os_join os temp ''omni_cleanup.bat'';
                   (failed, w) = os_file os (WriteFile batch (cleanup_script exe)) w
               in if failed \<noteq> None then ([], w)
                  else ([], snd (os_spawn os [''cmd'', ''/c'', ''start'', '''', ''/b'', batch] w)))
        else (case os_file os (RemoveFile exe) w of
            (None, w) \<Rightarrow> ([Out (''removed '' @ exe)], w)
          | (Some (_, e), w) \<Rightarrow> ([omni_error (''could not remove '' @ exe @ '': '' @ e)], w)))"

text \<open>The left of \<open>paths\<close> is the error of \<^verbatim>\<open>Paths::resolve\<close>, its right the state directory.\<close>
definition uninstall_cmd :: "string + string \<Rightarrow> 'w os \<Rightarrow> 'w sender \<Rightarrow> 'w \<Rightarrow> 'w command_run" where
  "uninstall_cmd paths os send w =
     (let w = snd (send ReqStop w) in
      case paths of
        Inl e \<Rightarrow> ([omni_error e], FAILURE, w)
      | Inr dir \<Rightarrow>
          let (failed, w) = os_file os (RemoveTree dir) w;
              finish = (\<lambda>ps. let (qs, w) = remove_self os w in
                 (ps @ qs @ [Out ''omnipresent uninstalled''], SUCCESS, w))
          in case failed of
               None \<Rightarrow> finish [Out (''removed '' @ dir)]
             | Some (True, _) \<Rightarrow> finish []
             | Some (False, e) \<Rightarrow> ([omni_error (''could not remove '' @ dir @ '': '' @ e)], FAILURE, w))"

section \<open>Updating the program\<close>

definition REPO :: string where "REPO = ''JonatanFD/omnipresent''"

definition asset_platform :: "string \<Rightarrow> string \<Rightarrow> string option" where
  "asset_platform name arch =
     (if (name, arch) = (''macos'', ''aarch64'') then Some ''macos-arm64''
      else if (name, arch) = (''linux'', ''x86_64'') then Some ''linux-x64''
      else if (name, arch) = (''windows'', ''x86_64'') then Some ''windows-x64''
      else None)"

definition run_program :: "'w os \<Rightarrow> string list \<Rightarrow> 'w \<Rightarrow> (string + unit) \<times> 'w" where
  "run_program os argv w = (case os_run os argv w of
      (Inl e, w) \<Rightarrow> (Inl e, w)
    | (Inr r, w) \<Rightarrow> (if er_success r then Inr () else Inl (''exited with '' @ er_status r), w))"

definition curl :: "'w os \<Rightarrow> string list \<Rightarrow> 'w \<Rightarrow> (string + string) \<times> 'w" where
  "curl os args w = (case os_run os (''curl'' # args) w of
      (Inl e, w) \<Rightarrow> (Inl (''could not run curl (is it installed?): '' @ e), w)
    | (Inr r, w) \<Rightarrow>
        (if er_success r then Inr (er_stdout r)
         else Inl (''curl exited with '' @ er_status r @ '': '' @ trim (er_stderr r)), w))"

text \<open>\<open>tag_of\<close> is the library serde_json: the error of the parser, or the text of the field \<^verbatim>\<open>tag_name\<close>.\<close>
definition latest_version :: "(string \<Rightarrow> string + string option) \<Rightarrow> 'w os \<Rightarrow> 'w \<Rightarrow> (string + string) \<times> 'w" where
  "latest_version tag_of os w =
     (case curl os [''-H'', ''User-Agent: omni-update'', ''-H'', ''Accept: application/vnd.github+json'',
             ''https://api.github.com/repos/'' @ REPO @ ''/releases/latest''] w of
        (Inl e, w) \<Rightarrow> (Inl e, w)
      | (Inr body, w) \<Rightarrow>
          ((case tag_of body of
              Inl e \<Rightarrow> Inl (''unexpected response from GitHub: '' @ e)
            | Inr None \<Rightarrow> Inl ''the latest release has no tag''
            | Inr (Some tag) \<Rightarrow> Inr (dropWhile (\<lambda>c. c = CHR ''v'') tag)), w))"

text \<open>The steps with the temporary directory in place.\<close>
definition unpack_and_replace ::
  "'w os \<Rightarrow> string \<Rightarrow> string \<Rightarrow> string \<Rightarrow> string \<Rightarrow> 'w \<Rightarrow> (string + unit) \<times> 'w" where
  "unpack_and_replace os tmp archive binary url w =
     (let archive_path = os_join os tmp archive in
      case run_program os [''curl'', ''--proto'', ''=https'', ''--tlsv1.2'', ''-fsSL'', ''-o'', archive_path, url] w of
        (Inl e, w) \<Rightarrow> (Inl (''download failed: '' @ e), w)
      | (Inr _, w) \<Rightarrow>
          (case run_program os [''tar'', ''-xf'', archive_path, ''-C'', tmp] w of
             (Inl e, w) \<Rightarrow> (Inl (''could not unpack '' @ archive @ '': '' @ e), w)
           | (Inr _, w) \<Rightarrow>
               let new_binary = os_join os tmp binary in
               if \<not> os_exists os new_binary w then (Inl (''the archive did not contain '' @ binary), w)
               else
                 let w = (if os_name os = ''windows'' then w else snd (os_file os (MakeExecutable new_binary) w));
                     (failed, w) = os_file os (ReplaceSelf new_binary) w
                 in (case failed of
                       Some (_, e) \<Rightarrow> (Inl (''could not replace the running binary: '' @ e), w)
                     | None \<Rightarrow> (Inr (), w))))"

text \<open>The guard that removes the temporary directory is dropped on every way out.\<close>
definition download_and_replace :: "'w os \<Rightarrow> string \<Rightarrow> 'w \<Rightarrow> printed list \<times> (string + unit) \<times> 'w" where
  "download_and_replace os platform w =
     (let (archive, binary) =
            (if os_name os = ''windows'' then (''omni-cli-'' @ platform @ ''.zip'', ''omni.exe'')
             else (''omni-cli-'' @ platform @ ''.tar.gz'', ''omni''));
          url = ''https://github.com/'' @ REPO @ ''/releases/latest/download/'' @ archive;
          tmp = os_join os (os_temp_dir os) (''omni-update-'' @ decimal (os_pid os));
          w = snd (os_file os (RemoveTree tmp) w);
          (failed, w) = os_file os (CreateTree tmp) w
      in case failed of
           Some (_, e) \<Rightarrow> ([], Inl (''could not create a temp dir: '' @ e), w)
         | None \<Rightarrow>
             let (r, w) = unpack_and_replace os tmp archive binary url w;
                 w = snd (os_file os (RemoveTree tmp) w)
             in ([Out (''downloading '' @ archive @ '' ...'')], r, w))"

definition restart_daemon :: "'w os \<Rightarrow> 'w \<Rightarrow> (string + unit) \<times> 'w" where
  "restart_daemon os w = (case os_exe os of
      Inl e \<Rightarrow> (Inl e, w)
    | Inr exe \<Rightarrow> (case os_spawn os [exe, ''start''] w of
          (Some e, w) \<Rightarrow> (Inl e, w) | (None, w) \<Rightarrow> (Inr (), w)))"

text \<open>\<open>pause\<close> is what happens outside during the half second a stopping daemon is given.\<close>
definition update_cmd ::
  "string \<Rightarrow> (string \<Rightarrow> string + string option) \<Rightarrow> ('w \<Rightarrow> 'w) \<Rightarrow> 'w os \<Rightarrow> 'w sender \<Rightarrow> 'w \<Rightarrow> 'w command_run" where
  "update_cmd current tag_of pause os send w =
     (case asset_platform (os_name os) (os_arch os) of
        None \<Rightarrow> ([omni_error (''self-update is not available for this platform ('' @ os_name os @ '' '' @ os_arch os @
                   '') '' @ em_dash @ '' reinstall from https://github.com/'' @ REPO @ ''/releases/latest'')], FAILURE, w)
      | Some platform \<Rightarrow>
          let start = [Out (''current version: '' @ current)] in
          case latest_version tag_of os w of
            (Inl e, w) \<Rightarrow> (start @ [omni_error (''could not check for updates: '' @ e)], FAILURE, w)
          | (Inr latest, w) \<Rightarrow>
              if latest = current then (start @ [Out ''already up to date.''], SUCCESS, w)
              else
                let (answer, w) = send ReqStatus w;
                    was_running = (case answer of Inr _ \<Rightarrow> True | Inl _ \<Rightarrow> False);
                    w = (if was_running then pause (snd (send ReqStop w)) else w);
                    (ps, result, w) = download_and_replace os platform w;
                    ps = start @ [Out (''updating to '' @ latest @ '' ...'')] @ ps
                in case result of
                     Inr _ \<Rightarrow>
                       let (qs, w) = (if was_running
                             then (case restart_daemon os w of
                                 (Inr _, w) \<Rightarrow> ([Out ''daemon restarted on the new version.''], w)
                               | (Inl e, w) \<Rightarrow> ([omni_error (''updated, but could not restart the daemon: '' @ e @ '' '' @
                                     em_dash @ '' run `omni start`'')], w))
                             else ([], w))
                       in (ps @ [Out (''updated to '' @ latest @ ''.'')] @ qs, SUCCESS, w)
                   | Inl e \<Rightarrow>
                       (ps @ [omni_error (''update failed: '' @ e)] @
                        (if was_running then [omni_error (''the daemon was stopped '' @ em_dash @
                           '' run `omni start` to bring it back'')] else []), FAILURE, w))"

section \<open>The commands\<close>

datatype command =
    CmdStart
  | CmdStop
  | CmdStatus
  | CmdConnect string
  | CmdDisconnect string
  | CmdAccept string
  | CmdReject string
  | CmdPeers "string option"
  | CmdLayout "string option" "string option"
  | CmdClipboard bool
  | CmdModifiers "string option" "string option"
  | CmdDoctor
  | CmdUpdate
  | CmdUninstall
  | CmdDaemon

text \<open>Everything a run of the tool finds around it.\<close>
record 'w cli =
  cli_debug :: "response \<Rightarrow> string"
  cli_doctor :: "string + doctor_env"
  cli_paths :: "string + string"
  cli_os :: "'w os"
  cli_version :: string
  cli_tag_of :: "string \<Rightarrow> string + string option"
  cli_pause :: "'w \<Rightarrow> 'w"
  cli_no_exe :: "string option"
  cli_spawn_daemon :: "'w \<Rightarrow> (string + unit) \<times> 'w"
  cli_began :: real
  cli_rounds :: "(real \<times> ('w \<Rightarrow> 'w)) list"
  cli_run_daemon :: "'w \<Rightarrow> string option \<times> 'w"

fun main_cmd :: "'w cli \<Rightarrow> 'w sender \<Rightarrow> command \<Rightarrow> 'w \<Rightarrow> 'w command_run" where
  "main_cmd c send CmdDaemon w = (case cli_run_daemon c w of
      (None, w) \<Rightarrow> ([], SUCCESS, w) | (Some e, w) \<Rightarrow> ([Err (''omni daemon: '' @ e)], FAILURE, w))"
| "main_cmd c send CmdStart w = start_cmd (cli_no_exe c) (cli_spawn_daemon c) (cli_began c) (cli_rounds c) send w"
| "main_cmd c send CmdStop w = simple (cli_debug c) send ReqStop ''daemon stopped'' w"
| "main_cmd c send CmdStatus w = status_cmd (cli_debug c) send w"
| "main_cmd c send (CmdConnect host) w = simple (cli_debug c) send (ReqConnect host) ''connected'' w"
| "main_cmd c send (CmdDisconnect host) w = simple (cli_debug c) send (ReqDisconnect host) ''disconnected'' w"
| "main_cmd c send (CmdAccept peer) w = simple (cli_debug c) send (ReqAccept peer) ''accepted'' w"
| "main_cmd c send (CmdReject peer) w = simple (cli_debug c) send (ReqReject peer) ''rejected'' w"
| "main_cmd c send (CmdPeers None) w = listing (cli_debug c) peers_lines send ReqPeers w"
| "main_cmd c send (CmdPeers (Some host)) w = simple (cli_debug c) send (ReqRemovePeer host) ''removed'' w"
| "main_cmd c send (CmdLayout host edge) w = layout_cmd (cli_debug c) send host edge w"
| "main_cmd c send (CmdClipboard enabled) w = simple (cli_debug c) send (ReqClipboard enabled)
     (if enabled then ''clipboard sharing on'' else ''clipboard sharing off'') w"
| "main_cmd c send (CmdModifiers host swap) w = modifiers_cmd (cli_debug c) send host swap w"
| "main_cmd c send CmdDoctor w = doctor_cmd (cli_doctor c) send w"
| "main_cmd c send CmdUpdate w = update_cmd (cli_version c) (cli_tag_of c) (cli_pause c) (cli_os c) send w"
| "main_cmd c send CmdUninstall w = uninstall_cmd (cli_paths c) (cli_os c) send w"

section \<open>One command, one request\<close>

text \<open>What a request can be answered with.\<close>
fun answer_fits :: "request \<Rightarrow> response \<Rightarrow> bool" where
  "answer_fits ReqHello resp = (\<exists>v d. resp = RespHello v d)"
| "answer_fits ReqStatus resp = (\<exists>st. resp = RespStatus st)"
| "answer_fits ReqPeers resp = (\<exists>ps. resp = RespPeers ps)"
| "answer_fits (ReqLayout None None) resp = (\<exists>ps. resp = RespLayout ps)"
| "answer_fits (ReqModifiers None None) resp = (\<exists>ss. resp = RespModifiers ss)"
| "answer_fits ReqStop resp = (resp = RespOk)"
| "answer_fits req resp = (resp = RespOk \<or> (\<exists>m. resp = RespError m))"

text \<open>The request of a command that asks the daemon for one thing, and what it prints when that is granted.\<close>
fun asked :: "command \<Rightarrow> request option" where
  "asked CmdStop = Some ReqStop"
| "asked CmdStatus = Some ReqStatus"
| "asked (CmdConnect host) = Some (ReqConnect host)"
| "asked (CmdDisconnect host) = Some (ReqDisconnect host)"
| "asked (CmdAccept peer) = Some (ReqAccept peer)"
| "asked (CmdReject peer) = Some (ReqReject peer)"
| "asked (CmdPeers None) = Some ReqPeers"
| "asked (CmdPeers (Some host)) = Some (ReqRemovePeer host)"
| "asked (CmdLayout (Some host) (Some edge)) = Some (ReqLayout (Some host) (Some edge))"
| "asked (CmdLayout None edge) = Some (ReqLayout None None)"
| "asked (CmdClipboard enabled) = Some (ReqClipboard enabled)"
| "asked (CmdModifiers (Some host) (Some swap)) = Some (ReqModifiers (Some host) (Some swap))"
| "asked (CmdModifiers None swap) = Some (ReqModifiers None None)"
| "asked cmd = None"

fun granted_lines :: "command \<Rightarrow> response \<Rightarrow> string list" where
  "granted_lines CmdStop resp = [''daemon stopped'']"
| "granted_lines CmdStatus resp = (case resp of RespStatus st \<Rightarrow> status_lines st | _ \<Rightarrow> [])"
| "granted_lines (CmdConnect host) resp = [''connected'']"
| "granted_lines (CmdDisconnect host) resp = [''disconnected'']"
| "granted_lines (CmdAccept peer) resp = [''accepted'']"
| "granted_lines (CmdReject peer) resp = [''rejected'']"
| "granted_lines (CmdPeers None) resp = the (peers_lines resp)"
| "granted_lines (CmdPeers (Some host)) resp = [''removed'']"
| "granted_lines (CmdLayout None edge) resp = the (layout_lines resp)"
| "granted_lines (CmdLayout host edge) resp = [''placed'']"
| "granted_lines (CmdClipboard enabled) resp = [''clipboard sharing '' @ (if enabled then ''on'' else ''off'')]"
| "granted_lines (CmdModifiers None swap) resp = the (modifiers_lines resp)"
| "granted_lines (CmdModifiers host swap) resp = [''applied'']"
| "granted_lines cmd resp = []"

lemma persist_kind: "fst (persist env done change sh) = RespOk \<or> (\<exists>m. fst (persist env done change sh) = RespError m)"
  by (auto simp: persist_def persist_response_def split_beta split: sum.splits persist_error.splits)

lemma dispatch_kind: "answer_fits req (fst (dispatch env req sh))"
proof (cases req)
  case (ReqConnect host)
  then show ?thesis by (auto simp: connect_command_def split: sum.splits prod.splits)
next
  case (ReqDisconnect host)
  then show ?thesis by (auto simp: disconnect_request_def split: option.splits)
next
  case (ReqAccept selector)
  then show ?thesis by (auto simp: decide_pending_def split: option.splits)
next
  case (ReqReject selector)
  then show ?thesis by (auto simp: decide_pending_def split: option.splits)
next
  case (ReqRemovePeer selector)
  then show ?thesis by (auto simp: remove_peer_def Let_def split_beta split: sum.splits bool.splits)
next
  case (ReqLayout host edge)
  then show ?thesis using persist_kind [of env "''placed''"]
    by (cases host; cases edge) (auto simp: set_layout_def Let_def split: option.splits)
next
  case (ReqClipboard enabled)
  then show ?thesis using persist_kind [of env "''clipboard sharing changed''"] by (simp add: set_clipboard_def Let_def)
next
  case (ReqModifiers host swap)
  then show ?thesis using persist_kind [of env "''applied''"]
    by (cases host; cases swap) (auto simp: set_modifier_swap_def Let_def split: option.splits)
qed simp_all

lemma granted_command:
  assumes "asked cmd = Some req" and "answer_fits req resp"
    and "send req w = ((case resp of RespError m \<Rightarrow> Inl m | _ \<Rightarrow> Inr resp), w')"
  shows "main_cmd c send cmd w =
    (case resp of RespError m \<Rightarrow> ([omni_error m], FAILURE, w') | _ \<Rightarrow> (map Out (granted_lines cmd resp), SUCCESS, w'))"
  using assms
proof (cases cmd)
  case (CmdPeers host)
  then show ?thesis using assms by (cases host) (auto simp: simple_def listing_def peers_lines_def)
next
  case (CmdLayout host edge)
  then show ?thesis using assms
    by (cases host; cases edge) (auto simp: layout_cmd_def simple_def listing_def layout_lines_def)
next
  case (CmdModifiers host swap)
  then show ?thesis using assms
    by (cases host; cases swap) (auto simp: modifiers_cmd_def simple_def listing_def modifiers_lines_def)
qed (auto simp: simple_def status_cmd_def)

section \<open>Properties\<close>


text \<open>C0. A command that asks the daemon for one thing is one \<^verbatim>\<open>dispatch\<close> of its request, whatever the command: the
  daemon is left as \<^verbatim>\<open>dispatch\<close> leaves it and told to stop only by \<^verbatim>\<open>omni stop\<close>; the command fails exactly when
  the daemon refuses, with the daemon's own message and nothing else, and otherwise prints what was granted or
  listed.\<close>
theorem command_is_one_dispatch:
  assumes "asked cmd = Some req" and "dispatch env req sh = (resp, sh')"
    and "json_exchange enc parse ser dec req resp"
  shows "main_cmd c (cli_request (daemon_link enc parse ser dec env)) cmd (fresh_connection sh) =
    (case resp of
       RespError m \<Rightarrow> ([omni_error m], FAILURE, fresh_connection sh')
     | _ \<Rightarrow> (map Out (granted_lines cmd resp), SUCCESS, (fresh_connection sh') \<lparr> dw_stops := of_bool (cmd = CmdStop) \<rparr>))"
proof -
  have fits: "answer_fits req resp" using dispatch_kind [of req env sh] assms(2) by simp
  have req: "req \<noteq> ReqSubscribe \<and> (req = ReqStop) = (cmd = CmdStop)"
    using assms(1) by (cases cmd rule: asked.cases) auto
  have "resp = RespError m \<Longrightarrow> cmd \<noteq> CmdStop" for m using fits req by auto
  then show ?thesis
    using granted_command [where send = "cli_request (daemon_link enc parse ser dec env)" and w = "fresh_connection sh"
        and c = c, OF assms(1) fits ask_daemon [OF conjunct1 [OF req] assms(2,3)]]
    by (auto simp: conjunct2 [OF req] fresh_connection_def split: response.split)
qed

text \<open>A JSON library for one exchange.\<close>
definition demo_wire :: "request \<Rightarrow> response \<Rightarrow> 'p daemon_world client_link" where
  "demo_wire req resp = daemon_link (\<lambda>_. Inr ''{}'') (\<lambda>_. Inr req) (\<lambda>_. Some ''{}'') (\<lambda>_. Inr resp)
     (demo_env \<lparr> width = 1, height = 1 \<rparr>)"

lemma demo_json: "json_exchange (\<lambda>_. Inr ''{}'') (\<lambda>_. Inr req) (\<lambda>_. Some ''{}'') (\<lambda>_. Inr resp) req resp"
  by (simp add: json_exchange_def newline_def strip_return_def)

lemma command_is_one_dispatch_witness:
  "\<exists>sh :: mock_clipboard shared. is_enabled (sh_clipboard sh) \<and>
     (\<forall>c. main_cmd c (cli_request (demo_wire (ReqClipboard True) RespOk)) (CmdClipboard True) (fresh_connection demo_home) =
        ([Out ''clipboard sharing on''], SUCCESS, fresh_connection sh))"
proof -
  let ?env = "demo_env \<lparr> width = 1, height = 1 \<rparr>"
  have config: "sh_config demo_home = ConfigAbsent"
    by (simp add: demo_home_def daemon_start_def rebuild_layout_def Let_def setters)
  obtain sh where d: "dispatch ?env (ReqClipboard True) demo_home = (RespOk, sh)" "is_enabled (sh_clipboard sh)"
    by (simp add: set_clipboard_def persist_def config_update_def config_save_def persist_response_def demo_env_def
        config Let_def split_beta notify_change_def set_enabled_def is_enabled_def)
  show ?thesis
    using command_is_one_dispatch [OF _ d(1) demo_json, of "CmdClipboard True"] d(2)
    by (auto simp: demo_wire_def fresh_connection_def)
qed

text \<open>The times of a loop's rounds when it sleeps before each but the first.\<close>
definition spaced_rounds :: "real \<Rightarrow> real \<Rightarrow> (real \<times> 'b) list \<Rightarrow> bool" where
  "spaced_rounds pause began rounds \<longleftrightarrow>
     list_all (\<lambda>k. began + of_nat k * pause \<le> fst (rounds ! k)) [0..<length rounds]"

lemma late_rounds:
  assumes "spaced_rounds pause began rounds" and "limit \<le> of_nat n * pause" and "0 \<le> pause"
  shows "list_all (\<lambda>(now, x). began + limit \<le> now) (drop n rounds)"
  unfolding list_all_length
proof (intro allI impI)
  fix i
  assume i: "i < length (drop n rounds)"
  have "of_nat n * pause \<le> of_nat (n + i) * pause" using assms(3) by (intro mult_right_mono) simp_all
  moreover have "began + of_nat (n + i) * pause \<le> fst (rounds ! (n + i))"
    using assms(1) i by (simp add: spaced_rounds_def list_all_iff del: of_nat_add)
  ultimately show "case drop n rounds ! i of (now, x) \<Rightarrow> began + limit \<le> now"
    using assms(2) i by (simp add: split_beta)
qed

lemma await_daemon_take:
  assumes "list_all (\<lambda>(now, others). deadline \<le> now) (drop n rounds)"
  shows "await_daemon send deadline rounds w = await_daemon send deadline (take n rounds) w"
  using assms
proof (induction rounds arbitrary: n w)
  case Nil
  then show ?case by simp
next
  case (Cons r rounds)
  then show ?case
    by (cases n; cases r) (auto split: prod.split sum.split response.split)
qed

lemma await_daemon_answered:
  "await_daemon send deadline rounds w = (Some st, w') \<Longrightarrow> \<exists>w1. send ReqStatus w1 = (Inr (RespStatus st), w')"
  by (induction rounds arbitrary: w) (auto split: prod.splits sum.splits response.splits if_splits)


text \<open>A daemon that answers the third question.\<close>
definition demo_status :: status_info where
  "demo_status = status (demo_env \<lparr> width = 1, height = 1 \<rparr>) demo_home"

definition third_time :: "nat sender" where
  "third_time req n = (if 2 \<le> n then Inr (RespStatus demo_status) else Inl ''not running'', Suc n)"


end
