(* ===== verification/Desktop.thy ===== *)
theory Desktop
  imports Client
begin

text \<open>
  The desktop application (\<^verbatim>\<open>src/omni/src-tauri/src\<close>): its commands and its subscription (\<^verbatim>\<open>ipc.rs\<close>), the tray
  (\<^verbatim>\<open>tray.rs\<close>), the notification (\<^verbatim>\<open>notify.rs\<close>), the supervisor of the daemon it runs in a thread of its own
  (\<^verbatim>\<open>daemon.rs\<close>), and its diagnostics (\<^verbatim>\<open>diagnostics.rs\<close>).  Windows, tray icons and notifications are the
  library tauri: what is shown is the state \<open>app\<close>.
\<close>

section \<open>Commands\<close>

definition app_unexpected :: "string \<Rightarrow> string + 'b" where
  "app_unexpected what = Inl (''the daemon answered something other than '' @ what)"

text \<open>A request of which only the error matters, and one with an answer to take apart.\<close>
definition app_do :: "'w sender \<Rightarrow> request \<Rightarrow> 'w \<Rightarrow> (string + unit) \<times> 'w" where
  "app_do send req w = (case send req w of (Inl e, w) \<Rightarrow> (Inl e, w) | (Inr _, w) \<Rightarrow> (Inr (), w))"

definition app_get :: "string \<Rightarrow> (response \<Rightarrow> 'b option) \<Rightarrow> 'w sender \<Rightarrow> request \<Rightarrow> 'w \<Rightarrow> (string + 'b) \<times> 'w" where
  "app_get what part send req w = (case send req w of
      (Inl e, w) \<Rightarrow> (Inl e, w)
    | (Inr resp, w) \<Rightarrow> ((case part resp of Some x \<Rightarrow> Inr x | None \<Rightarrow> app_unexpected what), w))"

record daemon_version =
  dv_protocol :: u32
  dv_version :: string
  dv_compatible :: bool

definition daemon_status :: "'w sender \<Rightarrow> 'w \<Rightarrow> (string + status_info) \<times> 'w" where
  "daemon_status send = app_get ''a status'' (\<lambda>r. case r of RespStatus st \<Rightarrow> Some st | _ \<Rightarrow> None) send ReqStatus"

definition daemon_hello :: "'w sender \<Rightarrow> 'w \<Rightarrow> (string + daemon_version) \<times> 'w" where
  "daemon_hello send = app_get ''a hello'' (\<lambda>r. case r of
      RespHello v d \<Rightarrow> Some \<lparr> dv_protocol = v, dv_version = d, dv_compatible = (v \<le> PROTOCOL_VERSION) \<rparr>
    | _ \<Rightarrow> None) send ReqHello"

definition peer_connect :: "'w sender \<Rightarrow> string \<Rightarrow> 'w \<Rightarrow> (string + unit) \<times> 'w" where
  "peer_connect send host = app_do send (ReqConnect host)"
definition peer_disconnect :: "'w sender \<Rightarrow> string \<Rightarrow> 'w \<Rightarrow> (string + unit) \<times> 'w" where
  "peer_disconnect send host = app_do send (ReqDisconnect host)"
definition peer_accept :: "'w sender \<Rightarrow> string \<Rightarrow> 'w \<Rightarrow> (string + unit) \<times> 'w" where
  "peer_accept send selector = app_do send (ReqAccept selector)"
definition peer_reject :: "'w sender \<Rightarrow> string \<Rightarrow> 'w \<Rightarrow> (string + unit) \<times> 'w" where
  "peer_reject send selector = app_do send (ReqReject selector)"
definition peer_list :: "'w sender \<Rightarrow> 'w \<Rightarrow> (string + peer_info list) \<times> 'w" where
  "peer_list send = app_get ''a peer list'' (\<lambda>r. case r of RespPeers ps \<Rightarrow> Some ps | _ \<Rightarrow> None) send ReqPeers"
definition peer_remove :: "'w sender \<Rightarrow> string \<Rightarrow> 'w \<Rightarrow> (string + unit) \<times> 'w" where
  "peer_remove send selector = app_do send (ReqRemovePeer selector)"
definition layout_list :: "'w sender \<Rightarrow> 'w \<Rightarrow> (string + layout_info list) \<times> 'w" where
  "layout_list send = app_get ''a layout'' (\<lambda>r. case r of RespLayout ps \<Rightarrow> Some ps | _ \<Rightarrow> None) send (ReqLayout None None)"
definition layout_set :: "'w sender \<Rightarrow> string \<Rightarrow> string \<Rightarrow> 'w \<Rightarrow> (string + unit) \<times> 'w" where
  "layout_set send host edge = app_do send (ReqLayout (Some host) (Some edge))"
definition modifiers_list :: "'w sender \<Rightarrow> 'w \<Rightarrow> (string + modifier_info list) \<times> 'w" where
  "modifiers_list send =
     app_get ''a modifier list'' (\<lambda>r. case r of RespModifiers ss \<Rightarrow> Some ss | _ \<Rightarrow> None) send (ReqModifiers None None)"
definition modifiers_set :: "'w sender \<Rightarrow> string \<Rightarrow> string \<Rightarrow> 'w \<Rightarrow> (string + unit) \<times> 'w" where
  "modifiers_set send host swap = app_do send (ReqModifiers (Some host) (Some swap))"
definition clipboard_set :: "'w sender \<Rightarrow> bool \<Rightarrow> 'w \<Rightarrow> (string + unit) \<times> 'w" where
  "clipboard_set send enabled = app_do send (ReqClipboard enabled)"

section \<open>The tray\<close>

definition ACCEPT_PREFIX :: string where "ACCEPT_PREFIX = ''accept:''"
definition REJECT_PREFIX :: string where "REJECT_PREFIX = ''reject:''"

datatype menu_entry = MenuItem string string | Separator

definition tooltip :: "nat \<Rightarrow> string" where
  "tooltip waiting =
     (if waiting = 0 then ''Omnipresent''
      else if waiting = 1 then ''Omnipresent '' @ em_dash @ '' 1 request waiting''
      else ''Omnipresent '' @ em_dash @ '' '' @ decimal waiting @ '' requests waiting'')"

text \<open>The menu for the requests that wait, as their host and fingerprint.\<close>
definition tray_menu :: "pending_info list \<Rightarrow> menu_entry list" where
  "tray_menu waiting =
     concat (map (\<lambda>p. [MenuItem (ACCEPT_PREFIX @ pi_fingerprint p) (''Accept '' @ pi_host p),
                       MenuItem (REJECT_PREFIX @ pi_fingerprint p) (''Reject '' @ pi_host p), Separator]) waiting) @
     [MenuItem ''open'' ''Open Omnipresent'', Separator, MenuItem ''quit'' ''Quit Omnipresent'']"

datatype menu_action = Ask request | ShowWindow | Quit | Nothing

definition handle_menu_event :: "string \<Rightarrow> menu_action" where
  "handle_menu_event entry =
     (case strip_prefix ACCEPT_PREFIX entry of
        Some fingerprint \<Rightarrow> Ask (ReqAccept fingerprint)
      | None \<Rightarrow>
          (case strip_prefix REJECT_PREFIX entry of
             Some fingerprint \<Rightarrow> Ask (ReqReject fingerprint)
           | None \<Rightarrow> if entry = ''open'' then ShowWindow else if entry = ''quit'' then Quit else Nothing))"

section \<open>The subscription\<close>

datatype app_event = StatusEvent status_info | DisconnectedEvent

text \<open>What the application shows.  \<open>app_tray\<close> is nothing before the tray is made, otherwise its menu and its
  tooltip; a menu that cannot be built leaves the old one.\<close>
record app =
  app_announced :: "string set"
  app_tray :: "(menu_entry list \<times> string) option"
  app_menu_builds :: bool
  app_notices :: "string list"
  app_emitted :: "app_event list"

definition notice_body :: "string \<Rightarrow> string" where
  "notice_body host = host @ '' is asking to control this machine. Accept from the menu bar or the window.''"

definition tray_sync :: "status_info \<Rightarrow> app \<Rightarrow> app" where
  "tray_sync st a = (case app_tray a of
      None \<Rightarrow> a
    | Some (old, tip) \<Rightarrow> a \<lparr> app_tray := Some (if app_menu_builds a then tray_menu (st_pending st) else old,
        tooltip (length (st_pending st))) \<rparr>)"

definition new_requests :: "status_info \<Rightarrow> string set \<Rightarrow> pending_info list \<times> string set" where
  "new_requests st announced =
     (let waiting = set (map pi_fingerprint (st_pending st));
          announced = announced \<inter> waiting;
          fresh = filter (\<lambda>p. pi_fingerprint p \<notin> announced) (st_pending st)
      in (fresh, announced \<union> set (map pi_fingerprint fresh)))"

definition announce_new_requests :: "status_info \<Rightarrow> app \<Rightarrow> app" where
  "announce_new_requests st a =
     (let (fresh, announced) = new_requests st (app_announced a)
      in a \<lparr> app_announced := announced, app_notices := app_notices a @ map (\<lambda>p. notice_body (pi_host p)) fresh \<rparr>)"

definition emit_app :: "app_event \<Rightarrow> app \<Rightarrow> app" where
  "emit_app e a = a \<lparr> app_emitted := app_emitted a @ [e] \<rparr>"

definition take_snapshot :: "status_info \<Rightarrow> app \<Rightarrow> app" where
  "take_snapshot st a = emit_app (StatusEvent st) (announce_new_requests st (tray_sync st a))"

text \<open>What reading the connection gives in turn: a line, or an error; the list ends where the stream does.
  \<open>parse\<close> is serde_json, with nothing for a line that is not a snapshot.\<close>
fun subscribe_lines :: "(string \<Rightarrow> status_info option) \<Rightarrow> (string + string) list \<Rightarrow> app \<Rightarrow> (string + unit) \<times> app" where
  "subscribe_lines parse [] a = (Inr (), a)"
| "subscribe_lines parse (Inl e # reads) a = (Inl e, a)"
| "subscribe_lines parse (Inr line # reads) a =
     (if trim line = [] then subscribe_lines parse reads a
      else case parse line of
          Some st \<Rightarrow> subscribe_lines parse reads (take_snapshot st a)
        | None \<Rightarrow> subscribe_lines parse reads a)"

text \<open>Opening the connection can fail with a text; then there is nothing to read.\<close>
definition subscribe_once ::
  "(string \<Rightarrow> status_info option) \<Rightarrow> string + (string + string) list \<Rightarrow> app \<Rightarrow> (string + unit) \<times> app" where
  "subscribe_once parse opened a = (case opened of Inl e \<Rightarrow> (Inl e, a) | Inr reads \<Rightarrow> subscribe_lines parse reads a)"

fun spawn_subscription ::
  "(string \<Rightarrow> status_info option) \<Rightarrow> (string + (string + string) list) list \<Rightarrow> app \<Rightarrow> app" where
  "spawn_subscription parse [] a = a"
| "spawn_subscription parse (opened # attempts) a =
     (let (r, a) = subscribe_once parse opened a
      in spawn_subscription parse attempts (case r of Inr _ \<Rightarrow> a | Inl _ \<Rightarrow> emit_app DisconnectedEvent a))"

section \<open>The supervisor\<close>

text \<open>A daemon thread is inside \<^verbatim>\<open>run\<close>, then past it while it reports how it ended, then finished.\<close>
datatype thread_phase = InRun | Leaving | Finished

text \<open>The threads started so far, by number, and the supervisor's two fields: the handle it keeps and the flag.\<close>
record supervisor =
  sv_threads :: "thread_phase list"
  sv_slot :: "nat option"
  sv_running :: bool

definition supervisor_new :: supervisor where
  "supervisor_new = \<lparr> sv_threads = [], sv_slot = None, sv_running = False \<rparr>"

definition is_finished :: "nat \<Rightarrow> supervisor \<Rightarrow> bool" where
  "is_finished h sv \<longleftrightarrow> sv_threads sv ! h = Finished"

definition supervisor_start :: "supervisor \<Rightarrow> supervisor" where
  "supervisor_start sv =
     (let sv = (case sv_slot sv of
            Some h \<Rightarrow> if is_finished h sv then sv \<lparr> sv_slot := None \<rparr> else sv
          | None \<Rightarrow> sv)
      in if sv_slot sv \<noteq> None then sv
         else sv \<lparr> sv_running := True, sv_threads := sv_threads sv @ [InRun], sv_slot := Some (length (sv_threads sv)) \<rparr>)"

text \<open>What the thread does after \<^verbatim>\<open>run\<close> has returned, and its end.\<close>
definition run_returned :: "nat \<Rightarrow> supervisor \<Rightarrow> supervisor" where
  "run_returned h sv = (if h < length (sv_threads sv) \<and> sv_threads sv ! h = InRun
     then sv \<lparr> sv_threads := (sv_threads sv)[h := Leaving], sv_running := False \<rparr> else sv)"

definition thread_ended :: "nat \<Rightarrow> supervisor \<Rightarrow> supervisor" where
  "thread_ended h sv = (if h < length (sv_threads sv) \<and> sv_threads sv ! h = Leaving
     then sv \<lparr> sv_threads := (sv_threads sv)[h := Finished] \<rparr> else sv)"

record daemon_exit =
  exit_reason :: "string option"
  exit_stood_down :: bool

text \<open>What the thread reports: the error of \<^verbatim>\<open>run\<close>, and whether some other daemon answers.\<close>
definition exit_report_of :: "string + unit \<Rightarrow> bool \<Rightarrow> daemon_exit" where
  "exit_report_of outcome reachable =
     (let reason = (case outcome of Inl e \<Rightarrow> Some e | Inr _ \<Rightarrow> None)
      in \<lparr> exit_reason = reason, exit_stood_down = (reason \<noteq> None \<and> reachable) \<rparr>)"

fun contains_text :: "string \<Rightarrow> string \<Rightarrow> bool" where
  "contains_text [] pat = (pat = [])"
| "contains_text (c # cs) pat = (starts_with (c # cs) pat \<or> contains_text cs pat)"

definition request_stop :: "'w sender \<Rightarrow> 'w \<Rightarrow> (string + unit) \<times> 'w" where
  "request_stop send w = (case send ReqStop w of
      (Inr _, w) \<Rightarrow> (Inr (), w)
    | (Inl e, w) \<Rightarrow> (if contains_text e ''not running'' then Inr () else Inl e, w))"

definition STOP_TIMEOUT :: real where "STOP_TIMEOUT = 8"
definition STOP_POLL :: real where "STOP_POLL = 5 / 100"

text \<open>Waiting for the thread: each round is the time at the test of the deadline, and what the daemon's thread does
  during the sleep after it.  The supervisor's lock is held, so nothing else touches its fields; the rounds given
  last until the deadline.\<close>
fun await_thread :: "real \<Rightarrow> (real \<times> thread_phase) list \<Rightarrow> nat \<Rightarrow> supervisor \<Rightarrow> (string + unit) \<times> supervisor" where
  "await_thread deadline rounds h sv =
     (if is_finished h sv then (Inr (), sv)
      else case rounds of
          [] \<Rightarrow> (Inl ''the daemon did not stop in time'', sv \<lparr> sv_slot := Some h \<rparr>)
        | (now, phase) # rounds \<Rightarrow>
            if deadline \<le> now then (Inl ''the daemon did not stop in time'', sv \<lparr> sv_slot := Some h \<rparr>)
            else await_thread deadline rounds h
              (case phase of InRun \<Rightarrow> sv | Leaving \<Rightarrow> run_returned h sv | Finished \<Rightarrow> thread_ended h (run_returned h sv)))"

declare await_thread.simps [simp del]

definition supervisor_stop ::
  "string + unit \<Rightarrow> real \<Rightarrow> (real \<times> thread_phase) list \<Rightarrow> supervisor \<Rightarrow> (string + unit) \<times> supervisor" where
  "supervisor_stop asked_to_stop began rounds sv =
     (case sv_slot sv of
        None \<Rightarrow> (asked_to_stop, sv)
      | Some h \<Rightarrow>
          let sv = sv \<lparr> sv_slot := None \<rparr> in
          case asked_to_stop of
            Inl e \<Rightarrow> (Inl e, sv)
          | Inr _ \<Rightarrow> await_thread (began + STOP_TIMEOUT) rounds h sv)"

definition is_embedded :: "supervisor \<Rightarrow> bool" where
  "is_embedded sv = sv_running sv"

text \<open>Choosing Quit: a daemon of another process is left alone.\<close>
definition quit_app ::
  "string + unit \<Rightarrow> real \<Rightarrow> (real \<times> thread_phase) list \<Rightarrow> supervisor \<Rightarrow> bool \<times> supervisor" where
  "quit_app asked_to_stop began rounds sv =
     (if is_embedded sv then (True, snd (supervisor_stop asked_to_stop began rounds sv)) else (False, sv))"

section \<open>Diagnostics\<close>

definition capture_check :: "'w sender \<Rightarrow> 'w \<Rightarrow> check \<times> 'w" where
  "capture_check send w = (case send ReqStatus w of
      (Inr (RespStatus st), w) \<Rightarrow>
        (if st_capturing st then ok_check ''daemon'' ''running, input capture active''
         else failed_check ''daemon'' (''running, but capture is off '' @ em_dash @ '' this machine can only be driven. '' @
           ''Grant the permission above, then stop and start the daemon in General.''), w)
    | (Inr _, w) \<Rightarrow> (failed_check ''daemon'' ''answered something other than a status'', w)
    | (Inl e, w) \<Rightarrow> (failed_check ''daemon'' e, w))"

definition daemon_doctor :: "string + doctor_env \<Rightarrow> 'w sender \<Rightarrow> 'w \<Rightarrow> (string + check list) \<times> 'w" where
  "daemon_doctor paths send w = (case paths of
      Inl e \<Rightarrow> (Inl e, w)
    | Inr d \<Rightarrow> let (c, w) = capture_check send w in (Inr (run_checks d @ [c]), w))"

definition LOG_TAIL_BYTES :: nat where "LOG_TAIL_BYTES = 64 * 1024"
definition LOG_TAIL_LINES :: nat where "LOG_TAIL_LINES = 200"

text \<open>\<^verbatim>\<open>str::lines\<close>: what is left after the last newline is a line of its own unless it is empty.\<close>
fun text_lines :: "string \<Rightarrow> string \<Rightarrow> string list" where
  "text_lines acc [] = (if acc = [] then [] else [acc])"
| "text_lines acc (c # cs) =
     (if c = newline then strip_return acc # text_lines [] cs else text_lines (acc @ [c]) cs)"

definition tail_lines :: "string \<Rightarrow> nat \<Rightarrow> string list" where
  "tail_lines txt count =
     (let ls = filter (\<lambda>l. trim l \<noteq> []) (text_lines [] txt)
      in drop (length ls - count) ls)"

text \<open>The log file is its bytes, nothing where it cannot be opened, or the error of reading it; \<open>lossy\<close> is
  \<^verbatim>\<open>String::from_utf8_lossy\<close>.\<close>
definition daemon_log :: "(string \<Rightarrow> string) \<Rightarrow> (string + string) option \<Rightarrow> string + string list" where
  "daemon_log lossy file = (case file of
      None \<Rightarrow> Inr []
    | Some (Inl e) \<Rightarrow> Inl e
    | Some (Inr bytes) \<Rightarrow>
        let read = (if LOG_TAIL_BYTES < length bytes then drop (length bytes - LOG_TAIL_BYTES) bytes else bytes)
        in Inr (tail_lines (lossy read) LOG_TAIL_LINES))"

section \<open>The address to tell a peer\<close>

record ip_addr =
  ip_text :: string
  ip_unspecified :: bool
  ip_loopback :: bool

text \<open>\<open>sock\<close> gives the source address of a socket bound to the first argument and connected to the second.\<close>
definition route_source :: "(string \<Rightarrow> string \<Rightarrow> ip_addr option) \<Rightarrow> string \<Rightarrow> ip_addr option" where
  "route_source sock destination =
     (let bind = (if starts_with destination ''['' then ''[::]:0'' else ''0.0.0.0:0'') in
      case sock bind destination of
        None \<Rightarrow> None
      | Some a \<Rightarrow> if \<not> ip_unspecified a \<and> \<not> ip_loopback a then Some a else None)"

definition local_address :: "(string \<Rightarrow> string \<Rightarrow> ip_addr option) \<Rightarrow> string option" where
  "local_address sock = map_option ip_text (case route_source sock ''192.0.2.1:9'' of
      Some a \<Rightarrow> Some a | None \<Rightarrow> route_source sock ''[2001:db8::1]:9'')"

section \<open>Requests are announced once\<close>

text \<open>The snapshots an application has seen, in order, over all its connections.\<close>
fun snapshots_read :: "(string \<Rightarrow> status_info option) \<Rightarrow> (string + string) list \<Rightarrow> status_info list" where
  "snapshots_read parse [] = []"
| "snapshots_read parse (Inl e # reads) = []"
| "snapshots_read parse (Inr line # reads) =
     (case (if trim line = [] then None else parse line) of
        Some st \<Rightarrow> [st] | None \<Rightarrow> []) @ snapshots_read parse reads"

definition snapshots :: "(string \<Rightarrow> status_info option) \<Rightarrow> (string + (string + string) list) list \<Rightarrow> status_info list" where
  "snapshots parse attempts =
     concat (map (\<lambda>opened. case opened of Inl e \<Rightarrow> [] | Inr reads \<Rightarrow> snapshots_read parse reads) attempts)"

text \<open>One notice for each request that was not waiting before.\<close>
fun fresh_notices :: "string set \<Rightarrow> status_info list \<Rightarrow> string list" where
  "fresh_notices seen [] = []"
| "fresh_notices seen (st # sts) =
     map (\<lambda>p. notice_body (pi_host p)) (filter (\<lambda>p. pi_fingerprint p \<notin> seen) (st_pending st)) @
     fresh_notices (set (map pi_fingerprint (st_pending st))) sts"

fun waiting_after :: "string set \<Rightarrow> status_info list \<Rightarrow> string set" where
  "waiting_after seen [] = seen"
| "waiting_after seen (st # sts) = waiting_after (set (map pi_fingerprint (st_pending st))) sts"

lemma fresh_notices_append:
  "fresh_notices seen (sts @ sts') = fresh_notices seen sts @ fresh_notices (waiting_after seen sts) sts'"
  by (induction sts arbitrary: seen) simp_all

lemma waiting_after_append: "waiting_after seen (sts @ sts') = waiting_after (waiting_after seen sts) sts'"
  by (induction sts arbitrary: seen) simp_all

lemma take_snapshot_fields:
  "app_announced (take_snapshot st a) = set (map pi_fingerprint (st_pending st))"
  "app_notices (take_snapshot st a) = app_notices a @
     map (\<lambda>p. notice_body (pi_host p)) (filter (\<lambda>p. pi_fingerprint p \<notin> app_announced a) (st_pending st))"
  "app_menu_builds (take_snapshot st a) = app_menu_builds a"
  "app_tray (take_snapshot st a) = app_tray (tray_sync st a)"
proof -
  have "filter (\<lambda>p. pi_fingerprint p \<notin> app_announced b \<inter> set (map pi_fingerprint (st_pending st))) (st_pending st) =
      filter (\<lambda>p. pi_fingerprint p \<notin> app_announced b) (st_pending st)" for b :: app
    by (rule filter_cong) auto
  then show "app_announced (take_snapshot st a) = set (map pi_fingerprint (st_pending st))"
    "app_notices (take_snapshot st a) = app_notices a @
       map (\<lambda>p. notice_body (pi_host p)) (filter (\<lambda>p. pi_fingerprint p \<notin> app_announced a) (st_pending st))"
    by (auto simp: take_snapshot_def emit_app_def announce_new_requests_def new_requests_def tray_sync_def Let_def
        split: option.split)
qed (simp_all add: take_snapshot_def emit_app_def announce_new_requests_def tray_sync_def split_beta split: option.split)

lemma subscribe_lines_notices:
  "app_notices (snd (subscribe_lines parse reads a)) = app_notices a @ fresh_notices (app_announced a) (snapshots_read parse reads) \<and>
   app_announced (snd (subscribe_lines parse reads a)) = waiting_after (app_announced a) (snapshots_read parse reads)"
  by (induction parse reads a rule: subscribe_lines.induct) (auto simp: take_snapshot_fields split: option.split)

lemma subscription_notices:
  "app_notices (spawn_subscription parse attempts a) = app_notices a @ fresh_notices (app_announced a) (snapshots parse attempts)"
proof (induction attempts arbitrary: a)
  case Nil
  then show ?case by (simp add: snapshots_def)
next
  case (Cons opened attempts)
  obtain r b where once: "subscribe_once parse opened a = (r, b)" by fastforce
  define c where "c = (case r of Inr _ \<Rightarrow> b | Inl _ \<Rightarrow> emit_app DisconnectedEvent b)"
  define seen where "seen = (case opened of Inl e \<Rightarrow> [] | Inr reads \<Rightarrow> snapshots_read parse reads)"
  have "app_notices c = app_notices b" "app_announced c = app_announced b"
    by (simp_all add: c_def emit_app_def split: sum.split)
  moreover have "app_notices b = app_notices a @ fresh_notices (app_announced a) seen \<and>
      app_announced b = waiting_after (app_announced a) seen"
    using subscribe_lines_notices [of parse "projr opened" a] once
    by (cases opened) (simp_all add: subscribe_once_def seen_def)
  moreover have "snapshots parse (opened # attempts) = seen @ snapshots parse attempts"
    by (simp add: snapshots_def seen_def)
  ultimately show ?case using Cons.IH [of c] once by (simp add: c_def fresh_notices_append)
qed

text \<open>C29. The user is told of a waiting request exactly once for as long as it waits: a snapshot gives notice of the
  requests whose fingerprint the snapshot before it did not list, and of nothing else, whatever else changed and
  however often the connection was lost and opened again in between.\<close>
theorem requests_are_announced_once:
  "app_notices (spawn_subscription parse attempts a) =
     app_notices a @ fresh_notices (app_announced a) (snapshots parse attempts)"
  by (rule subscription_notices)

section \<open>The tray decides the request it shows\<close>

lemma fingerprint_display_inject:
  "fingerprint_ok f \<Longrightarrow> fingerprint_ok g \<Longrightarrow> fingerprint_display f = fingerprint_display g \<longleftrightarrow> f = g"
  by (metis fingerprint_hex_def option.inject parse_fingerprint_hex)

lemma selects_display:
  assumes "fingerprint_ok f" and "fingerprint_ok g" and "host \<noteq> fingerprint_display f"
  shows "selects (fingerprint_display f) host g \<longleftrightarrow> g = f"
proof -
  have "starts_with (fingerprint_display g) (fingerprint_display f) \<longleftrightarrow> fingerprint_display g = fingerprint_display f"
  proof -
    have "length (fingerprint_display g) = length (fingerprint_display f)"
      using assms(1,2) by (simp add: length_fingerprint_display fingerprint_ok_def)
    then show ?thesis by (auto simp: starts_with_def strip_prefix_Some)
  qed
  then show ?thesis using assms by (auto simp: selects_def fingerprint_display_inject)
qed

lemma menu_items:
  "p \<in> set waiting \<Longrightarrow> MenuItem (ACCEPT_PREFIX @ pi_fingerprint p) (''Accept '' @ pi_host p) \<in> set (tray_menu waiting) \<and>
     MenuItem (REJECT_PREFIX @ pi_fingerprint p) (''Reject '' @ pi_host p) \<in> set (tray_menu waiting)"
  by (auto simp: tray_menu_def)

lemma menu_item_actions:
  "handle_menu_event (ACCEPT_PREFIX @ f) = Ask (ReqAccept f)" "handle_menu_event (REJECT_PREFIX @ f) = Ask (ReqReject f)"
  by (simp_all add: handle_menu_event_def ACCEPT_PREFIX_def REJECT_PREFIX_def strip_prefix_Some)

text \<open>C22. The tray answers the request it shows and no other.  For every request in the daemon's snapshot the menu has an
  entry to accept and one to reject it; whenever such an entry is chosen, and whatever has come and gone meanwhile,
  the daemon gives that answer to the oldest waiting request of the same fingerprint, and refuses when there is
  none left.\<close>
theorem tray_answers_the_request_it_shows:
  assumes "p \<in> set (ds_pending (sh_state sh))"
    and "\<forall>q\<in>set (ds_pending (sh_state sh')). fingerprint_ok (pending_fingerprint q) \<and>
      pending_host q \<noteq> fingerprint_display (pending_fingerprint p)"
    and "fingerprint_ok (pending_fingerprint p)"
  shows "\<exists>entry label req. MenuItem entry label \<in> set (tray_menu (st_pending (status env sh))) \<and>
    label = (if approve then ''Accept '' else ''Reject '') @ pending_host p \<and> handle_menu_event entry = Ask req \<and>
    (case remove_first (\<lambda>q. pending_fingerprint q = pending_fingerprint p) (ds_pending (sh_state sh')) of
       None \<Rightarrow> (\<exists>m. dispatch env' req sh' = (RespError m, sh'))
     | Some (q, rest) \<Rightarrow> \<exists>sh2. dispatch env' req sh' = (RespOk, sh2) \<and> ds_pending (sh_state sh2) = rest \<and>
         sh_decisions sh2 = (sh_decisions sh')(pending_decision q \<mapsto> approve))"
proof -
  let ?f = "fingerprint_display (pending_fingerprint p)"
  let ?i = "\<lparr> pi_host = pending_host p, pi_fingerprint = ?f \<rparr>"
  have shown: "?i \<in> set (st_pending (status env sh))" using assms(1) by (auto simp: status_def)
  have same: "remove_first (\<lambda>q. selects ?f (pending_host q) (pending_fingerprint q)) qs =
      remove_first (\<lambda>q. pending_fingerprint q = pending_fingerprint p) qs"
    if "set qs \<subseteq> set (ds_pending (sh_state sh'))" for qs
    using that
  proof (induction qs)
    case (Cons q qs)
    then have "selects ?f (pending_host q) (pending_fingerprint q) \<longleftrightarrow> pending_fingerprint q = pending_fingerprint p"
      using assms(2,3) by (intro selects_display) auto
    then show ?case using Cons by simp
  qed simp
  have "case remove_first (\<lambda>q. pending_fingerprint q = pending_fingerprint p) (ds_pending (sh_state sh')) of
       None \<Rightarrow> (\<exists>m. decide_pending ?f approve sh' = (RespError m, sh'))
     | Some (q, rest) \<Rightarrow> \<exists>sh2. decide_pending ?f approve sh' = (RespOk, sh2) \<and> ds_pending (sh_state sh2) = rest \<and>
         sh_decisions sh2 = (sh_decisions sh')(pending_decision q \<mapsto> approve)"
    by (simp add: decide_pending_def same notify_change_def split: option.split)
  then have "case remove_first (\<lambda>q. pending_fingerprint q = pending_fingerprint p) (ds_pending (sh_state sh')) of
       None \<Rightarrow> (\<exists>m. dispatch env' (if approve then ReqAccept ?f else ReqReject ?f) sh' = (RespError m, sh'))
     | Some (q, rest) \<Rightarrow> \<exists>sh2. dispatch env' (if approve then ReqAccept ?f else ReqReject ?f) sh' = (RespOk, sh2) \<and>
         ds_pending (sh_state sh2) = rest \<and> sh_decisions sh2 = (sh_decisions sh')(pending_decision q \<mapsto> approve)"
    by (cases approve) (simp_all only: if_True if_False dispatch.simps)
  moreover have "MenuItem ((if approve then ACCEPT_PREFIX else REJECT_PREFIX) @ ?f)
      ((if approve then ''Accept '' else ''Reject '') @ pending_host p) \<in> set (tray_menu (st_pending (status env sh)))"
    using menu_items [OF shown] by (cases approve) simp_all
  moreover have "handle_menu_event ((if approve then ACCEPT_PREFIX else REJECT_PREFIX) @ ?f) =
      Ask (if approve then ReqAccept ?f else ReqReject ?f)"
    by (simp add: menu_item_actions)
  ultimately show ?thesis by blast
qed

section \<open>One embedded daemon\<close>

text \<open>Everything that can happen to the supervisor while each request to stop is heard.\<close>
inductive supervised :: "supervisor \<Rightarrow> bool" where
  New: "supervised supervisor_new"
| Start: "supervised sv \<Longrightarrow> supervised (supervisor_start sv)"
| Returned: "supervised sv \<Longrightarrow> supervised (run_returned h sv)"
| Ended: "supervised sv \<Longrightarrow> supervised (thread_ended h sv)"
| Stop: "supervised sv \<Longrightarrow> supervised (snd (supervisor_stop (Inr ()) began rounds sv))"

definition alive :: "supervisor \<Rightarrow> nat set" where
  "alive sv = {h. h < length (sv_threads sv) \<and> sv_threads sv ! h \<noteq> Finished}"

definition inside_run :: "supervisor \<Rightarrow> nat set" where
  "inside_run sv = {h. h < length (sv_threads sv) \<and> sv_threads sv ! h = InRun}"

definition supervisor_inv :: "supervisor \<Rightarrow> bool" where
  "supervisor_inv sv \<longleftrightarrow> (\<forall>h\<in>alive sv. sv_slot sv = Some h) \<and>
     (\<forall>h. sv_slot sv = Some h \<longrightarrow> h < length (sv_threads sv)) \<and> sv_running sv = (inside_run sv \<noteq> {})"

lemma threads_only [simp]:
  "alive (sv \<lparr> sv_slot := x \<rparr>) = alive sv" "inside_run (sv \<lparr> sv_slot := x \<rparr>) = inside_run sv"
  "is_finished h (sv \<lparr> sv_slot := x \<rparr>) = is_finished h sv"
  by (simp_all add: alive_def inside_run_def is_finished_def)

lemma run_returned_simps [simp]:
  "alive (run_returned h sv) = alive sv" "inside_run (run_returned h sv) = inside_run sv - {h}"
  "sv_slot (run_returned h sv) = sv_slot sv" "length (sv_threads (run_returned h sv)) = length (sv_threads sv)"
  "sv_running (run_returned h sv) = (sv_running sv \<and> h \<notin> inside_run sv)"
proof -
  show "alive (run_returned h sv) = alive sv"
    by (auto simp: run_returned_def alive_def nth_list_update)
  show "inside_run (run_returned h sv) = inside_run sv - {h}"
    by (auto simp: run_returned_def inside_run_def nth_list_update)
qed (auto simp: run_returned_def inside_run_def)

lemma thread_ended_simps [simp]:
  "alive (thread_ended h sv) = alive sv - ({h} - inside_run sv)"
  "inside_run (thread_ended h sv) = inside_run sv"
  "sv_slot (thread_ended h sv) = sv_slot sv" "length (sv_threads (thread_ended h sv)) = length (sv_threads sv)"
  "sv_running (thread_ended h sv) = sv_running sv"
proof -
  have phases: "p = InRun \<or> p = Leaving \<or> p = Finished" for p by (cases p) simp_all
  show "alive (thread_ended h sv) = alive sv - ({h} - inside_run sv)"
    using phases [of "sv_threads sv ! h"] by (auto simp: thread_ended_def alive_def inside_run_def nth_list_update)
  show "inside_run (thread_ended h sv) = inside_run sv"
    by (auto simp: thread_ended_def inside_run_def nth_list_update)
qed (simp_all add: thread_ended_def)

lemma inside_run_alive: "inside_run sv \<subseteq> alive sv"
  by (auto simp: inside_run_def alive_def)

lemma inv_returned: "supervisor_inv sv \<Longrightarrow> supervisor_inv (run_returned h sv)"
proof -
  assume inv: "supervisor_inv sv"
  then have "inside_run sv \<subseteq> {h}" if "h \<in> inside_run sv"
    using that inside_run_alive [of sv] unfolding supervisor_inv_def by (metis insertI1 option.inject subsetI subsetD)
  then show "supervisor_inv (run_returned h sv)" using inv by (auto simp: supervisor_inv_def)
qed

lemma inv_ended: "supervisor_inv sv \<Longrightarrow> supervisor_inv (thread_ended h sv)"
  by (auto simp: supervisor_inv_def)

lemma spawned:
  "alive (sv \<lparr> sv_running := v, sv_threads := sv_threads sv @ [InRun]\<rparr>) = insert (length (sv_threads sv)) (alive sv)"
  "inside_run (sv \<lparr> sv_running := v, sv_threads := sv_threads sv @ [InRun]\<rparr>) = insert (length (sv_threads sv)) (inside_run sv)"
  by (auto simp: alive_def inside_run_def nth_append less_Suc_eq)

lemma supervisor_start_cases:
  "supervisor_start sv = (case sv_slot sv of
     Some h \<Rightarrow> if is_finished h sv then sv \<lparr> sv_running := True, sv_threads := sv_threads sv @ [InRun], sv_slot := Some (length (sv_threads sv)) \<rparr> else sv
   | None \<Rightarrow> sv \<lparr> sv_running := True, sv_threads := sv_threads sv @ [InRun], sv_slot := Some (length (sv_threads sv)) \<rparr>)"
  by (cases "sv_slot sv") (simp_all add: supervisor_start_def Let_def)

lemma inv_start:
  assumes inv: "supervisor_inv sv"
  shows "supervisor_inv (supervisor_start sv)"
proof -
  have none: "alive sv = {}" if "sv_slot sv = None \<or> (\<exists>h. sv_slot sv = Some h \<and> is_finished h sv)"
  proof (rule equals0I)
    fix k
    assume k: "k \<in> alive sv"
    then have "sv_slot sv = Some k" using inv by (simp add: supervisor_inv_def)
    then have "is_finished k sv" using that by simp
    then show False using k by (simp add: alive_def is_finished_def)
  qed
  show ?thesis
  proof (cases "sv_slot sv = None \<or> (\<exists>h. sv_slot sv = Some h \<and> is_finished h sv)")
    case True
    then have "supervisor_start sv = sv \<lparr> sv_running := True, sv_threads := sv_threads sv @ [InRun], sv_slot := Some (length (sv_threads sv)) \<rparr>"
      by (cases "sv_slot sv") (auto simp: supervisor_start_cases)
    then show ?thesis using none [OF True] by (simp add: supervisor_inv_def spawned)
  next
    case False
    then have "supervisor_start sv = sv" by (cases "sv_slot sv") (auto simp: supervisor_start_cases)
    then show ?thesis using inv by simp
  qed
qed

lemma await_thread_inv:
  assumes "await_thread deadline rounds h sv = (r, sv')" and "sv_slot sv = None" and "h < length (sv_threads sv)"
    and "alive sv \<subseteq> {h}" and "sv_running sv = (inside_run sv \<noteq> {})"
  shows "supervisor_inv sv' \<and> (r = Inr () \<longrightarrow> alive sv' = {} \<and> sv_slot sv' = None)"
  using assms
proof (induction deadline rounds h sv rule: await_thread.induct)
  case (1 deadline rounds h sv)
  have inv: "supervisor_inv (sv \<lparr> sv_slot := Some h \<rparr>)"
    using "1.prems" by (auto simp: supervisor_inv_def)
  show ?case
  proof (cases "is_finished h sv \<or> rounds = [] \<or> deadline \<le> fst (hd rounds)")
    case True
    have "alive sv = {}" if "is_finished h sv" using that "1.prems"(4) by (auto simp: alive_def is_finished_def)
    then show ?thesis using True inv "1.prems"
      by (auto simp: await_thread.simps [of deadline rounds h sv] supervisor_inv_def split: if_splits list.splits)
  next
    case False
    then obtain now phase rest where rounds: "rounds = (now, phase) # rest" "\<not> deadline \<le> now" by (cases rounds) auto
    define sv1 where "sv1 = (case phase of InRun \<Rightarrow> sv | Leaving \<Rightarrow> run_returned h sv | Finished \<Rightarrow> thread_ended h (run_returned h sv))"
    have step: "await_thread deadline rest h sv1 = (r, sv')"
      using "1.prems"(1) False rounds by (simp add: await_thread.simps [of deadline "(now, phase) # rest" h sv] sv1_def)
    have "sv_slot sv1 = None" "h < length (sv_threads sv1)"
      using "1.prems"(2,3) by (auto simp: sv1_def split: thread_phase.split)
    moreover have "alive sv1 \<subseteq> {h}" "sv_running sv1 = (inside_run sv1 \<noteq> {})"
      using "1.prems"(4,5) inside_run_alive [of sv] by (auto simp: sv1_def split: thread_phase.split)
    ultimately show ?thesis using "1.IH" [of "(now, phase)" rest now phase] False rounds step by (simp add: sv1_def)
  qed
qed

lemma supervisor_stop_inv:
  assumes "supervisor_inv sv" and "supervisor_stop (Inr ()) began rounds sv = (r, sv')"
  shows "supervisor_inv sv' \<and> (r = Inr () \<longrightarrow> alive sv' = {} \<and> sv_slot sv' = None)"
proof (cases "sv_slot sv")
  case None
  then have "alive sv = {}" using assms(1) by (auto simp: supervisor_inv_def)
  then show ?thesis using assms None by (simp add: supervisor_stop_def)
next
  case (Some h)
  have "alive sv \<subseteq> {h}" using assms(1) Some by (auto simp: supervisor_inv_def)
  then show ?thesis using assms Some
    by (intro await_thread_inv [of "began + STOP_TIMEOUT" rounds h "sv \<lparr> sv_slot := None \<rparr>"])
      (simp_all add: supervisor_stop_def supervisor_inv_def)
qed

lemma supervised_inv: "supervised sv \<Longrightarrow> supervisor_inv sv"
proof (induction rule: supervised.induct)
  case New
  then show ?case by (simp add: supervisor_inv_def supervisor_new_def alive_def inside_run_def)
next
  case (Stop sv began rounds)
  then show ?case using supervisor_stop_inv [of sv began rounds] by (metis prod.collapse)
qed (simp_all add: inv_start inv_returned inv_ended)

text \<open>C30. As long as each request to stop is heard, the application never runs two daemons at once: at most one thread
  of it has not finished, it is the one whose handle is kept, and the flag tells whether it is inside the daemon.  A
  stop that succeeds leaves no thread, so that the start after it begins a new one.\<close>
theorem one_embedded_daemon:
  assumes "supervised sv"
  shows "alive sv \<subseteq> set_option (sv_slot sv) \<and> is_embedded sv = (inside_run sv \<noteq> {}) \<and>
    (\<forall>began rounds sv'. supervisor_stop (Inr ()) began rounds sv = (Inr (), sv') \<longrightarrow>
       alive sv' = {} \<and> inside_run (supervisor_start sv') = {length (sv_threads sv')})"
proof -
  note inv = supervised_inv [OF assms]
  have "inside_run (supervisor_start sv') = {length (sv_threads sv')}"
    if "alive sv' = {}" "sv_slot sv' = None" for sv'
    using that inside_run_alive [of sv'] by (simp add: supervisor_start_cases spawned)
  then show ?thesis using inv supervisor_stop_inv [OF inv]
    by (auto simp: supervisor_inv_def is_embedded_def)
qed

lemma one_embedded_daemon_witness:
  "supervised (supervisor_start supervisor_new) \<and> alive (supervisor_start supervisor_new) \<subseteq> {0} \<and>
   is_embedded (supervisor_start supervisor_new)"
proof -
  have s: "supervised (supervisor_start supervisor_new)" by (intro supervised.intros)
  then show ?thesis using one_embedded_daemon [OF s]
    by (simp add: supervisor_start_cases supervisor_new_def is_embedded_def)
qed

text \<open>When the request to stop goes wrong, the handle of the running daemon is lost: the next start runs a second
  daemon beside the first, and as soon as the first ends, the application takes itself to have none, and quitting
  leaves the second to be cut off.\<close>
theorem failed_stop_starts_a_second_daemon:
  assumes "sv_slot sv = Some h" and "h \<in> inside_run sv"
  shows "let sv1 = supervisor_start (snd (supervisor_stop (Inl e) began rounds sv));
      h2 = length (sv_threads sv); sv2 = run_returned h sv1
    in {h, h2} \<subseteq> inside_run sv1 \<and> h \<noteq> h2 \<and> h2 \<in> inside_run sv2 \<and> \<not> is_embedded sv2 \<and>
       quit_app stopped began' rounds' sv2 = (False, sv2)"
proof -
  have h: "h < length (sv_threads sv)" using assms(2) by (simp add: inside_run_def)
  define sv1 where "sv1 = supervisor_start (snd (supervisor_stop (Inl e) began rounds sv))"
  have sv1: "sv1 = sv \<lparr> sv_slot := None, sv_running := True, sv_threads := sv_threads sv @ [InRun],
      sv_slot := Some (length (sv_threads sv)) \<rparr>"
    using assms(1) by (simp add: sv1_def supervisor_stop_def supervisor_start_cases)
  have run: "inside_run sv1 = insert (length (sv_threads sv)) (inside_run sv)" by (simp add: sv1 spawned)
  show ?thesis unfolding Let_def sv1_def [symmetric]
    using assms(2) h run by (auto simp: is_embedded_def quit_app_def)
qed

lemma failed_stop_starts_a_second_daemon_witness:
  "{0, 1} \<subseteq> inside_run (supervisor_start (snd (supervisor_stop (Inl ''the daemon did not answer: timed out'') 0 []
     (supervisor_start supervisor_new))))"
proof -
  define sv where "sv = supervisor_start supervisor_new"
  have "sv = \<lparr> sv_threads = [InRun], sv_slot = Some 0, sv_running = True \<rparr>"
    by (simp add: sv_def supervisor_start_cases supervisor_new_def)
  then have h: "sv_slot sv = Some 0" "0 \<in> inside_run sv" "length (sv_threads sv) = 1" by (simp_all add: inside_run_def)
  show ?thesis
    using failed_stop_starts_a_second_daemon [OF h(1,2), of "''the daemon did not answer: timed out''" 0 "[]" "Inr ()" 0 "[]"]
    unfolding sv_def [symmetric] h(3) Let_def by blast
qed

section \<open>The tail of the log\<close>

lemma text_lines_one: "newline \<notin> set line \<Longrightarrow> acc @ line \<noteq> [] \<Longrightarrow> text_lines acc line = [acc @ line]"
  by (induction line arbitrary: acc) auto

lemma trim_graphic: "list_all graphic line \<Longrightarrow> line \<noteq> [] \<Longrightarrow> trim line = line"
  using trim_blanks [of line 0 0] by (simp add: list_all_iff)

text \<open>The tail of a long log can begin inside a line, which is then shown as if it were one: the reading starts at a
  byte, and nothing drops what is left of the line it falls in.\<close>
theorem log_tail_can_begin_inside_a_line:
  assumes "newline \<notin> set line" and "list_all graphic line" and "LOG_TAIL_BYTES < length line"
  shows "\<exists>part. daemon_log (\<lambda>bytes. bytes) (Some (Inr line)) = Inr [part] \<and> part \<notin> set (text_lines [] line) \<and>
    length part = LOG_TAIL_BYTES"
proof -
  define part where "part = drop (length line - LOG_TAIL_BYTES) line"
  have len: "length part = LOG_TAIL_BYTES" using assms(3) by (simp add: part_def)
  have "part \<noteq> []" "line \<noteq> []" using len assms(3) by (auto simp: LOG_TAIL_BYTES_def)
  moreover have "newline \<notin> set part" "list_all graphic part"
    using assms(1,2) set_drop_subset [of "length line - LOG_TAIL_BYTES" line] by (auto simp: part_def list_all_iff)
  ultimately have "tail_lines part LOG_TAIL_LINES = [part]"
    using text_lines_one [of part "[]"] by (simp add: tail_lines_def trim_graphic LOG_TAIL_LINES_def)
  moreover have "part \<notin> set (text_lines [] line)"
    using text_lines_one [of line "[]"] assms(1,3) len \<open>line \<noteq> []\<close> by auto
  ultimately show ?thesis using assms(3) len by (auto simp: daemon_log_def part_def Let_def)
qed

lemma log_tail_can_begin_inside_a_line_witness:
  "\<exists>part. daemon_log (\<lambda>bytes. bytes) (Some (Inr (replicate 65537 CHR ''a''))) = Inr [part] \<and> length part = 65536"
proof -
  have "newline \<notin> set (replicate 65537 CHR ''a'')" "list_all graphic (replicate 65537 CHR ''a'')"
    "LOG_TAIL_BYTES < length (replicate 65537 CHR ''a'')"
    by (simp_all add: newline_def list_all_iff graphic_def LOG_TAIL_BYTES_def)
  from log_tail_can_begin_inside_a_line [OF this] show ?thesis by (auto simp: LOG_TAIL_BYTES_def)
qed

text \<open>A daemon that one request waits for.\<close>
definition demo_asked :: "mock_clipboard shared" where
  "demo_asked = demo_home \<lparr> sh_state := (sh_state demo_home) \<lparr> ds_pending :=
     [\<lparr> pending_host = ''mac'', pending_fingerprint = demo_fingerprint 2, pending_decision = 5 \<rparr>] \<rparr> \<rparr>"

lemma tray_answers_the_request_it_shows_witness:
  "\<exists>entry. MenuItem entry ''Accept mac'' \<in> set (tray_menu (st_pending (status (demo_env \<lparr> width = 1, height = 1 \<rparr>) demo_asked))) \<and>
     (\<exists>req sh2. handle_menu_event entry = Ask req \<and>
        dispatch (demo_env \<lparr> width = 1, height = 1 \<rparr>) req demo_asked = (RespOk, sh2) \<and> sh_decisions sh2 5 = Some True)"
proof -
  let ?p = "\<lparr> pending_host = ''mac'', pending_fingerprint = demo_fingerprint 2, pending_decision = 5 \<rparr>"
  have pend: "ds_pending (sh_state demo_asked) = [?p]" by (simp add: demo_asked_def)
  have ok: "fingerprint_ok (demo_fingerprint 2)" by (rule demo_fingerprint_ok)
  have host: "''mac'' \<noteq> fingerprint_display (demo_fingerprint 2)"
    using ok by (auto simp: fingerprint_ok_def dest!: arg_cong [where f = length] simp: length_fingerprint_display)
  have "?p \<in> set (ds_pending (sh_state demo_asked))"
    "\<forall>q\<in>set (ds_pending (sh_state demo_asked)). fingerprint_ok (pending_fingerprint q) \<and>
      pending_host q \<noteq> fingerprint_display (pending_fingerprint ?p)"
    "fingerprint_ok (pending_fingerprint ?p)"
    by (simp_all add: pend ok host)
  from tray_answers_the_request_it_shows [OF this, of "demo_env \<lparr> width = 1, height = 1 \<rparr>" True
      "demo_env \<lparr> width = 1, height = 1 \<rparr>"]
  show ?thesis by (auto simp: pend)
qed

end
