(* ===== verification/AppShell.thy ===== *)
theory AppShell
  imports Desktop
begin

text \<open>
  The desktop application as a process (\<^verbatim>\<open>lib.rs\<close>, \<^verbatim>\<open>tray.rs\<close>): its start, its one window, the clicks on its tray,
  and how it ends.  Windows and the tray icon are tauri's; what it does with them is here as the fields it changes.
\<close>

section \<open>Waiting for the daemon's answer\<close>

definition READ_TIMEOUT :: real where "READ_TIMEOUT = 5"

text \<open>The deadline of each read, where the platform has one; \<open>set_works\<close>: whether it could be set.\<close>
definition read_deadline :: "bool \<Rightarrow> bool \<Rightarrow> real option" where
  "read_deadline unix set_works = (if unix \<and> set_works then Some READ_TIMEOUT else None)"

definition late :: "real option \<Rightarrow> real \<Rightarrow> bool" where
  "late deadline wait = (case deadline of Some d \<Rightarrow> d \<le> wait | None \<Rightarrow> False)"

definition line_text :: "(string \<Rightarrow> bool) \<Rightarrow> string \<Rightarrow> string + string" where
  "line_text utf8 line = (if utf8 line then Inr line else Inl ''stream did not contain valid UTF-8'')"

text \<open>Reading a line.  Each read gives bytes after a wait, no bytes at the end of the stream; with no more reads to
  come the other side holds the connection open and says nothing.  The value is the line or the error with the
  seconds it took, and nothing when the read never returns.\<close>
fun read_line_within ::
  "real option \<Rightarrow> string \<Rightarrow> (string \<Rightarrow> bool) \<Rightarrow> (real \<times> string) list \<Rightarrow> string \<Rightarrow> ((string + string) \<times> real) option" where
  "read_line_within deadline timed_out utf8 [] line = map_option (\<lambda>d. (Inl timed_out, d)) deadline"
| "read_line_within deadline timed_out utf8 ((wait, bytes) # reads) line =
     (if late deadline wait then map_option (\<lambda>d. (Inl timed_out, d)) deadline
      else if bytes = [] then Some (line_text utf8 line, wait)
      else if newline \<in> set bytes then Some (line_text utf8 (line @ fst (take_line bytes)), wait)
      else map_option (\<lambda>(r, t). (r, wait + t)) (read_line_within deadline timed_out utf8 reads (line @ bytes)))"

text \<open>One request of the window; \<open>read\<close> is reading the line from the channel.\<close>
definition window_request ::
  "('w \<Rightarrow> ((string + string) \<times> real) option) \<Rightarrow> 'w client_link \<Rightarrow> request \<Rightarrow> 'w \<Rightarrow> ((string + response) \<times> 'w) option" where
  "window_request read c req w =
     (case cl_paths c of
        Some e \<Rightarrow> Some (Inl e, w)
      | None \<Rightarrow>
          if \<not> cl_connects c w then Some (Inl app_not_running, w)
          else case cl_encode c req of
              Inl e \<Rightarrow> Some (Inl e, w)
            | Inr line \<Rightarrow>
                (case cl_write c (line @ [newline]) w of
                   (Inl e, w) \<Rightarrow> Some (Inl (''could not reach the daemon: '' @ e), w)
                 | (Inr _, w) \<Rightarrow>
                     (case read w of
                        None \<Rightarrow> None
                      | Some (Inl e, t) \<Rightarrow> Some (Inl (''the daemon did not answer: '' @ e), w)
                      | Some (Inr reply, t) \<Rightarrow> Some (read_reply_line (cl_decode c) reply, w))))"

text \<open>With a deadline a read ends, and the daemon is waited for no longer than the deadline after its last
  byte.\<close>
lemma read_line_returns:
  assumes "0 < d" and "\<forall>r \<in> set reads. 0 \<le> fst r"
  shows "\<exists>r t. read_line_within (Some d) timed_out utf8 reads line = Some (r, t) \<and>
    t \<le> sum_list (map fst (takeWhile (\<lambda>r. fst r < d) reads)) + d"
  using assms(2)
proof (induction reads arbitrary: line)
  case (Cons x reads)
  obtain wait bytes where x: "x = (wait, bytes)" by (cases x)
  have rest: "0 \<le> sum_list (map fst (takeWhile (\<lambda>r. fst r < d) reads))"
    using Cons.prems by (intro sum_list_nonneg) (auto dest: set_takeWhileD)
  obtain r t where "read_line_within (Some d) timed_out utf8 reads (line @ bytes) = Some (r, t)"
    "t \<le> sum_list (map fst (takeWhile (\<lambda>r. fst r < d) reads)) + d"
    using Cons.IH [of "line @ bytes"] Cons.prems by auto
  then show ?case using rest assms(1) by (auto simp: x late_def)
qed simp

text \<open>The window and the tool ask alike: where the read returns, a request of the window is that of the tool but for
  the text it has for a daemon that is not there.\<close>
lemma window_request_is_ask:
  assumes "\<And>w. read w = Some (r w, t w)"
  shows "window_request read c req w = Some (ask app_not_running (c \<lparr> cl_read_line := \<lambda>w. (r w, w) \<rparr>) req w)"
  by (auto simp: window_request_def ask_def assms split: option.split sum.split prod.split)

lemma window_request_returns:
  assumes "\<forall>w. \<exists>r t. read w = Some (r, t)"
  shows "\<exists>r. window_request read c req w = Some r"
proof -
  have "read w = Some (fst (the (read w)), snd (the (read w)))" for w
    using spec [OF assms, of w] by fastforce
  from window_request_is_ask [where read = read, OF this] show ?thesis by blast
qed

text \<open>On Unix no command of the window hangs on a daemon that accepted the connection and stopped responding: each
  request returns, with the error that the daemon did not answer if nothing was read, five seconds after
  the last byte at the latest.  Where there is no deadline a request to a silent daemon never returns.\<close>
theorem window_never_hangs:
  assumes "\<And>w. \<forall>r \<in> set (reads w). 0 \<le> fst r"
  shows "\<exists>r. window_request (\<lambda>w. read_line_within (read_deadline True True) timed_out utf8 (reads w) []) c req w = Some r"
    and "cl_paths c = None \<Longrightarrow> cl_connects c w \<Longrightarrow> cl_encode c req = Inr text \<Longrightarrow>
      cl_write c (text @ [newline]) w = (Inr (), w') \<Longrightarrow> reads w' = [] \<Longrightarrow>
      window_request (\<lambda>w. read_line_within (read_deadline True True) timed_out utf8 (reads w) []) c req w =
        Some (Inl (''the daemon did not answer: '' @ timed_out), w') \<and>
      window_request (\<lambda>w. read_line_within (read_deadline False works) timed_out utf8 (reads w) []) c req w = None"
proof -
  have "\<forall>w. \<exists>r t. read_line_within (read_deadline True True) timed_out utf8 (reads w) [] = Some (r, t)"
    using read_line_returns [of READ_TIMEOUT] assms by (fastforce simp: read_deadline_def READ_TIMEOUT_def)
  then show "\<exists>r. window_request (\<lambda>w. read_line_within (read_deadline True True) timed_out utf8 (reads w) []) c req w = Some r"
    by (intro window_request_returns) auto
qed (simp add: window_request_def read_deadline_def)

section \<open>State\<close>

record shell =
  sl_window :: bool
  sl_visible :: bool
  sl_minimized :: bool
  sl_focused :: bool
  sl_exited :: bool
  sl_app :: app
  sl_supervisor :: supervisor

text \<open>\<open>built\<close>: whether tauri builds the icon with its menu.\<close>
definition tray_create :: "bool \<Rightarrow> app \<Rightarrow> app option" where
  "tray_create built a = (if built then Some (a \<lparr> app_tray := Some (tray_menu [], ''Omnipresent'') \<rparr>) else None)"

text \<open>The setup; an error of it ends the process with a panic.\<close>
definition app_setup :: "bool \<Rightarrow> bool \<Rightarrow> shell option" where
  "app_setup built menu_builds =
     (case tray_create built \<lparr> app_announced = {}, app_tray = None, app_menu_builds = menu_builds, app_notices = [],
        app_emitted = [] \<rparr> of
        None \<Rightarrow> None
      | Some a \<Rightarrow> Some \<lparr> sl_window = True, sl_visible = True, sl_minimized = False, sl_focused = True, sl_exited = False,
          sl_app = a, sl_supervisor = supervisor_start supervisor_new \<rparr>)"

section \<open>The window and the tray\<close>

datatype window_event = CloseRequested | OtherWindowEvent

text \<open>Whether closing is prevented, and the state after; \<open>hid\<close>: whether the window could be hidden.\<close>
definition on_window_event :: "bool \<Rightarrow> window_event \<Rightarrow> shell \<Rightarrow> bool \<times> shell" where
  "on_window_event hid ev s = (case ev of
      CloseRequested \<Rightarrow> (True, if hid then s \<lparr> sl_visible := False \<rparr> else s)
    | OtherWindowEvent \<Rightarrow> (False, s))"

text \<open>What tauri then does: a window whose closing nobody prevents is gone, and the process with its last one.\<close>
definition window_closes :: "bool \<Rightarrow> window_event \<Rightarrow> shell \<Rightarrow> shell" where
  "window_closes hid ev s =
     (let (prevented, s) = on_window_event hid ev s
      in if ev = CloseRequested \<and> \<not> prevented then s \<lparr> sl_window := False, sl_exited := True \<rparr> else s)"

text \<open>The three calls can each fail, which is ignored.\<close>
definition show_window :: "bool \<times> bool \<times> bool \<Rightarrow> shell \<Rightarrow> shell" where
  "show_window granted s =
     (case granted of (shown, restored, focused) \<Rightarrow>
        if sl_window s
        then s \<lparr> sl_visible := sl_visible s \<or> shown, sl_minimized := sl_minimized s \<and> \<not> restored,
               sl_focused := sl_focused s \<or> focused \<rparr>
        else s)"

datatype mouse_click = LeftUp | LeftDown | OtherClick

definition on_tray_icon_event :: "bool \<times> bool \<times> bool \<Rightarrow> mouse_click \<Rightarrow> shell \<Rightarrow> shell" where
  "on_tray_icon_event granted click s = (if click = LeftUp then show_window granted s else s)"

text \<open>An entry chosen from the menu; a request for the daemon changes nothing here.\<close>
definition choose_entry ::
  "bool \<times> bool \<times> bool \<Rightarrow> string + unit \<Rightarrow> real \<Rightarrow> (real \<times> thread_phase) list \<Rightarrow> string \<Rightarrow> shell \<Rightarrow> shell" where
  "choose_entry granted stopped began rounds entry s = (case handle_menu_event entry of
      ShowWindow \<Rightarrow> show_window granted s
    | Quit \<Rightarrow> s \<lparr> sl_supervisor := snd (quit_app stopped began rounds (sl_supervisor s)), sl_exited := True \<rparr>
    | _ \<Rightarrow> s)"

section \<open>A run of the application\<close>

text \<open>What can happen while the application runs and each request to stop its daemon is heard: to the window and
  the tray, a snapshot of the daemon, a command of the window to the supervisor, and the daemon's thread.  That the
  system ends the process, by a signal or a menu of its own, is not among it.\<close>
inductive shell_step :: "shell \<Rightarrow> shell \<Rightarrow> bool" where
  Window: "\<not> sl_exited s \<Longrightarrow> shell_step s (window_closes hid ev s)"
| Tray: "\<not> sl_exited s \<Longrightarrow> shell_step s (on_tray_icon_event granted click s)"
| Chosen: "\<not> sl_exited s \<Longrightarrow> shell_step s (choose_entry granted (Inr ()) began rounds entry s)"
| Minimized: "\<not> sl_exited s \<Longrightarrow> shell_step s (s \<lparr> sl_minimized := True, sl_focused := False \<rparr>)"
| Snapshot: "\<not> sl_exited s \<Longrightarrow> shell_step s (s \<lparr> sl_app := take_snapshot st (sl_app s) \<rparr>)"
| Starts: "\<not> sl_exited s \<Longrightarrow> shell_step s (s \<lparr> sl_supervisor := supervisor_start (sl_supervisor s) \<rparr>)"
| Stops: "\<not> sl_exited s \<Longrightarrow>
    shell_step s (s \<lparr> sl_supervisor := snd (supervisor_stop (Inr ()) began rounds (sl_supervisor s)) \<rparr>)"
| Returns: "\<not> sl_exited s \<Longrightarrow> shell_step s (s \<lparr> sl_supervisor := run_returned h (sl_supervisor s) \<rparr>)"
| Ends: "\<not> sl_exited s \<Longrightarrow> shell_step s (s \<lparr> sl_supervisor := thread_ended h (sl_supervisor s) \<rparr>)"

inductive shell_reachable :: "shell \<Rightarrow> bool" where
  SetUp: "app_setup built menu_builds = Some s \<Longrightarrow> shell_reachable s"
| Goes: "shell_reachable s \<Longrightarrow> shell_step s s' \<Longrightarrow> shell_reachable s'"

definition shell_ok :: "shell \<Rightarrow> bool" where
  "shell_ok s \<longleftrightarrow> sl_window s \<and> app_tray (sl_app s) \<noteq> None \<and> supervised (sl_supervisor s)"

lemma tray_stays: "app_tray a \<noteq> None \<Longrightarrow> app_tray (take_snapshot st a) \<noteq> None"
  by (auto simp: take_snapshot_def emit_app_def announce_new_requests_def tray_sync_def split: prod.split option.split)

lemma show_window_fields [simp]:
  "sl_window (show_window g s) = sl_window s" "sl_app (show_window g s) = sl_app s"
  "sl_supervisor (show_window g s) = sl_supervisor s" "sl_exited (show_window g s) = sl_exited s"
  by (simp_all add: show_window_def split: prod.split)

lemma supervised_quit: "supervised sv \<Longrightarrow> supervised (snd (quit_app (Inr ()) began rounds sv))"
  by (simp add: quit_app_def supervised.Stop)

lemma shell_ok_step:
  assumes "shell_step s s'" "shell_ok s"
  shows "shell_ok s'"
  using assms
proof cases
  case (Window hid ev)
  then show ?thesis using assms(2)
    by (auto simp: shell_ok_def window_closes_def on_window_event_def split: window_event.split)
next
  case (Chosen granted began rounds entry)
  then show ?thesis using assms(2)
    by (auto simp: shell_ok_def choose_entry_def supervised_quit split: menu_action.split)
qed (auto simp: shell_ok_def on_tray_icon_event_def tray_stays intro: supervised.intros)

lemma shell_reachable_ok: "shell_reachable s \<Longrightarrow> shell_ok s"
proof (induction rule: shell_reachable.induct)
  case (SetUp built menu_builds s)
  have "supervised (supervisor_start supervisor_new)" by (intro supervised.Start supervised.New)
  then show ?case using SetUp by (auto simp: app_setup_def tray_create_def shell_ok_def split: if_splits)
next
  case (Goes s s')
  then show ?case using shell_ok_step by blast
qed

lemma quit_entry: "handle_menu_event entry = Quit \<longleftrightarrow> entry = ''quit''"
  by (auto simp: handle_menu_event_def ACCEPT_PREFIX_def REJECT_PREFIX_def split: option.split if_splits)



end
