(* ===== verification/LocalState.thy ===== *)
theory LocalState
  imports Client
begin

text \<open>
  What the daemon keeps for itself in its state directory and how it is reached: the identity
  (\<^verbatim>\<open>omni-security/src/identity.rs\<close>, \<^verbatim>\<open>omni-runtime/src/identity.rs\<close>), the file of its private key
  (\<^verbatim>\<open>secure.rs\<close>), the names of its files (\<^verbatim>\<open>config.rs\<close>), and the local channel (\<^verbatim>\<open>ipc_transport.rs\<close>,
  \<^verbatim>\<open>pipe_security.rs\<close>).  SHA-256 and the generation of certificates are libraries, hence arguments.
\<close>

unbundle bit_operations_syntax

section \<open>Names\<close>

text \<open>The directory, with the separator the platform joins paths with.\<close>
record paths =
  paths_dir :: string
  paths_separator :: string

definition join_path :: "paths \<Rightarrow> string \<Rightarrow> string" where
  "join_path p name = paths_dir p @ paths_separator p @ name"

text \<open>\<^verbatim>\<open>OMNI_CONFIG_DIR\<close> if it is set, otherwise a directory of the platform's configuration directory.\<close>
definition paths_resolve :: "string option \<Rightarrow> string option \<Rightarrow> string \<Rightarrow> config_error + paths" where
  "paths_resolve env_dir config_dir sep = (case env_dir of
      Some dir \<Rightarrow> Inr \<lparr> paths_dir = dir, paths_separator = sep \<rparr>
    | None \<Rightarrow> (case config_dir of
        None \<Rightarrow> Inl NoConfigDir
      | Some base \<Rightarrow> Inr \<lparr> paths_dir = base @ sep @ ''omni'', paths_separator = sep \<rparr>))"

definition config_path :: "paths \<Rightarrow> string" where "config_path p = join_path p ''config.json''"
definition certificate_file :: "paths \<Rightarrow> string" where "certificate_file p = join_path p ''identity.crt''"
definition key_file :: "paths \<Rightarrow> string" where "key_file p = join_path p ''identity.key''"
definition trust_path :: "paths \<Rightarrow> string" where "trust_path p = join_path p ''trust.json''"
definition socket_file :: "paths \<Rightarrow> string" where "socket_file p = join_path p ''daemon.sock''"
definition log_path :: "paths \<Rightarrow> string" where "log_path p = join_path p ''daemon.log''"

definition pipe_name :: "(string \<Rightarrow> u8 list) \<Rightarrow> paths \<Rightarrow> string" where
  "pipe_name sha256 p = [CHR 0x5C, CHR 0x5C, CHR ''.'', CHR 0x5C] @ ''pipe'' @ [CHR 0x5C] @ ''omni-'' @
     concat (map hex_byte (take 8 (sha256 (paths_dir p))))"

section \<open>Files and their permissions\<close>

text \<open>A file on Unix: its permission bits and its bytes.\<close>
record unix_file =
  file_mode :: u32
  file_bytes :: "u8 list"

type_synonym unix_files = "string \<rightharpoonup> unix_file"

text \<open>What the file system refuses: reading a path, opening one to write, and how far a write gets that fails.\<close>
record disk =
  disk_unreadable :: "string \<Rightarrow> string option"
  disk_unwritable :: "string \<Rightarrow> string option"
  disk_full :: "string \<Rightarrow> (nat \<times> string) option"
  disk_umask :: u32

datatype read_error = ReadNotFound | ReadFailed string

definition read_file :: "disk \<Rightarrow> string \<Rightarrow> unix_files \<Rightarrow> read_error + u8 list" where
  "read_file d path fs = (case fs path of
      None \<Rightarrow> Inl ReadNotFound
    | Some f \<Rightarrow> (case disk_unreadable d path of Some e \<Rightarrow> Inl (ReadFailed e) | None \<Rightarrow> Inr (file_bytes f)))"

text \<open>Opening to write empties the file; the mode asked for counts only when the file is made, less the bits of
  the process's mask.\<close>
definition open_to_write :: "disk \<Rightarrow> u32 \<Rightarrow> string \<Rightarrow> unix_files \<Rightarrow> (string + unit) \<times> unix_files" where
  "open_to_write d mode path fs = (case disk_unwritable d path of
      Some e \<Rightarrow> (Inl e, fs)
    | None \<Rightarrow> (Inr (), fs(path \<mapsto> (case fs path of
          Some f \<Rightarrow> f \<lparr> file_bytes := [] \<rparr>
        | None \<Rightarrow> \<lparr> file_mode = mode AND NOT (disk_umask d), file_bytes = [] \<rparr>))))"

definition write_all :: "disk \<Rightarrow> string \<Rightarrow> u8 list \<Rightarrow> unix_files \<Rightarrow> (string + unit) \<times> unix_files" where
  "write_all d path bytes fs =
     (case disk_full d path of
        None \<Rightarrow> (Inr (), fs(path := map_option (\<lambda>f. f \<lparr> file_bytes := file_bytes f @ bytes \<rparr>) (fs path)))
      | Some (n, e) \<Rightarrow> (Inl e, fs(path := map_option (\<lambda>f. f \<lparr> file_bytes := file_bytes f @ take n bytes \<rparr>) (fs path))))"

definition write_with :: "u32 \<Rightarrow> disk \<Rightarrow> string \<Rightarrow> u8 list \<Rightarrow> unix_files \<Rightarrow> (string + unit) \<times> unix_files" where
  "write_with mode d path bytes fs = (case open_to_write d mode path fs of
      (Inl e, fs) \<Rightarrow> (Inl e, fs) | (Inr _, fs) \<Rightarrow> write_all d path bytes fs)"

text \<open>\<^verbatim>\<open>std::fs::write\<close> asks for \<^verbatim>\<open>0o666\<close>, \<^verbatim>\<open>write_private\<close> for \<^verbatim>\<open>0o600\<close>.\<close>
definition fs_write :: "disk \<Rightarrow> string \<Rightarrow> u8 list \<Rightarrow> unix_files \<Rightarrow> (string + unit) \<times> unix_files" where
  "fs_write = write_with 438"

definition write_private :: "disk \<Rightarrow> string \<Rightarrow> u8 list \<Rightarrow> unix_files \<Rightarrow> (string + unit) \<times> unix_files" where
  "write_private = write_with 384"

text \<open>The same on Windows, where a file is open to its owner alone once its list was reset: the states the file
  goes through.  \<open>user\<close> is the variable \<^verbatim>\<open>USERNAME\<close>, \<open>icacls\<close> whether the program works.\<close>
definition write_private_windows ::
  "string option \<Rightarrow> bool \<Rightarrow> u8 list \<Rightarrow> (bool \<times> u8 list) option \<Rightarrow> (bool \<times> u8 list) list" where
  "write_private_windows user icacls bytes before =
     (let private = (case before of Some (p, _) \<Rightarrow> p | None \<Rightarrow> False);
          restricted = (case user of None \<Rightarrow> private | Some u \<Rightarrow> if u = [] then private else private \<or> icacls)
      in [(private, []), (restricted, []), (restricted, bytes)])"

section \<open>The identity\<close>

record local_identity =
  certificate_der :: "u8 list"
  private_key_der :: "u8 list"
  identity_fingerprint :: fingerprint

definition fingerprint_of :: "(u8 list \<Rightarrow> u8 list) \<Rightarrow> u8 list \<Rightarrow> fingerprint" where
  "fingerprint_of sha256 certificate = Fingerprint (sha256 certificate)"

text \<open>\<open>rcgen\<close> makes a certificate and its key for a name.\<close>
definition generate_identity ::
  "(u8 list \<Rightarrow> u8 list) \<Rightarrow> (string \<Rightarrow> string + u8 list \<times> u8 list) \<Rightarrow> string \<Rightarrow> string + local_identity" where
  "generate_identity sha256 rcgen common_name = (case rcgen common_name of
      Inl e \<Rightarrow> Inl (''could not generate identity: '' @ e)
    | Inr (cert, key) \<Rightarrow> Inr \<lparr> certificate_der = cert, private_key_der = key,
        identity_fingerprint = fingerprint_of sha256 cert \<rparr>)"

text \<open>\<open>output\<close> is what the program \<^verbatim>\<open>hostname\<close> prints, when it runs and prints UTF-8.\<close>
definition hostname :: "string option \<Rightarrow> string" where
  "hostname output = (case output of
      None \<Rightarrow> ''omni'' | Some s \<Rightarrow> if trim s = [] then ''omni'' else trim s)"

definition load_or_generate ::
  "(u8 list \<Rightarrow> u8 list) \<Rightarrow> (string \<Rightarrow> string + u8 list \<times> u8 list) \<Rightarrow> string option \<Rightarrow> disk \<Rightarrow> paths \<Rightarrow> unix_files \<Rightarrow>
   (string + local_identity) \<times> unix_files" where
  "load_or_generate sha256 rcgen output d p fs =
     (case (read_file d (certificate_file p) fs, read_file d (key_file p) fs) of
        (Inr cert, Inr key) \<Rightarrow>
          (Inr \<lparr> certificate_der = cert, private_key_der = key, identity_fingerprint = fingerprint_of sha256 cert \<rparr>, fs)
      | (Inl (ReadFailed e), _) \<Rightarrow> (Inl e, fs)
      | (_, Inl (ReadFailed e)) \<Rightarrow> (Inl e, fs)
      | _ \<Rightarrow>
          (case generate_identity sha256 rcgen (hostname output) of
             Inl e \<Rightarrow> (Inl e, fs)
           | Inr made \<Rightarrow>
               (case fs_write d (certificate_file p) (certificate_der made) fs of
                  (Inl e, fs) \<Rightarrow> (Inl e, fs)
                | (Inr _, fs) \<Rightarrow>
                    (case write_private d (key_file p) (private_key_der made) fs of
                       (Inl e, fs) \<Rightarrow> (Inl e, fs)
                     | (Inr _, fs) \<Rightarrow> (Inr made, fs)))))"

section \<open>The local channel\<close>

text \<open>The sockets of a Unix machine: which listener a path leads to, with its permissions.\<close>
record sockets =
  so_at :: "string \<rightharpoonup> nat \<times> u32"
  so_next :: nat

text \<open>\<open>IpcListener::bind\<close>: whatever is at the path goes first.  The arguments are the error of \<^verbatim>\<open>bind\<close> and
  whether setting the permissions works, which nobody looks at.\<close>
definition ipc_bind :: "string option \<Rightarrow> bool \<Rightarrow> u32 \<Rightarrow> paths \<Rightarrow> sockets \<Rightarrow> (string + nat) \<times> sockets" where
  "ipc_bind refused chmod_works umask p s =
     (let s = s \<lparr> so_at := (so_at s)(socket_file p := None) \<rparr> in
      case refused of
        Some e \<Rightarrow> (Inl e, s)
      | None \<Rightarrow> (Inr (so_next s), s \<lparr> so_next := Suc (so_next s),
          so_at := (so_at s)(socket_file p \<mapsto> (so_next s, if chmod_works then 384 else 511 AND NOT umask)) \<rparr>))"

text \<open>The end of a listener: its path goes, whoever it leads to by then.\<close>
definition ipc_drop :: "paths \<Rightarrow> sockets \<Rightarrow> sockets" where
  "ipc_drop p s = s \<lparr> so_at := (so_at s)(socket_file p := None) \<rparr>"

definition ipc_connect :: "nat set \<Rightarrow> paths \<Rightarrow> sockets \<Rightarrow> nat option" where
  "ipc_connect listening p s = (case so_at s (socket_file p) of
      Some (l, mode) \<Rightarrow> if l \<in> listening then Some l else None | None \<Rightarrow> None)"

text \<open>The client of the Windows pipe: what opening it gives, with the clock read after a failure.\<close>
datatype open_result = Opened | OpenFailed "int option" string

definition is_busy :: "int option \<Rightarrow> bool" where
  "is_busy code \<longleftrightarrow> code = Some 231"

definition CONNECT_TIMEOUT :: real where "CONNECT_TIMEOUT = 2"
definition CONNECT_RETRY_DELAY :: real where "CONNECT_RETRY_DELAY = 20 / 1000"

fun connect_pipe :: "real \<Rightarrow> (real \<times> open_result) list \<Rightarrow> (string + unit) option" where
  "connect_pipe deadline [] = None"
| "connect_pipe deadline ((now, r) # rounds) = (case r of
      Opened \<Rightarrow> Some (Inr ())
    | OpenFailed code e \<Rightarrow>
        if is_busy code \<and> now < deadline then connect_pipe deadline rounds else Some (Inl e))"

text \<open>The description of the access to a pipe, and what building it can fail at: naming the user, and the system's
  parser.\<close>
definition owner_only :: "string + string \<Rightarrow> (string \<Rightarrow> string + 'd) \<Rightarrow> string + 'd" where
  "owner_only user parse_sddl = (case user of
      Inl e \<Rightarrow> Inl e | Inr sid \<Rightarrow> parse_sddl (''D:P(A;;GA;;;'' @ sid @ '')''))"

section \<open>Properties of the identity\<close>

lemma paths_differ [simp]: "certificate_file p \<noteq> key_file p" "key_file p \<noteq> certificate_file p"
  by (simp_all add: certificate_file_def key_file_def join_path_def)

lemma write_with_elsewhere: "q \<noteq> path \<Longrightarrow> snd (write_with mode d path bytes fs) q = fs q"
  by (simp add: write_with_def open_to_write_def write_all_def split: option.split)

lemma write_with_ok:
  "write_with mode d path bytes fs = (Inr (), fs') \<Longrightarrow>
     fs' path = Some \<lparr> file_mode = (case fs path of Some f \<Rightarrow> file_mode f | None \<Rightarrow> mode AND NOT (disk_umask d)),
       file_bytes = bytes \<rparr>"
  by (auto simp: write_with_def open_to_write_def write_all_def split: option.splits prod.splits)

lemma write_with_mode:
  "write_with mode d path bytes fs = (r, fs') \<Longrightarrow> fs path = None \<Longrightarrow> fs' path = Some f \<Longrightarrow>
     file_mode f = mode AND NOT (disk_umask d)"
  by (auto simp: write_with_def open_to_write_def write_all_def split: option.splits prod.splits)

lemma load_or_generate_cases:
  assumes "load_or_generate sha256 rcgen output d p fs = (r, fs')"
  obtains (kept) "fs' = fs" "\<forall>idn. r = Inr idn \<longrightarrow> (\<exists>cert key. read_file d (certificate_file p) fs = Inr cert \<and>
        read_file d (key_file p) fs = Inr key \<and> idn = \<lparr> certificate_der = cert, private_key_der = key,
          identity_fingerprint = fingerprint_of sha256 cert \<rparr>)"
    | (made) cert key r1 fs1 where "rcgen (hostname output) = Inr (cert, key)"
        "fs (certificate_file p) = None \<or> fs (key_file p) = None"
        "fs_write d (certificate_file p) cert fs = (r1, fs1)"
        "(\<exists>e. r1 = Inl e \<and> r = Inl e \<and> fs' = fs1) \<or>
         (r1 = Inr () \<and> (\<exists>r2. write_private d (key_file p) key fs1 = (r2, fs') \<and>
            ((\<exists>e. r2 = Inl e \<and> r = Inl e) \<or> (r2 = Inr () \<and> r = Inr \<lparr> certificate_der = cert, private_key_der = key,
              identity_fingerprint = fingerprint_of sha256 cert \<rparr>))))"
proof -
  let ?cert = "read_file d (certificate_file p) fs" and ?key = "read_file d (key_file p) fs"
  let ?loaded = "fs' = fs \<and> (\<forall>idn. r = Inr idn \<longrightarrow> (\<exists>cert key. ?cert = Inr cert \<and> ?key = Inr key \<and>
      idn = \<lparr> certificate_der = cert, private_key_der = key, identity_fingerprint = fingerprint_of sha256 cert \<rparr>))"
  show ?thesis
  proof (cases "\<exists>cert key. rcgen (hostname output) = Inr (cert, key)")
    case False
    then have ?loaded using assms
      by (cases "rcgen (hostname output)")
        (auto simp: load_or_generate_def generate_identity_def split: sum.splits read_error.splits)
    then show ?thesis using kept by blast
  next
    case True
    then obtain cert key where g: "rcgen (hostname output) = Inr (cert, key)" by blast
    consider ?loaded | "?cert = Inl ReadNotFound \<or> ?key = Inl ReadNotFound" "\<forall>e. ?cert \<noteq> Inl (ReadFailed e)"
        "\<forall>e. ?key \<noteq> Inl (ReadFailed e)"
      using assms by (auto simp: load_or_generate_def split: sum.splits read_error.splits)
    then show ?thesis
    proof cases
      case 1
      then show ?thesis using kept by blast
    next
      case 2
      have missing: "fs (certificate_file p) = None \<or> fs (key_file p) = None"
        using 2(1) by (auto simp: read_file_def split: option.splits)
      obtain r1 fs1 where w: "fs_write d (certificate_file p) cert fs = (r1, fs1)" by fastforce
      obtain r2 fs2 where v: "write_private d (key_file p) key fs1 = (r2, fs2)" by fastforce
      have "load_or_generate sha256 rcgen output d p fs = (case r1 of Inl e \<Rightarrow> (Inl e, fs1)
          | Inr _ \<Rightarrow> (case r2 of Inl e \<Rightarrow> Inl e | Inr _ \<Rightarrow> Inr \<lparr> certificate_der = cert, private_key_der = key,
              identity_fingerprint = fingerprint_of sha256 cert \<rparr>, fs2))"
        using 2 g w v
        by (cases ?cert; cases ?key) (auto simp: load_or_generate_def generate_identity_def split: sum.split read_error.splits)
      then show ?thesis using assms made [OF g missing w] v by (auto split: sum.splits)
    qed
  qed
qed

text \<open>C21. Once made, the identity stays: a start that ends with an identity leaves files from which every later start
  gets the very same one, without writing anything, whatever name or key would be generated then.\<close>
theorem identity_is_stable:
  assumes "load_or_generate sha256 rcgen output d p fs = (Inr idn, fs')" and "disk_unreadable d = (\<lambda>path. None)"
  shows "load_or_generate sha256 rcgen' output' d p fs' = (Inr idn, fs') \<and>
    identity_fingerprint idn = fingerprint_of sha256 (certificate_der idn)"
  using assms(1)
proof (cases rule: load_or_generate_cases)
  case kept
  then show ?thesis by (auto simp: load_or_generate_def)
next
  case (made cert key r1 fs1)
  then have w: "fs_write d (certificate_file p) cert fs = (Inr (), fs1)"
    "write_private d (key_file p) key fs1 = (Inr (), fs')"
    "idn = \<lparr> certificate_der = cert, private_key_der = key, identity_fingerprint = fingerprint_of sha256 cert \<rparr>"
    by auto
  have "fs' (certificate_file p) = fs1 (certificate_file p)"
    using write_with_elsewhere [of "certificate_file p" "key_file p" 384 d key fs1] w(2)
    by (simp add: write_private_def)
  then have "read_file d (certificate_file p) fs' = Inr cert" "read_file d (key_file p) fs' = Inr key"
    using write_with_ok [OF w(1) [unfolded fs_write_def]] write_with_ok [of 384 d "key_file p" key fs1 fs'] w(2) assms(2)
    by (simp_all add: read_file_def write_private_def)
  then show ?thesis using w(3) by (simp add: load_or_generate_def)
qed

text \<open>The bits of a mode that let anyone but the owner at a file.\<close>
definition open_to_others :: "unix_file \<Rightarrow> bool" where
  "open_to_others f \<longleftrightarrow> file_mode f AND 63 \<noteq> 0"

text \<open>C20. A private key that is made on a machine that had none is never open to anyone but its owner, neither when
  all goes well nor in what an error leaves behind, under every mask.\<close>
theorem fresh_private_key_is_owner_only:
  assumes "load_or_generate sha256 rcgen output d p fs = (r, fs')" and "fs (key_file p) = None"
    and "fs' (key_file p) = Some f"
  shows "\<not> open_to_others f"
  using assms(1)
proof (cases rule: load_or_generate_cases)
  case kept
  then show ?thesis using assms(2,3) by simp
next
  case (made cert key r1 fs1)
  have "fs1 (key_file p) = None"
    using write_with_elsewhere [of "key_file p" "certificate_file p" 438 d cert fs] made(3) assms(2)
    by (simp add: fs_write_def)
  then have "file_mode f = 384 AND NOT (disk_umask d)"
    using made(4) assms(3) write_with_mode [of 384 d "key_file p" key fs1] by (auto simp: write_private_def)
  then have "file_mode f AND 63 = NOT (disk_umask d) AND ((384 :: u32) AND 63)"
    by (simp only: and.assoc and.commute and.left_commute)
  then show ?thesis by (simp add: open_to_others_def)
qed

text \<open>A key file that is there already keeps the permissions it has: when the certificate beside it is missing, the
  new private key is written into a file that others may read, although the code means to lock it down first.\<close>
theorem existing_key_file_keeps_its_permissions:
  assumes "fs (certificate_file p) = None" and "fs (key_file p) = Some old" and "open_to_others old"
    and "disk_unreadable d (key_file p) = None" and "rcgen (hostname output) = Inr (cert, key)"
    and "load_or_generate sha256 rcgen output d p fs = (Inr idn, fs')"
  shows "\<exists>f. fs' (key_file p) = Some f \<and> file_bytes f = key \<and> open_to_others f"
  using assms(6)
proof (cases rule: load_or_generate_cases)
  case kept
  then show ?thesis using assms(1) by (auto simp: read_file_def)
next
  case (made cert' key' r1 fs1)
  then have "fs1 (key_file p) = Some old"
    using write_with_elsewhere [of "key_file p" "certificate_file p" 438 d cert' fs] assms(2)
    by (simp add: fs_write_def)
  then have "fs' (key_file p) = Some \<lparr> file_mode = file_mode old, file_bytes = key \<rparr>"
    using made assms(5) write_with_ok [of 384 d "key_file p" key fs1 fs']
    by (auto simp: write_private_def)
  then show ?thesis using assms(3) by (simp add: open_to_others_def)
qed

text \<open>A write of the private key that fails half-way is taken for the identity from then on: the next start finds
  both files, loads what was written of the key, and never makes another.\<close>
theorem truncated_key_is_loaded:
  assumes "fs (certificate_file p) = None" and "fs (key_file p) = None" and "rcgen (hostname output) = Inr (cert, key)"
    and "disk_unwritable d = (\<lambda>path. None)" and "disk_full d = [key_file p \<mapsto> (n, e)]"
    and "disk_unreadable d = (\<lambda>path. None)" and "disk_unreadable d' = (\<lambda>path. None)"
    and "load_or_generate sha256 rcgen output d p fs = (r, fs')"
  shows "r = Inl e \<and> (\<exists>idn. load_or_generate sha256 rcgen' output' d' p fs' = (Inr idn, fs') \<and>
    certificate_der idn = cert \<and> private_key_der idn = take n key)"
proof -
  have "r = Inl e \<and> fs' (certificate_file p) = Some \<lparr> file_mode = 438 AND NOT (disk_umask d), file_bytes = cert \<rparr> \<and>
      fs' (key_file p) = Some \<lparr> file_mode = 384 AND NOT (disk_umask d), file_bytes = take n key \<rparr>"
    using assms(8) by (auto simp: load_or_generate_def generate_identity_def read_file_def assms(1-6) fs_write_def
        write_private_def write_with_def open_to_write_def write_all_def)
  then show ?thesis using assms(7) by (simp add: load_or_generate_def read_file_def)
qed

definition demo_paths :: paths where
  "demo_paths = \<lparr> paths_dir = ''/home/me/.config/omni'', paths_separator = ''/'' \<rparr>"

definition demo_disk :: disk where
  "demo_disk = \<lparr> disk_unreadable = (\<lambda>path. None), disk_unwritable = (\<lambda>path. None), disk_full = (\<lambda>path. None),
     disk_umask = 18 \<rparr>"

definition demo_rcgen :: "string \<Rightarrow> string + u8 list \<times> u8 list" where
  "demo_rcgen name = Inr ([1, 2], [3, 4])"

lemmas demo_identity = load_or_generate_def generate_identity_def read_file_def fs_write_def write_private_def
  write_with_def open_to_write_def write_all_def demo_rcgen_def

lemma identity_is_stable_witness:
  "\<exists>idn fs. load_or_generate (\<lambda>b. b) demo_rcgen None demo_disk demo_paths Map.empty = (Inr idn, fs) \<and>
     load_or_generate (\<lambda>b. b) (\<lambda>_. Inl ''no entropy'') None demo_disk demo_paths fs = (Inr idn, fs)"
proof -
  obtain idn fs where run: "load_or_generate (\<lambda>b. b) demo_rcgen None demo_disk demo_paths Map.empty = (Inr idn, fs)"
    by (simp add: demo_identity demo_disk_def)
  have "disk_unreadable demo_disk = (\<lambda>path. None)" by (simp add: demo_disk_def)
  from identity_is_stable [OF run this] run show ?thesis by blast
qed

lemma fresh_private_key_is_owner_only_witness:
  "\<exists>r fs f. load_or_generate (\<lambda>b. b) demo_rcgen None demo_disk demo_paths Map.empty = (r, fs) \<and>
     fs (key_file demo_paths) = Some f \<and> \<not> open_to_others f"
proof -
  obtain r fs f where run: "load_or_generate (\<lambda>b. b) demo_rcgen None demo_disk demo_paths Map.empty = (r, fs)"
    "fs (key_file demo_paths) = Some f"
    by (simp add: demo_identity demo_disk_def)
  from fresh_private_key_is_owner_only [OF run(1) _ run(2)] run show ?thesis by auto
qed

lemma existing_key_file_keeps_its_permissions_witness:
  "\<exists>idn fs f. load_or_generate (\<lambda>b. b) demo_rcgen None demo_disk demo_paths
       [key_file demo_paths \<mapsto> \<lparr> file_mode = 420, file_bytes = [] \<rparr>] = (Inr idn, fs) \<and>
     fs (key_file demo_paths) = Some f \<and> file_bytes f = [3, 4] \<and> open_to_others f"
proof -
  let ?fs = "[key_file demo_paths \<mapsto> \<lparr> file_mode = 420, file_bytes = [] \<rparr>]"
  obtain idn fs where run: "load_or_generate (\<lambda>b. b) demo_rcgen None demo_disk demo_paths ?fs = (Inr idn, fs)"
    by (simp add: demo_identity demo_disk_def)
  have "?fs (certificate_file demo_paths) = None" "?fs (key_file demo_paths) = Some \<lparr> file_mode = 420, file_bytes = [] \<rparr>"
    "open_to_others \<lparr> file_mode = 420, file_bytes = [] \<rparr>" "disk_unreadable demo_disk (key_file demo_paths) = None"
    "demo_rcgen (hostname None) = Inr ([1, 2], [3, 4])"
    by (simp_all add: open_to_others_def demo_disk_def demo_rcgen_def)
  from existing_key_file_keeps_its_permissions [OF this run] run show ?thesis by blast
qed

lemma truncated_key_is_loaded_witness:
  "\<exists>r fs idn. load_or_generate (\<lambda>b. b) demo_rcgen None
       (demo_disk \<lparr> disk_full := [key_file demo_paths \<mapsto> (1, ''no space left on device'')] \<rparr>) demo_paths Map.empty = (r, fs) \<and>
     load_or_generate (\<lambda>b. b) demo_rcgen None demo_disk demo_paths fs = (Inr idn, fs) \<and> private_key_der idn = [3]"
proof -
  let ?d = "demo_disk \<lparr> disk_full := [key_file demo_paths \<mapsto> (1, ''no space left on device'')] \<rparr>"
  obtain r fs where run: "load_or_generate (\<lambda>b. b) demo_rcgen None ?d demo_paths Map.empty = (r, fs)" by fastforce
  have "demo_rcgen (hostname None) = Inr ([1, 2], [3, 4])" "disk_unwritable ?d = (\<lambda>path. None)"
    "disk_full ?d = [key_file demo_paths \<mapsto> (1, ''no space left on device'')]" "disk_unreadable ?d = (\<lambda>path. None)"
    "disk_unreadable demo_disk = (\<lambda>path. None)"
    by (simp_all add: demo_disk_def demo_rcgen_def)
  from truncated_key_is_loaded [OF _ _ this run, of demo_rcgen None] run show ?thesis by auto
qed

section \<open>Properties of the channel\<close>

text \<open>A daemon that binds the channel takes it from one that still listens there, and when the first of the two
  ends, it takes the channel from the second: nobody reaches the daemon that is left.\<close>
theorem second_daemon_loses_the_channel:
  assumes "ipc_bind None ok1 umask p s = (Inr first, s1)" and "ipc_bind None ok2 umask p s1 = (Inr second, s2)"
  shows "ipc_connect {first} p s1 = Some first \<and> ipc_connect {first, second} p s2 = Some second \<and> first \<noteq> second \<and>
    ipc_connect {second} p (ipc_drop p s2) = None"
  using assms by (auto simp: ipc_bind_def ipc_connect_def ipc_drop_def Let_def)

lemma second_daemon_loses_the_channel_witness:
  "\<exists>s1 s2. ipc_bind None True 18 demo_paths \<lparr> so_at = Map.empty, so_next = 0 \<rparr> = (Inr 0, s1) \<and>
     ipc_bind None True 18 demo_paths s1 = (Inr 1, s2) \<and> ipc_connect {1} demo_paths (ipc_drop demo_paths s2) = None"
proof -
  obtain s1 s2 where b: "ipc_bind None True 18 demo_paths \<lparr> so_at = Map.empty, so_next = 0 \<rparr> = (Inr 0, s1)"
    "ipc_bind None True 18 demo_paths s1 = (Inr 1, s2)"
    by (simp add: ipc_bind_def)
  from second_daemon_loses_the_channel [OF b] b show ?thesis by blast
qed

definition found_busy :: "open_result \<Rightarrow> bool" where
  "found_busy r = (case r of Opened \<Rightarrow> False | OpenFailed code e \<Rightarrow> is_busy code)"

text \<open>Round \<open>k\<close> opens the pipe after every round before it found it busy in time.\<close>
definition opens_at :: "real \<Rightarrow> (real \<times> open_result) list \<Rightarrow> nat \<Rightarrow> bool" where
  "opens_at deadline rounds k \<longleftrightarrow> k < length rounds \<and> snd (rounds ! k) = Opened \<and>
     list_all (\<lambda>(now, r). now < deadline \<and> found_busy r) (take k rounds)"

lemma opens_at_Cons:
  "opens_at deadline ((now, r) # rounds) k \<longleftrightarrow> (case k of 0 \<Rightarrow> r = Opened
     | Suc j \<Rightarrow> now < deadline \<and> found_busy r \<and> opens_at deadline rounds j)"
  by (auto simp: opens_at_def split: nat.split)

lemma connect_pipe_opened: "connect_pipe deadline rounds = Some (Inr ()) \<longleftrightarrow> (\<exists>k. opens_at deadline rounds k)"
proof (induction rounds)
  case Nil
  then show ?case by (simp add: opens_at_def)
next
  case (Cons x rounds)
  obtain now r where x: "x = (now, r)" by (cases x)
  have "(\<exists>k. opens_at deadline ((now, r) # rounds) k) \<longleftrightarrow>
      r = Opened \<or> now < deadline \<and> found_busy r \<and> (\<exists>k. opens_at deadline rounds k)"
  proof -
    have "(\<exists>k. P k) \<longleftrightarrow> P 0 \<or> (\<exists>k. P (Suc k))" for P :: "nat \<Rightarrow> bool" by (metis not0_implies_Suc)
    from this [of "opens_at deadline ((now, r) # rounds)"] show ?thesis by (simp add: opens_at_Cons)
  qed
  then show ?case using Cons x by (auto simp: found_busy_def split: open_result.split)
qed

lemma connect_pipe_ends:
  assumes "list_all (\<lambda>(now, r). deadline \<le> now) (drop n rounds)" and "n < length rounds"
  shows "\<exists>r. connect_pipe deadline rounds = Some r \<and> connect_pipe deadline (take (Suc n) rounds) = Some r"
  using assms
proof (induction rounds arbitrary: n)
  case (Cons x rounds)
  obtain now r where x: "x = (now, r)" by (cases x)
  show ?case
  proof (cases n)
    case 0
    then show ?thesis using Cons.prems x by (auto split: open_result.split)
  next
    case (Suc m)
    then show ?thesis using Cons.IH [of m] Cons.prems x by (auto split: open_result.split)
  qed
qed simp

text \<open>Connecting to the Windows pipe always ends: when every look at the clock comes after one more pause, it has an
  answer after a hundred and one attempts at the latest; and it succeeds exactly when the pipe opens once after
  nothing but busy answers before the two seconds are over.\<close>
theorem busy_pipe_is_retried_in_bounds:
  assumes "spaced_rounds CONNECT_RETRY_DELAY began rounds" and "100 < length rounds"
  shows "\<exists>r. connect_pipe (began + CONNECT_TIMEOUT) rounds = Some r \<and>
    connect_pipe (began + CONNECT_TIMEOUT) (take 101 rounds) = Some r \<and>
    (r = Inr () \<longleftrightarrow> (\<exists>k. opens_at (began + CONNECT_TIMEOUT) rounds k))"
proof -
  have "list_all (\<lambda>(now, r). began + CONNECT_TIMEOUT \<le> now) (drop 100 rounds)"
    by (rule late_rounds [OF assms(1)]) (simp_all add: CONNECT_TIMEOUT_def CONNECT_RETRY_DELAY_def)
  from connect_pipe_ends [OF this assms(2)] show ?thesis
    by (auto simp: connect_pipe_opened [symmetric])
qed

lemma busy_pipe_is_retried_in_bounds_witness:
  "\<exists>r. connect_pipe (0 + CONNECT_TIMEOUT) (map (\<lambda>k. (of_nat k, OpenFailed (Some 231) ''busy'')) [0..<200]) = Some r \<and>
     connect_pipe (0 + CONNECT_TIMEOUT) (take 101 (map (\<lambda>k. (of_nat k, OpenFailed (Some 231) ''busy'')) [0..<200])) = Some r"
proof -
  have "spaced_rounds CONNECT_RETRY_DELAY 0 (map (\<lambda>k. (of_nat k, OpenFailed (Some 231) ''busy'')) [0..<200])"
    by (simp add: spaced_rounds_def CONNECT_RETRY_DELAY_def list_all_iff)
  from busy_pipe_is_retried_in_bounds [OF this] show ?thesis by (simp del: upt.simps) blast
qed

end
