(* ===== verification/Handles.thy ===== *)
theory Handles
  imports LocalState MacInput Clipboard
begin

text \<open>
  What the program holds of the operating system besides files and sockets, and that it gives it back: the
  token, the text and the descriptor behind the owner-only pipe of Windows (\<^verbatim>\<open>pipe_security.rs\<close>), the
  instances of that pipe (\<^verbatim>\<open>ipc_transport.rs\<close>), the clipboard's handle (\<^verbatim>\<open>adapter.rs\<close>), and the tap thread and
  the hidden cursor of macOS (\<^verbatim>\<open>macos/source.rs\<close>).
\<close>

section \<open>The owner-only descriptor\<close>

text \<open>What the calls about the process's token answer: an error is its text, \<open>tk_needed\<close> the size first asked
  for, and a text of the system is UTF-16 up to a zero.\<close>
record 'sid token_calls =
  tk_open :: "string + unit"
  tk_needed :: u32
  tk_last_error :: string
  tk_user :: "string + 'sid"
  tk_text :: "'sid \<Rightarrow> string + u16 list"

record win_held =
  wh_tokens :: nat
  wh_allocs :: nat

definition wide_to_string :: "(u16 list \<Rightarrow> string) \<Rightarrow> u16 list \<Rightarrow> string" where
  "wide_to_string lossy raw = lossy (takeWhile (\<lambda>u. u \<noteq> 0) raw)"

text \<open>\<open>OwnedToken\<close> closes the token on every way out.\<close>
definition current_user_sid_string ::
  "(u16 list \<Rightarrow> string) \<Rightarrow> 'sid token_calls \<Rightarrow> win_held \<Rightarrow> (string + string) \<times> win_held" where
  "current_user_sid_string lossy t h =
     (case tk_open t of
        Inl e \<Rightarrow> (Inl e, h)
      | Inr _ \<Rightarrow>
          let h = h \<lparr> wh_tokens := wh_tokens h + 1 \<rparr>;
              (r, h) = (if tk_needed t = 0 then (Inl (tk_last_error t), h)
                 else case tk_user t of
                     Inl e \<Rightarrow> (Inl e, h)
                   | Inr sid \<Rightarrow>
                       (case tk_text t sid of
                          Inl e \<Rightarrow> (Inl e, h)
                        | Inr raw \<Rightarrow>
                            let h = h \<lparr> wh_allocs := wh_allocs h + 1 \<rparr>; sid = wide_to_string lossy raw;
                                h = h \<lparr> wh_allocs := wh_allocs h - 1 \<rparr>
                            in (Inr sid, h)))
          in (r, h \<lparr> wh_tokens := wh_tokens h - 1 \<rparr>))"

text \<open>\<open>convert\<close> is given the text in UTF-16 with its final zero.\<close>
definition security_descriptor_from_sddl ::
  "(string \<Rightarrow> u16 list) \<Rightarrow> (u16 list \<Rightarrow> string + 'd) \<Rightarrow> string \<Rightarrow> win_held \<Rightarrow> (string + 'd) \<times> win_held" where
  "security_descriptor_from_sddl utf16 convert sddl h = (case convert (utf16 sddl @ [0]) of
      Inl e \<Rightarrow> (Inl e, h)
    | Inr d \<Rightarrow> (Inr d, h \<lparr> wh_allocs := wh_allocs h + 1 \<rparr>))"

definition owner_only_new ::
  "(u16 list \<Rightarrow> string) \<Rightarrow> (string \<Rightarrow> u16 list) \<Rightarrow> (u16 list \<Rightarrow> string + 'd) \<Rightarrow> 'sid token_calls \<Rightarrow> win_held \<Rightarrow>
   (string + 'd) \<times> win_held" where
  "owner_only_new lossy utf16 convert t h =
     (case current_user_sid_string lossy t h of
        (Inl e, h) \<Rightarrow> (Inl e, h)
      | (Inr sid, h) \<Rightarrow> security_descriptor_from_sddl utf16 convert (''D:P(A;;GA;;;'' @ sid @ '')'') h)"

definition owner_only_drop :: "win_held \<Rightarrow> win_held" where
  "owner_only_drop h = h \<lparr> wh_allocs := wh_allocs h - 1 \<rparr>"

lemma sid_string_holds_nothing: "snd (current_user_sid_string lossy t h) = h"
  by (auto simp: current_user_sid_string_def Let_def split: sum.split prod.splits)

text \<open>Building the descriptor computes what its specification says, holds exactly the descriptor when it
  succeeds and nothing when it fails, and dropping it gives that back.\<close>
theorem owner_only_gives_back:
  "fst (owner_only_new lossy utf16 convert t h) =
     owner_only (fst (current_user_sid_string lossy t h)) (\<lambda>sddl. convert (utf16 sddl @ [0])) \<and>
   (case owner_only_new lossy utf16 convert t h of
      (Inl e, h') \<Rightarrow> h' = h
    | (Inr d, h') \<Rightarrow> h' = h \<lparr> wh_allocs := wh_allocs h + 1 \<rparr> \<and> owner_only_drop h' = h)"
  using sid_string_holds_nothing [of lossy t h]
  by (cases "current_user_sid_string lossy t h")
    (auto simp: owner_only_new_def owner_only_def security_descriptor_from_sddl_def owner_only_drop_def split: sum.split)

section \<open>The instances of the Windows pipe\<close>

text \<open>The instance the listener has ready, if its client has come or not; those handed to clients; and whether
  another process has instances of the name.\<close>
datatype pipe_instance = Unconnected | Connected

record pipe_listener =
  pl_next :: pipe_instance
  pl_serving :: nat

text \<open>\<open>others\<close>: instances of the name there are already; \<open>made\<close>: whether the system makes one more.  Claiming
  the first instance fails when there is one.\<close>
definition create_instance :: "bool \<Rightarrow> nat \<Rightarrow> string option \<Rightarrow> string + unit" where
  "create_instance first others made = (case made of
      Some e \<Rightarrow> Inl e
    | None \<Rightarrow> if first \<and> others \<noteq> 0 then Inl ''Access is denied.'' else Inr ())"

definition pipe_bind :: "string + 'd \<Rightarrow> nat \<Rightarrow> string option \<Rightarrow> string + pipe_listener" where
  "pipe_bind security others made = (case security of
      Inl e \<Rightarrow> Inl e
    | Inr _ \<Rightarrow>
        (case create_instance True others made of
           Inl e \<Rightarrow> Inl e
         | Inr _ \<Rightarrow> Inr \<lparr> pl_next = Unconnected, pl_serving = 0 \<rparr>))"

text \<open>\<open>joined\<close>: the error of waiting for the client.\<close>
definition pipe_accept :: "string option \<Rightarrow> string option \<Rightarrow> pipe_listener \<Rightarrow> (string + unit) \<times> pipe_listener" where
  "pipe_accept joined made l = (case joined of
      Some e \<Rightarrow> (Inl e, l)
    | None \<Rightarrow>
        let l = l \<lparr> pl_next := Connected \<rparr>
        in case create_instance False (pl_serving l + 1) made of
             Inl e \<Rightarrow> (Inl e, l)
           | Inr _ \<Rightarrow> (Inr (), \<lparr> pl_next = Unconnected, pl_serving = pl_serving l + 1 \<rparr>))"

text \<open>The accepting task goes on while it gets clients.\<close>
fun pipe_accepts :: "(string option \<times> string option) list \<Rightarrow> pipe_listener \<Rightarrow> bool \<times> pipe_listener" where
  "pipe_accepts [] l = (True, l)"
| "pipe_accepts ((joined, made) # calls) l = (case pipe_accept joined made l of
      (Inl e, l) \<Rightarrow> (False, l)
    | (Inr _, l) \<Rightarrow> pipe_accepts calls l)"

text \<open>The pipe belongs to one daemon: binding it needs that nobody has an instance of it.  While the task accepts,
  one instance is waiting and every client that came is served; when it gives up after a client came, that
  client is served by nobody.\<close>
theorem pipe_always_waits:
  assumes "pipe_bind security others made = Inr l" and "pipe_accepts calls l = (accepting, l')"
  shows "others = 0 \<and>
    (accepting \<longrightarrow> pl_next l' = Unconnected \<and> pl_serving l' = length calls) \<and>
    (\<not> accepting \<longrightarrow> (\<exists>n joined made. n < length calls \<and> calls ! n = (joined, made) \<and> pl_serving l' = n \<and>
       (case joined of Some e \<Rightarrow> pl_next l' = Unconnected | None \<Rightarrow> made \<noteq> None \<and> pl_next l' = Connected)))"
proof -
  have runs: "(accepting \<longrightarrow> pl_next l' = Unconnected \<and> pl_serving l' = pl_serving l + length calls) \<and>
    (\<not> accepting \<longrightarrow> (\<exists>n joined made. n < length calls \<and> calls ! n = (joined, made) \<and> pl_serving l' = pl_serving l + n \<and>
       (case joined of Some e \<Rightarrow> pl_next l' = Unconnected | None \<Rightarrow> made \<noteq> None \<and> pl_next l' = Connected)))"
    if "pipe_accepts calls l = (accepting, l')" "pl_next l = Unconnected" for calls l
    using that
  proof (induction calls arbitrary: l)
    case (Cons c calls)
    obtain joined made where c: "c = (joined, made)" by (cases c)
    show ?case
    proof (cases "fst (pipe_accept joined made l)")
      case (Inl e)
      then show ?thesis using Cons.prems c
        by (intro conjI impI exI [of _ 0])
          (auto simp: pipe_accept_def create_instance_def Let_def split: option.splits prod.splits)
    next
      case (Inr u)
      then have "pipe_accepts calls \<lparr> pl_next = Unconnected, pl_serving = pl_serving l + 1 \<rparr> = (accepting, l')"
        using Cons.prems c by (auto simp: pipe_accept_def create_instance_def Let_def split: option.splits)
      from Cons.IH [OF this] show ?thesis using c by (auto intro: exI [of _ "Suc _"])
    qed
  qed auto
  have "others = 0 \<and> l = \<lparr> pl_next = Unconnected, pl_serving = 0 \<rparr>"
    using assms(1) by (auto simp: pipe_bind_def create_instance_def split: sum.splits option.splits if_splits)
  then show ?thesis using runs [OF assms(2)] by simp
qed

lemma pipe_always_waits_witness:
  "\<exists>l. pipe_bind (Inr ()) 0 None = Inr l \<and>
     fst (pipe_accepts [(None, None), (None, Some ''no memory'')] l) = False \<and>
     pl_next (snd (pipe_accepts [(None, None), (None, Some ''no memory'')] l)) = Connected"
proof -
  let ?calls = "[(None, None), (None, Some ''no memory'')] :: (string option \<times> string option) list"
  obtain l where l: "pipe_bind (Inr ()) 0 None = Inr l" by (simp add: pipe_bind_def create_instance_def)
  have no: "\<not> fst (pipe_accepts ?calls l)" by (simp add: pipe_accept_def create_instance_def Let_def)
  obtain b l' where run: "pipe_accepts ?calls l = (b, l')" by fastforce
  have "pl_next l' = Connected"
    using pipe_always_waits [OF l run] no run by (auto simp: less_Suc_eq nth_Cons' split: if_splits)
  then show ?thesis using l no run by auto
qed

section \<open>The clipboard's handle\<close>

text \<open>\<open>opened\<close>: what opening the system's clipboard gives.\<close>
record 'c arboard_adapter =
  ab_handle :: "'c option"
  ab_opens :: nat

definition adapter_new :: "string + 'c \<Rightarrow> 'c arboard_adapter" where
  "adapter_new opened = (case opened of
      Inr c \<Rightarrow> \<lparr> ab_handle = Some c, ab_opens = 1 \<rparr>
    | Inl e \<Rightarrow> \<lparr> ab_handle = None, ab_opens = 1 \<rparr>)"

definition adapter_acquire ::
  "bool \<Rightarrow> string + 'c \<Rightarrow> 'c arboard_adapter \<Rightarrow> (clipboard_error + 'c) \<times> 'c arboard_adapter" where
  "adapter_acquire poisoned opened a =
     (if poisoned then (Inl (Platform ''clipboard lock poisoned''), a)
      else case ab_handle a of
          Some c \<Rightarrow> (Inr c, a)
        | None \<Rightarrow>
            (case opened of
               Inr c \<Rightarrow> (Inr c, a \<lparr> ab_handle := Some c, ab_opens := ab_opens a + 1 \<rparr>)
             | Inl e \<Rightarrow> (Inl (Platform e), a \<lparr> ab_opens := ab_opens a + 1 \<rparr>)))"

definition adapter_read ::
  "('c \<Rightarrow> string option) \<Rightarrow> ('c \<Rightarrow> clipboard_image option) \<Rightarrow> bool \<Rightarrow> string + 'c \<Rightarrow> 'c arboard_adapter \<Rightarrow>
   (clipboard_error + clipboard_data option) \<times> 'c arboard_adapter" where
  "adapter_read get_text get_image poisoned opened a =
     (case adapter_acquire poisoned opened a of
        (Inl e, a) \<Rightarrow> (Inl e, a)
      | (Inr c, a) \<Rightarrow> (arboard_read get_text get_image c, a))"

definition adapter_write ::
  "nat \<Rightarrow> (string \<Rightarrow> 'c \<Rightarrow> string + 'c) \<Rightarrow> (clipboard_image \<Rightarrow> 'c \<Rightarrow> string + 'c) \<Rightarrow> clipboard_data \<Rightarrow> bool \<Rightarrow> string + 'c \<Rightarrow>
   'c arboard_adapter \<Rightarrow> (clipboard_error + unit) \<times> 'c arboard_adapter" where
  "adapter_write bits set_text set_image data poisoned opened a =
     (case adapter_acquire poisoned opened a of
        (Inl e, a) \<Rightarrow> (Inl e, a)
      | (Inr c, a) \<Rightarrow>
          (case arboard_write bits set_text set_image data c of
             Inl e \<Rightarrow> (Inl e, a)
           | Inr c \<Rightarrow> (Inr (), a \<lparr> ab_handle := Some c \<rparr>)))"

text \<open>The polls of a daemon: what opening the clipboard would give at each.\<close>
fun adapter_polls ::
  "('c \<Rightarrow> string option) \<Rightarrow> ('c \<Rightarrow> clipboard_image option) \<Rightarrow> (string + 'c) list \<Rightarrow> 'c arboard_adapter \<Rightarrow>
   (clipboard_error + clipboard_data option) list \<times> 'c arboard_adapter" where
  "adapter_polls get_text get_image [] a = ([], a)"
| "adapter_polls get_text get_image (opened # later) a =
     (let (r, a) = adapter_read get_text get_image False opened a; (rs, a) = adapter_polls get_text get_image later a
      in (r # rs, a))"

lemma polls_with_handle:
  "ab_handle a = Some c \<Longrightarrow>
   adapter_polls get_text get_image tries a = (map (\<lambda>_. arboard_read get_text get_image c) tries, a)"
  by (induction tries) (simp_all add: adapter_read_def adapter_acquire_def)

text \<open>Polling heals itself and opens the clipboard no more often than it must: while it cannot be opened each poll
  tries once and reports the error of the system, and from the first time it can be, that one handle is
  read at every poll.\<close>
theorem clipboard_opens_until_it_works:
  assumes "adapter_new (Inl e) = a" and "tries = map Inl es @ Inr c # later"
  shows "adapter_polls get_text get_image tries a =
    (map (\<lambda>e. Inl (Platform e)) es @ replicate (Suc (length later)) (arboard_read get_text get_image c),
     \<lparr> ab_handle = Some c, ab_opens = length es + 2 \<rparr>)"
proof -
  have "adapter_polls get_text get_image (map Inl es @ Inr c # later) \<lparr> ab_handle = None, ab_opens = n \<rparr> =
    (map (\<lambda>e. Inl (Platform e)) es @ replicate (Suc (length later)) (arboard_read get_text get_image c),
     \<lparr> ab_handle = Some c, ab_opens = length es + n + 1 \<rparr>)" for n
  proof (induction es arbitrary: n)
    case Nil
    then show ?case by (simp add: adapter_read_def adapter_acquire_def polls_with_handle map_replicate_const)
  next
    case (Cons e es)
    then show ?case using Cons.IH [of "Suc n"] by (simp add: adapter_read_def adapter_acquire_def)
  qed
  from this [of 1] show ?thesis using assms by (auto simp: adapter_new_def)
qed

lemma clipboard_opens_until_it_works_witness:
  "fst (adapter_polls (\<lambda>c. Some c) (\<lambda>_. None) [Inl ''no display'', Inr ''copied'', Inl ''gone'']
     (adapter_new (Inl ''no display''))) = [Inl (Platform ''no display''), Inr (Some (Text ''copied'')), Inr (Some (Text ''copied''))]"
  using clipboard_opens_until_it_works [OF refl, of "[Inl ''no display'', Inr ''copied'', Inl ''gone'']" "[''no display'']"
      "''copied''" "[Inl ''gone'']" "\<lambda>c. Some c" "\<lambda>_. None" "''no display''"]
  by (simp add: arboard_read_def)

section \<open>The tap of macOS\<close>

text \<open>The events the tap asks for.\<close>
definition tap_interest :: "tap_type list" where
  "tap_interest = [KeyDown, KeyUp, FlagsChanged, MouseMoved, LeftMouseDown, LeftMouseUp, LeftMouseDragged,
     RightMouseDown, RightMouseUp, RightMouseDragged, OtherMouseDown, OtherMouseUp, OtherMouseDragged, ScrollWheel]"

text \<open>It asks for exactly the kinds of event that can give input.\<close>
theorem tap_hears_what_it_converts:
  "ty \<in> set tap_interest \<longleftrightarrow> (\<exists>ev held caps. fst (mac_convert_event ty ev held caps) \<noteq> [])"
proof
  let ?ev = "\<lparr> te_keycode = 56, te_flags = {FlagShift}, te_dx = 0, te_dy = 0, te_button = 0,
    te_axis1 = Some 1, te_axis2 = None, te_user_data = 0 \<rparr>"
  have hid: "mac_hid_from_vk 56 = Some (KeyCode 0xE1)"
    unfolding mac_hid_from_vk_def mac_keys.hid_of_native_iff by (simp add: MAC_VK_HID_def)
  have line: "millilines_from_lines (Some 1) \<noteq> 0" by (simp add: millilines_from_lines_def Let_def)
  have vk: "is_modifier_vk 56" by (simp add: is_modifier_vk_def)
  assume "ty \<in> set tap_interest"
  then have "fst (mac_convert_event ty ?ev 0 False) \<noteq> []"
    by (cases ty) (auto simp: tap_interest_def mac_convert_event_def convert_one_def hid line vk CAPS_LOCK_VK_def split_beta)
  then show "\<exists>ev held caps. fst (mac_convert_event ty ev held caps) \<noteq> []" by blast
next
  assume "\<exists>ev held caps. fst (mac_convert_event ty ev held caps) \<noteq> []"
  then show "ty \<in> set tap_interest"
    by (cases ty) (auto simp: tap_interest_def mac_convert_event_def convert_one_def)
qed
text \<open>What starting the thread comes to; the tap and its thread that exist.\<close>
datatype tap_start = NoTapThread | NoTap | NoLoopSource | TapRuns

record tap_held =
  th_threads :: nat
  th_taps :: nat

text \<open>What \<open>run_tap\<close> reports before it waits, and what it still holds then.\<close>
definition run_tap :: "tap_start \<Rightarrow> tap_held \<Rightarrow> (macos_input_error + unit) \<times> tap_held" where
  "run_tap start h = (case start of
      NoTap \<Rightarrow> (Inl TapCreation, h)
    | NoLoopSource \<Rightarrow>
        let h = h \<lparr> th_taps := th_taps h + 1 \<rparr> in (Inl TapCreation, h \<lparr> th_taps := th_taps h - 1 \<rparr>)
    | _ \<Rightarrow> (Inr (), h \<lparr> th_taps := th_taps h + 1 \<rparr>))"

definition mac_start :: "tap_start \<Rightarrow> tap_held \<Rightarrow> (macos_input_error + mac_source) \<times> tap_held" where
  "mac_start start h =
     (if start = NoTapThread then (mac_source_new False, h)
      else
        let h = h \<lparr> th_threads := th_threads h + 1 \<rparr>; (ready, h) = run_tap start h
        in case ready of
             Inr _ \<Rightarrow> (mac_source_new True, h)
           | Inl e \<Rightarrow> (mac_source_new False, h \<lparr> th_threads := th_threads h - 1 \<rparr>))"

text \<open>Dropping the source stops the run loop and waits for the thread, whose tap goes with it.\<close>
definition mac_stop :: "mac_source \<times> tap_held \<Rightarrow> mac_source \<times> tap_held" where
  "mac_stop sh = (mac_drop (fst sh), (snd sh) \<lparr> th_taps := th_taps (snd sh) - 1, th_threads := th_threads (snd sh) - 1 \<rparr>)"

lemma mac_hidden_calls:
  "ms_hidden s = of_bool (ms_suppressed s) \<Longrightarrow>
   ms_hidden (fold mac_set_suppressed calls s) = of_bool (ms_suppressed (fold mac_set_suppressed calls s))"
  by (induction calls arbitrary: s) (auto simp: mac_set_suppressed_def Let_def)

text \<open>A source that could not start holds neither thread nor tap; one that started holds one of each and gives
  them back when it is dropped, with the cursor shown however input was withheld meanwhile.\<close>
theorem dropped_tap_shows_the_cursor:
  "case mac_start start h of
     (Inl e, h') \<Rightarrow> start \<noteq> TapRuns \<and> e = TapCreation \<and> h' = h
   | (Inr s, h') \<Rightarrow> start = TapRuns \<and> th_taps h' = th_taps h + 1 \<and> th_threads h' = th_threads h + 1 \<and>
       snd (mac_stop (fold mac_set_suppressed calls s, h')) = h \<and>
       ms_hidden (fst (mac_stop (fold mac_set_suppressed calls s, h'))) \<le> 0"
proof (cases start)
  case TapRuns
  let ?s = "\<lparr> ms_queue = \<lparr> cq_events = [], cq_alive = True \<rparr>, ms_suppressed = False, ms_held = 0,
    ms_caps = False, ms_hidden = 0 \<rparr>"
  have "ms_hidden (fold mac_set_suppressed calls ?s) \<le> 1" using mac_hidden_calls [of ?s calls] by simp
  then show ?thesis by (simp add: TapRuns mac_start_def run_tap_def mac_source_new_def mac_stop_def mac_drop_def Let_def)
qed (simp_all add: mac_start_def run_tap_def mac_source_new_def Let_def)

section \<open>What is shown of an identity\<close>

text \<open>\<open>shown\<close>: the fingerprint as it is written when debugging.\<close>
definition identity_debug :: "(fingerprint \<Rightarrow> string) \<Rightarrow> local_identity \<Rightarrow> string" where
  "identity_debug shown i =
     (let redacted = [CHR 0x22] @ ''<redacted>'' @ [CHR 0x22]
      in ''LocalIdentity { fingerprint: '' @ shown (identity_fingerprint i) @ '', certificate_der: '' @ redacted @
         '', private_key_der: '' @ redacted @ '' }'')"

text \<open>Nothing of the key is shown: what is written does not depend on it.\<close>
theorem key_is_never_shown: "identity_debug shown (i \<lparr> private_key_der := key \<rparr>) = identity_debug shown i"
  by (simp add: identity_debug_def)

end
