(* ===== verification/Handover.thy ===== *)
theory Handover
  imports System
begin

text \<open>
  Two machines and the messages between them.  Each runs the daemon of \<^verbatim>\<open>daemon.rs\<close>; a command queued
  for the other machine's link is, once the connection's two tasks have run, the call the other
  side makes on it.  The control messages of one connection arrive in the order they were sent, and
  so do the commands here; what one machine sends and what the other sends meanwhile interleave
  freely.
\<close>

section \<open>A command at the other side\<close>

text \<open>What receiving a command of the peer \<open>a\<close> does: the branches of \<^verbatim>\<open>run_peer\<close>, input within its
  rate.\<close>
fun receive :: "machine_id \<Rightarrow> peer_command \<Rightarrow> 'p shared \<Rightarrow> 'p shared" where
  "receive a (InputCmd ev) sh = inject ev sh"
| "receive a (WarpCmd x y) sh = warp x y (yield_control_to_peer sh)"
| "receive a (CursorReturnedCmd x y) sh = follow_peer_cursor a x y sh"
| "receive a (ClipboardCmd d) sh = sh"
| "receive a DisconnectCmd sh = sh"

text \<open>What a machine queues for a peer is what the peer's task makes happen there: the messages a
  command becomes on the wire, read by the other side's task of the same session, call exactly the
  handler the command stands for, input events as long as the rate limit lets them pass.\<close>
theorem wire_delivers_command:
  assumes "datagram_of (pt_session t) c = Some msg \<and> fst (allow_at now (pt_limiter t)) \<and> ev = DatagramIn (Datagram msg) \<or>
    control_of (pt_session t) c = Some msg \<and> ev = ControlIn (ControlGot msg)"
  shows "fst (peer_step bits w now ev t) = False \<and>
    pt_shared (snd (peer_step bits w now ev t)) = receive (pt_machine t) c (pt_shared t)"
proof (cases c)
  case (InputCmd e)
  then have "msg = Input (pt_session t) e" "ev = DatagramIn (Datagram msg)" "fst (allow_at now (pt_limiter t))"
    using assms by auto
  then show ?thesis using InputCmd by (simp add: on_datagram_def Let_def case_prod_beta)
next
  case (WarpCmd x y)
  then have "ev = ControlIn (ControlGot (Control (CursorWarp (pt_session t) x y)))" using assms by auto
  then show ?thesis using WarpCmd by (simp add: on_control_def)
next
  case (CursorReturnedCmd x y)
  then have "ev = ControlIn (ControlGot (Control (CursorReturned (pt_session t) x y)))" using assms by auto
  then show ?thesis using CursorReturnedCmd by (simp add: on_control_def)
qed (use assms in auto)

lemma wire_delivers_command_witness:
  "pt_shared (snd (peer_step 64 mock_write 1 (ControlIn (ControlGot (Control (CursorReturned (SessionId 9) 5 6))))
      (demo_task []))) = follow_peer_cursor demo_peer 5 6 (pt_shared (demo_task []))"
  using wire_delivers_command [of "demo_task []" "CursorReturnedCmd 5 6"
      "Control (CursorReturned (SessionId 9) 5 6)" 1
      "ControlIn (ControlGot (Control (CursorReturned (SessionId 9) 5 6)))" 64 mock_write]
  by (simp add: demo_task_fields)

section \<open>Two machines\<close>

type_synonym 'p duo = "'p shared \<times> 'p shared"

text \<open>The commands one machine has queued for the other.\<close>
definition outbox :: "'p shared \<Rightarrow> machine_id \<Rightarrow> peer_command list" where
  "outbox sh m = (case plinks sh m of None \<Rightarrow> [] | Some lk \<Rightarrow> link_commands lk)"

definition set_outbox :: "peer_command list \<Rightarrow> machine_id \<Rightarrow> 'p shared \<Rightarrow> 'p shared" where
  "set_outbox cs m sh = (case plinks sh m of None \<Rightarrow> sh
     | Some lk \<Rightarrow> set_links ((plinks sh)(m \<mapsto> lk \<lparr> link_commands := cs \<rparr>)) sh)"

text \<open>The first command \<open>a\<close> has for \<open>b\<close> arrives.\<close>
definition deliver :: "machine_id \<Rightarrow> machine_id \<Rightarrow> 'p shared \<Rightarrow> 'p shared \<Rightarrow> 'p duo" where
  "deliver a b A B = (case outbox A b of [] \<Rightarrow> (A, B)
     | c # cs \<Rightarrow> (set_outbox cs b A, receive a c B))"

text \<open>All of them arrive.\<close>
definition deliver_all :: "machine_id \<Rightarrow> machine_id \<Rightarrow> 'p shared \<Rightarrow> 'p shared \<Rightarrow> 'p duo" where
  "deliver_all a b A B = (set_outbox [] b A, foldl (\<lambda>B c. receive a c B) B (outbox A b))"

text \<open>The free interleaving: either side captures an event, or a message arrives at the other.\<close>
inductive duo_step :: "machine_id \<Rightarrow> machine_id \<Rightarrow> 'p duo \<Rightarrow> 'p duo \<Rightarrow> bool" for a b where
  LeftCaptures: "route_captured [b] os ev A = Some A' \<Longrightarrow> duo_step a b (A, B) (A', B)"
| RightCaptures: "route_captured [a] os ev B = Some B' \<Longrightarrow> duo_step a b (A, B) (A, B')"
| LeftArrives: "deliver a b A B = (A', B') \<Longrightarrow> duo_step a b (A, B) (A', B')"
| RightArrives: "deliver b a B A = (B', A') \<Longrightarrow> duo_step a b (A, B) (A', B')"

inductive duo_run :: "machine_id \<Rightarrow> machine_id \<Rightarrow> 'p duo \<Rightarrow> 'p duo \<Rightarrow> bool" for a b where
  DuoDone: "duo_run a b s s"
| DuoMore: "duo_run a b s t \<Longrightarrow> duo_step a b t u \<Longrightarrow> duo_run a b s u"

text \<open>Movements far enough apart: what one side sends has arrived before anyone moves again.\<close>
inductive calm_run :: "machine_id \<Rightarrow> machine_id \<Rightarrow> 'p duo \<Rightarrow> 'p duo \<Rightarrow> bool" for a b where
  CalmDone: "calm_run a b s s"
| CalmLeft: "calm_run a b s (A, B) \<Longrightarrow> route_captured [b] os ev A = Some A1 \<Longrightarrow>
    deliver_all a b A1 B = (A', B') \<Longrightarrow> calm_run a b s (A', B')"
| CalmRight: "calm_run a b s (A, B) \<Longrightarrow> route_captured [a] os ev B = Some B1 \<Longrightarrow>
    deliver_all b a B1 A = (B', A') \<Longrightarrow> calm_run a b s (A', B')"

text \<open>One side of the pair: the other machine is its only peer.\<close>
definition side_ok :: "machine_id \<Rightarrow> machine_id \<Rightarrow> 'p shared \<Rightarrow> bool" where
  "side_ok a b A \<longleftrightarrow> daemon_ok A \<and> sh_local_machine A = a \<and> dom (plinks A) = {b} \<and> outbox A b = []"

text \<open>Somebody's keyboard works on the machine it is attached to.\<close>
definition duo_ok :: "machine_id \<Rightarrow> machine_id \<Rightarrow> 'p duo \<Rightarrow> bool" where
  "duo_ok a b s \<longleftrightarrow> side_ok a b (fst s) \<and> side_ok b a (snd s) \<and>
     (active (fst s) = Local \<or> active (snd s) = Local)"

section \<open>Calm hand-overs\<close>

lemma outbox_link: "plinks A b = Some lk \<Longrightarrow> outbox A b = link_commands lk"
  by (simp add: outbox_def)

lemma daemon_ok_set_outbox: "daemon_ok A \<Longrightarrow> daemon_ok (set_outbox cs b A)"
  by (auto simp: set_outbox_def daemon_ok_def daemon_inv_set_commands layout_current_set_commands
      split: option.split)

lemma set_outbox_fields [simp]:
  "sh_local_machine (set_outbox cs b A) = sh_local_machine A" "active (set_outbox cs b A) = active A"
  "dom (plinks (set_outbox cs b A)) = dom (plinks A)"
  "plinks A b \<noteq> None \<Longrightarrow> outbox (set_outbox cs b A) b = cs"
  by (auto simp: set_outbox_def outbox_def split: option.split)

lemma daemon_ok_receive: "daemon_ok B \<Longrightarrow> daemon_ok (receive a c B)"
  by (cases c) (simp_all add: daemon_ok_def inject_def warp_def daemon_inv_call_sink daemon_inv_yield
      daemon_inv_follow layout_current_yield layout_current_follow)

lemma yield_fields [simp]:
  "plinks (yield_control_to_peer B) = plinks B"
  "sh_local_machine (yield_control_to_peer B) = sh_local_machine B"
  "active (yield_control_to_peer B) = Local"
  by (simp_all add: yield_control_to_peer_eq set_active_def emit_event_def)

lemma follow_fields [simp]:
  "plinks (follow_peer_cursor p x y B) = plinks B"
  "sh_local_machine (follow_peer_cursor p x y B) = sh_local_machine B"
  by (simp_all add: follow_peer_cursor_def Let_def split: option.split sum.split)

lemma receive_fields [simp]:
  "plinks (receive a c B) = plinks B" "sh_local_machine (receive a c B) = sh_local_machine B"
  by (cases c; simp add: inject_def)+

lemma side_ok_receive: "side_ok b a B \<Longrightarrow> side_ok b a (receive a c B)"
  by (simp add: side_ok_def daemon_ok_receive outbox_def)

lemma side_ok_drained:
  assumes "daemon_ok A" "sh_local_machine A = a" "dom (plinks A) = {b}"
  shows "side_ok a b (set_outbox [] b A)"
proof -
  have "plinks A b \<noteq> None" using assms(3) by blast
  then show ?thesis using assms by (simp add: side_ok_def daemon_ok_set_outbox)
qed

lemma linked_send_command [simp]: "plinks (send_command c m sh) x = None \<longleftrightarrow> plinks sh x = None"
  by (simp add: plinks_send_command)

lemma linked_broadcast [simp]: "plinks (broadcast ord c sh) x = None \<longleftrightarrow> plinks sh x = None"
  unfolding broadcast_def by (induction ord arbitrary: sh) simp_all

lemma linked_forward_to [simp]: "plinks (forward_to p ev sh) x = None \<longleftrightarrow> plinks sh x = None"
  by (simp add: forward_to_def split: option.split)

lemma linked_advance_cursor:
  assumes "advance_cursor ord d s = Some (k, s')"
  shows "plinks s' x = None \<longleftrightarrow> plinks s x = None"
proof -
  have "plinks (place_cursor_after_crossing ord c sh) x = None \<longleftrightarrow> plinks sh x = None" for c and sh :: "'a shared"
    by (simp add: place_cursor_after_crossing_def Let_def)
  then show ?thesis using assms
    by (simp add: advance_cursor_def Let_def split: option.splits sum.splits prod.splits) auto
qed

lemma route_captured_dom:
  assumes "route_captured ord os ev A = Some A'"
  shows "dom (plinks A') = dom (plinks A)"
proof -
  have os: "plinks (sync_cursor_to_os os A) = plinks A"
    by (simp add: sync_cursor_to_os_def split: option.split)
  have "plinks A' x = None \<longleftrightarrow> plinks A x = None" for x
  proof (cases "\<exists>d. ev = Motion d")
    case True
    then obtain d where d: "route_captured ord os (Motion d) A = Some A'" using assms by blast
    show ?thesis
    proof (cases "active A")
      case Local
      from Local d show ?thesis
        by (cases rule: route_motion_local) (auto dest!: linked_advance_cursor [where x = x] simp: os)
    next
      case (Remote p)
      from Remote d show ?thesis
        by (cases rule: route_motion_remote) (auto dest!: linked_advance_cursor [where x = x])
    qed
  next
    case False
    then have "plinks A' = (\<lambda>m. map_option (\<lambda>lk. if active A = Remote m
           then queued (InputCmd (swap_apply (link_modifier_swap lk) ev)) lk else lk) (plinks A m))"
      using captured_input_outcome [OF assms] by auto
    then show ?thesis by simp
  qed
  then show ?thesis unfolding dom_def by simp
qed

lemma route_captured_env:
  assumes "route_captured ord os ev A = Some A'"
  shows "sh_local_machine A' = sh_local_machine A"
proof -
  have adv: "sh_local_machine s' = sh_local_machine s"
    if "advance_cursor ord d s = Some (k, s')" for d k s' and s :: "'a shared"
    using that by (rule advance_cursor_env)
  have os: "sh_local_machine (sync_cursor_to_os os A) = sh_local_machine A"
    by (simp add: sync_cursor_to_os_def split: option.split)
  show ?thesis
    using assms os by (auto simp: route_captured_def bind_eq_Some_conv Let_def dest!: adv
        split: active_target.splits input_event.splits if_splits)
qed

lemma no_self_link:
  assumes "layout_current A" "plinks A (sh_local_machine A) = None"
  shows "neighbor (layout A) (sh_local_machine A) e \<noteq> Some (sh_local_machine A)"
proof
  assume n: "neighbor (layout A) (sh_local_machine A) e = Some (sh_local_machine A)"
  obtain ord where ord: "iterates ord (plinks A)"
    "layout A = built_layout (sh_local_machine A) (sh_local_screen A) (plinks A) ord"
    using assms(1) by (auto simp: layout_current_def)
  have "sh_local_machine A \<notin> set ord" "set ord \<subseteq> dom (plinks A)"
    using ord(1) assms(2) by (auto simp: iterates_def)
  from built_layout_local [OF this, of "sh_local_screen A" e] n ord(2)
  show False using \<open>sh_local_machine A \<notin> set ord\<close> find_Some_mem by fastforce
qed

text \<open>One side captures an event: what is then in its outbox, and where its input goes.\<close>
lemma side_captures:
  assumes "side_ok a b A" "a \<noteq> b" "route_captured [b] os ev A = Some A'"
  obtains (quiet) cs where "active A' = active A" "outbox A' b = map InputCmd cs"
  | (out) x y where "active A = Local" "active A' = Remote b" "outbox A' b = [WarpCmd x y]"
  | (home) x y where "active A = Remote b" "active A' = Local" "outbox A' b = [CursorReturnedCmd x y]"
proof -
  have ok: "daemon_inv A" "layout_current A" and loc: "sh_local_machine A = a"
    and links: "dom (plinks A) = {b}" using assms(1) by (simp_all add: side_ok_def daemon_ok_def)
  obtain lk where lk: "plinks A b = Some lk" using links by blast
  have empty: "link_commands lk = []" using assms(1) lk by (simp add: side_ok_def outbox_link)
  have it: "iterates [b] (plinks A)" using links by (simp add: iterates_def)
  have self: "plinks A (sh_local_machine A) = None" using links loc assms(2) by blast
  have act: "active A = Local \<or> active A = Remote b"
  proof (cases "active A")
    case (Remote p)
    have "sm_by_peer (sessions A) p \<noteq> None"
      using session_okD(4) [OF daemon_invD(1) [OF ok(1)]] Remote by fastforce
    then have "p \<in> dom (plinks A)" using daemon_invD(3) [OF ok(1), of p] by auto
    then show ?thesis using Remote links by simp
  qed simp
  show thesis
  proof (cases "\<exists>d. ev = Motion d")
    case False
    then have "plinks A' = (\<lambda>m. map_option (\<lambda>lk. if active A = Remote m
           then queued (InputCmd (swap_apply (link_modifier_swap lk) ev)) lk else lk) (plinks A m))"
      "sessions A' = sessions A"
      using captured_input_outcome [OF assms(3)] by auto
    then have "active A' = active A" "outbox A' b = map InputCmd
        (if active A = Remote b then [swap_apply (link_modifier_swap lk) ev] else [])"
      using lk empty by (auto simp: outbox_def queued_def)
    then show thesis by (rule quiet)
  next
    case True
    then obtain d where d: "route_captured [b] os (Motion d) A = Some A'" using assms(3) by blast
    show thesis
    proof (cases "active A")
      case Local
      have "active A' = Local \<and> plinks A' = plinks A \<or>
         (\<exists>p. active A' = Remote p \<and> plinks A p \<noteq> None \<and>
          plinks A' = (\<lambda>m. map_option (\<lambda>lk. if m = p then queued (WarpCmd
          (px (cursor_position (cursor A'))) (py (cursor_position (cursor A')))) lk else lk) (plinks A m)))"
        using motion_home_outcome [OF ok Local no_self_link [OF ok(2) self] d] by blast
      then consider "active A' = Local" "plinks A' = plinks A"
        | p where "active A' = Remote p" "p \<in> dom (plinks A)" "plinks A' = (\<lambda>m. map_option (\<lambda>lk. if m = p then queued (WarpCmd
          (px (cursor_position (cursor A'))) (py (cursor_position (cursor A')))) lk else lk) (plinks A m))"
        by blast
      then show thesis
      proof cases
        case 1
        then show thesis using Local lk empty by (intro quiet [of "[]"]) (simp_all add: outbox_def)
      next
        case (2 p)
        then have p: "p = b" using links by simp
        then have "outbox A' b = [WarpCmd (px (cursor_position (cursor A'))) (py (cursor_position (cursor A')))]"
          unfolding outbox_def 2(3) using lk empty by (simp add: queued_def)
        then show thesis using Local 2(1) p by (intro out) simp_all
      qed
    next
      case (Remote p)
      then have p: "active A = Remote b" using act by simp
      have "b \<noteq> sh_local_machine A" using loc assms(2) by simp
      from motion_away_outcome [OF ok it p this d]
      consider "active A' = Remote b" "plinks A' = (\<lambda>m. map_option (\<lambda>lk. if m = b then queued (InputCmd
          (Pointer (px (cursor_position (cursor A'))) (py (cursor_position (cursor A'))))) lk else lk) (plinks A m))"
        | "active A' = Local" "plinks A' = (\<lambda>m. map_option (queued (CursorReturnedCmd
          (px (cursor_position (cursor A'))) (py (cursor_position (cursor A'))))) (plinks A m))"
        by blast
      then show thesis
      proof cases
        case 1
        have "outbox A' b = map InputCmd [Pointer (px (cursor_position (cursor A'))) (py (cursor_position (cursor A')))]"
          unfolding outbox_def 1(2) using lk empty by (simp add: queued_def)
        then show thesis using 1(1) p
          by (intro quiet [of "[Pointer (px (cursor_position (cursor A'))) (py (cursor_position (cursor A')))]"])
            simp_all
      next
        case 2
        have "outbox A' b = [CursorReturnedCmd (px (cursor_position (cursor A'))) (py (cursor_position (cursor A')))]"
          unfolding outbox_def 2(2) using lk empty by (simp add: queued_def)
        then show thesis using 2(1) p by (intro home) simp_all
      qed
    qed
  qed
qed

lemma receive_inputs: "active (foldl (\<lambda>B c. receive a c B) B (map InputCmd cs)) = active B"
  by (induction cs arbitrary: B) (simp_all add: inject_def)

lemma side_ok_receive_all: "side_ok b a B \<Longrightarrow> side_ok b a (foldl (\<lambda>B c. receive a c B) B cs)"
  by (induction cs arbitrary: B) (simp_all add: side_ok_receive)

lemma one_side_moves:
  assumes "side_ok a b A" "side_ok b a B" "a \<noteq> b" "active A = Local \<or> active B = Local"
    and "route_captured [b] os ev A = Some A1" "deliver_all a b A1 B = (A', B')"
  shows "side_ok a b A' \<and> side_ok b a B' \<and> (active A' = Local \<or> active B' = Local)"
proof -
  have A': "A' = set_outbox [] b A1" and B': "B' = foldl (\<lambda>B c. receive a c B) B (outbox A1 b)"
    using assms(6) by (simp_all add: deliver_all_def)
  have "side_ok a b A'" unfolding A'
    using assms(1) daemon_ok_route [OF _ assms(5)] route_captured_env [OF assms(5)]
      route_captured_dom [OF assms(5)]
    by (intro side_ok_drained) (simp_all add: side_ok_def)
  moreover have "side_ok b a B'" unfolding B' by (rule side_ok_receive_all [OF assms(2)])
  moreover have "active A' = Local \<or> active B' = Local"
    using assms(1,3,5)
  proof (cases rule: side_captures)
    case (quiet cs)
    then show ?thesis using assms(4) by (simp add: A' B' receive_inputs)
  next
    case (out x y)
    then show ?thesis by (simp add: B')
  next
    case (home x y)
    then show ?thesis by (simp add: A')
  qed
  ultimately show ?thesis by blast
qed

lemma calm_run_ok:
  assumes "calm_run a b s t" "duo_ok a b s" "a \<noteq> b"
  shows "duo_ok a b t"
  using assms(1,2)
proof (induction rule: calm_run.induct)
  case (CalmDone s)
  then show ?case .
next
  case (CalmLeft s A B os ev A1 A' B')
  then show ?case using one_side_moves [of a b A B os ev A1 A' B'] assms(3) by (simp add: duo_ok_def)
next
  case (CalmRight s A B os ev B1 B' A')
  then show ?case using one_side_moves [of b a B A os ev B1 B' A'] assms(3) by (auto simp: duo_ok_def)
qed


section \<open>A pair of machines\<close>

text \<open>Machine \<open>a\<close> with its only peer \<open>b\<close> past the edge \<open>e\<close>, both screens alike, nothing moved yet.\<close>
definition demo_side :: "machine_id \<Rightarrow> machine_id \<Rightarrow> edge \<Rightarrow> mock_clipboard shared" where
  "demo_side a b e = (let lk = (demo_link \<lparr> width = 1920, height = 1080 \<rparr>) \<lparr> link_edge := e \<rparr> in
     \<lparr> sh_state = \<lparr> ds_sessions = \<lparr> sm_local = a, sm_sessions = [SessionId 9 \<mapsto>
           \<lparr> session_id = SessionId 9, session_peer = b, session_role = Controller \<rparr>],
           sm_by_peer = [b \<mapsto> SessionId 9], sm_active = Local, sm_events = \<lparr> recorded = [] \<rparr> \<rparr>,
         ds_layout = built_layout a \<lparr> width = 1920, height = 1080 \<rparr> [b \<mapsto> lk] [b],
         ds_cursor = \<lparr> cursor_machine = a, cursor_position = \<lparr> px = 0, py = 0 \<rparr> \<rparr>,
         ds_links = [b \<mapsto> lk], ds_pending = [], ds_placements = Map.empty, ds_modifier_swaps = Map.empty \<rparr>,
       sh_trust = \<lparr> trust_peers = [], trust_disk = None \<rparr>, sh_sink = Some [], sh_suppress = False,
       sh_local_machine = a, sh_local_fingerprint = Fingerprint [],
       sh_local_screen = \<lparr> width = 1920, height = 1080 \<rparr>, sh_port = 4733, sh_config = ConfigAbsent,
       sh_capturing = True, sh_clipboard = clipboard_new \<lparr> mock_content = None \<rparr> False,
       sh_clipboard_on = False, sh_changes = 0, sh_decisions = Map.empty \<rparr>)"

lemma demo_side_ok: "a \<noteq> b \<Longrightarrow> side_ok a b (demo_side a b e)" "active (demo_side a b e) = Local"
proof -
  assume ab: "a \<noteq> b"
  let ?A = "demo_side a b e"
  have "known_screens ?A = screens (layout ?A)"
    using ab by (simp add: demo_side_def Let_def known_screens_def screens_built_layout demo_link_def fun_eq_iff)
  moreover have "session_ok (sessions ?A)"
    by (auto simp: demo_side_def Let_def session_ok_def split: if_splits)
  ultimately have "daemon_inv ?A"
    using ab by (simp add: daemon_inv_def holder_def demo_side_def Let_def layout_ok_built_layout
        screens_built_layout demo_link_def in_bounds_def)
  moreover have "layout_current ?A"
    by (auto simp: layout_current_def iterates_def demo_side_def Let_def intro!: exI [of _ "[b]"])
  ultimately show "side_ok a b ?A"
    by (simp add: side_ok_def daemon_ok_def demo_side_def Let_def outbox_def demo_link_def)
qed (simp add: demo_side_def Let_def)


text \<open>Both users cross to the other machine and go straight back before any message arrives; then all four
  messages arrive.\<close>
definition race :: "machine_id \<Rightarrow> machine_id \<Rightarrow> 'p shared \<Rightarrow> 'p shared \<Rightarrow> 'p duo option" where
  "race a b A B = do {
     A \<leftarrow> route_captured [b] (Some (1919, 500)) (Motion \<lparr> dx = 9, dy = 0 \<rparr>) A;
     B \<leftarrow> route_captured [a] (Some (0, 500)) (Motion \<lparr> dx = - 9, dy = 0 \<rparr>) B;
     A \<leftarrow> route_captured [b] None (Motion \<lparr> dx = - 99, dy = 0 \<rparr>) A;
     B \<leftarrow> route_captured [a] None (Motion \<lparr> dx = 99, dy = 0 \<rparr>) B;
     let (A, B) = deliver a b A B;
     let (A, B) = deliver a b A B;
     let (B, A) = deliver b a B A;
     let (B, A) = deliver b a B A;
     Some (A, B) }"

lemma race_runs:
  assumes "race a b A B = Some (A', B')"
  shows "duo_run a b (A, B) (A', B')"
proof -
  obtain A1 B1 A2 B2 where r: "route_captured [b] (Some (1919, 500)) (Motion \<lparr> dx = 9, dy = 0 \<rparr>) A = Some A1"
    "route_captured [a] (Some (0, 500)) (Motion \<lparr> dx = - 9, dy = 0 \<rparr>) B = Some B1"
    "route_captured [b] None (Motion \<lparr> dx = - 99, dy = 0 \<rparr>) A1 = Some A2"
    "route_captured [a] None (Motion \<lparr> dx = 99, dy = 0 \<rparr>) B1 = Some B2"
    using assms by (auto simp: race_def bind_eq_Some_conv)
  obtain A3 B3 where d3: "deliver a b A2 B2 = (A3, B3)" by (cases "deliver a b A2 B2")
  obtain A4 B4 where d4: "deliver a b A3 B3 = (A4, B4)" by (cases "deliver a b A3 B3")
  obtain B5 A5 where d5: "deliver b a B4 A4 = (B5, A5)" by (cases "deliver b a B4 A4")
  obtain B6 A6 where d6: "deliver b a B5 A5 = (B6, A6)" by (cases "deliver b a B5 A5")
  have "A6 = A'" "B6 = B'" using assms r d3 d4 d5 d6 by (simp_all add: race_def)
  moreover have "duo_run a b (A, B) (A1, B)" by (rule DuoMore [OF DuoDone LeftCaptures]) (rule r)
  then have "duo_run a b (A, B) (A1, B1)" by (rule DuoMore [OF _ RightCaptures]) (rule r)
  then have "duo_run a b (A, B) (A2, B1)" by (rule DuoMore [OF _ LeftCaptures]) (rule r)
  then have "duo_run a b (A, B) (A2, B2)" by (rule DuoMore [OF _ RightCaptures]) (rule r)
  then have "duo_run a b (A, B) (A3, B3)" by (rule DuoMore [OF _ LeftArrives]) (rule d3)
  then have "duo_run a b (A, B) (A4, B4)" by (rule DuoMore [OF _ LeftArrives]) (rule d4)
  then have "duo_run a b (A, B) (A5, B5)" by (rule DuoMore [OF _ RightArrives]) (rule d5)
  then have "duo_run a b (A, B) (A6, B6)" by (rule DuoMore [OF _ RightArrives]) (rule d6)
  ultimately show ?thesis by simp
qed

lemma race_outcome:
  "(case race (MachineId 1) (MachineId 2) (demo_side (MachineId 1) (MachineId 2) RightEdge)
       (demo_side (MachineId 2) (MachineId 1) LeftEdge) of
      None \<Rightarrow> False
    | Some (A, B) \<Rightarrow> active A = Remote (MachineId 2) \<and> active B = Remote (MachineId 1) \<and>
        outbox A (MachineId 2) = [] \<and> outbox B (MachineId 1) = [] \<and>
        sh_suppress A \<and> sh_suppress B)"
  by code_simp


end
