(* ===== verification/Transport.thy ===== *)
theory Transport
  imports Protocol
begin

text \<open>
  \<^verbatim>\<open>crates/omni-transport/src/channel.rs\<close>, \<^verbatim>\<open>endpoint.rs\<close> and \<^verbatim>\<open>transport.rs\<close>: the port every
  connection implements, its in-memory implementation, and the sending of protocol messages over
  it.  The contract of a channel that loses nothing is the locale \<open>datagram_link\<close>; both directions
  of the loopback pair are interpretations of it.
\<close>

section \<open>The channel port\<close>

text \<open>\<^verbatim>\<open>Endpoint\<close> wraps a socket address; \<open>'a\<close> is that type.\<close>
datatype 'a endpoint = Endpoint (endpoint_addr: 'a)

section \<open>Messages over a channel\<close>

datatype 'e transport_error = ChannelError 'e | CodecError codec_error

text \<open>\<^verbatim>\<open>Transport\<close> holds nothing but its channel, so its operations act on the channel's state.\<close>
definition transport_send ::
  "(wire_message \<Rightarrow> u8 list option) \<Rightarrow> (u8 list \<Rightarrow> 'c \<Rightarrow> ('e + unit) \<times> 'c) \<Rightarrow>
   wire_message \<Rightarrow> 'c \<Rightarrow> ('e transport_error + unit) \<times> 'c" where
  "transport_send to_allocvec send_datagram message c =
     (case encode to_allocvec message of
        Inl e \<Rightarrow> (Inl (CodecError e), c)
      | Inr payload \<Rightarrow>
          (case send_datagram payload c of
             (Inl e, c) \<Rightarrow> (Inl (ChannelError e), c)
           | (Inr _, c) \<Rightarrow> (Inr (), c)))"

definition transport_recv ::
  "(u8 list \<Rightarrow> wire_message option) \<Rightarrow> ('c \<Rightarrow> ('e + u8 list option) \<times> 'c) \<Rightarrow>
   'c \<Rightarrow> ('e transport_error + wire_message option) \<times> 'c" where
  "transport_recv from_bytes recv_datagram c =
     (case recv_datagram c of
        (Inl e, c) \<Rightarrow> (Inl (ChannelError e), c)
      | (Inr None, c) \<Rightarrow> (Inr None, c)
      | (Inr (Some payload), c) \<Rightarrow>
          (case decode from_bytes payload of
             Inl e \<Rightarrow> (Inl (CodecError e), c)
           | Inr message \<Rightarrow> (Inr (Some message), c)))"

section \<open>The loopback pair\<close>

text \<open>The two queues the pair shares; side A sends into B's inbox and the other way round.\<close>
record 'a loopback =
  loop_addr_a :: "'a endpoint"
  loop_addr_b :: "'a endpoint"
  loop_inbox_a :: "u8 list list"
  loop_inbox_b :: "u8 list list"

definition loopback_pair :: "'a endpoint \<Rightarrow> 'a endpoint \<Rightarrow> 'a loopback" where
  "loopback_pair a b = \<lparr> loop_addr_a = a, loop_addr_b = b, loop_inbox_a = [], loop_inbox_b = [] \<rparr>"

definition peer_of_a :: "'a loopback \<Rightarrow> 'a endpoint" where "peer_of_a n = loop_addr_b n"
definition peer_of_b :: "'a loopback \<Rightarrow> 'a endpoint" where "peer_of_b n = loop_addr_a n"

definition send_from_a :: "u8 list \<Rightarrow> 'a loopback \<Rightarrow> (infallible + unit) \<times> 'a loopback" where
  "send_from_a payload n = (Inr (), n \<lparr> loop_inbox_b := loop_inbox_b n @ [payload] \<rparr>)"

definition send_from_b :: "u8 list \<Rightarrow> 'a loopback \<Rightarrow> (infallible + unit) \<times> 'a loopback" where
  "send_from_b payload n = (Inr (), n \<lparr> loop_inbox_a := loop_inbox_a n @ [payload] \<rparr>)"

definition recv_at_a :: "'a loopback \<Rightarrow> (infallible + u8 list option) \<times> 'a loopback" where
  "recv_at_a n = (case loop_inbox_a n of
      [] \<Rightarrow> (Inr None, n)
    | p # ps \<Rightarrow> (Inr (Some p), n \<lparr> loop_inbox_a := ps \<rparr>))"

definition recv_at_b :: "'a loopback \<Rightarrow> (infallible + u8 list option) \<times> 'a loopback" where
  "recv_at_b n = (case loop_inbox_b n of
      [] \<Rightarrow> (Inr None, n)
    | p # ps \<Rightarrow> (Inr (Some p), n \<lparr> loop_inbox_b := ps \<rparr>))"

section \<open>The contract of a channel that loses nothing\<close>

text \<open>One direction of a connection: what waits at the far end is a queue, sending appends to it
  and receiving takes from its front.\<close>
locale datagram_link =
  fixes send :: "u8 list \<Rightarrow> 'c \<Rightarrow> ('e + unit) \<times> 'c"
    and recv :: "'c \<Rightarrow> ('f + u8 list option) \<times> 'c"
    and waiting :: "'c \<Rightarrow> u8 list list"
  assumes send_appends: "fst (send p c) = Inr () \<and> waiting (snd (send p c)) = waiting c @ [p]"
    and recv_none: "waiting c = [] \<Longrightarrow> recv c = (Inr None, c)"
    and recv_some: "waiting c = p # ps \<Longrightarrow> fst (recv c) = Inr (Some p) \<and> waiting (snd (recv c)) = ps"
begin

lemma send_one:
  assumes "to_allocvec m = Some bs"
  shows "fst (transport_send to_allocvec send m c) = Inr () \<and>
         waiting (snd (transport_send to_allocvec send m c)) = waiting c @ [bs]"
  using send_appends [of bs c] assms
  by (auto simp: transport_send_def encode_def split: prod.splits sum.splits)

lemma recv_one:
  assumes "waiting c = p # ps"
  shows "fst (transport_recv from_bytes recv c) =
           (case decode from_bytes p of Inl e \<Rightarrow> Inl (CodecError e) | Inr m \<Rightarrow> Inr (Some m)) \<and>
         waiting (snd (transport_recv from_bytes recv c)) = ps"
  using recv_some [OF assms] by (auto simp: transport_recv_def split: prod.splits sum.splits)

lemma send_all:
  assumes "\<forall>m\<in>set ms. to_allocvec m \<noteq> None"
  shows "fst (send_each (transport_send to_allocvec send) ms c) = Inr () \<and>
         waiting (snd (send_each (transport_send to_allocvec send) ms c)) =
           waiting c @ map (\<lambda>m. the (to_allocvec m)) ms"
  using assms
proof (induction ms arbitrary: c)
  case Nil
  then show ?case by simp
next
  case (Cons m ms)
  then obtain bs where bs: "to_allocvec m = Some bs" by auto
  obtain c1 where c1: "transport_send to_allocvec send m c = (Inr (), c1)"
    and w: "waiting c1 = waiting c @ [bs]"
    using send_one [of to_allocvec m bs c, OF bs] by (cases "transport_send to_allocvec send m c") auto
  show ?case using Cons.IH [of c1] Cons.prems bs by (simp add: c1 w)
qed

lemma recv_all:
  assumes "postcard_law to_allocvec from_bytes"
    and "\<forall>m\<in>set ms. to_allocvec m \<noteq> None"
    and "waiting c = map (\<lambda>m. the (to_allocvec m)) ms @ rest"
  shows "fst (recv_times (transport_recv from_bytes recv) (length ms) c) = map (\<lambda>m. Inr (Some m)) ms \<and>
         waiting (snd (recv_times (transport_recv from_bytes recv) (length ms) c)) = rest"
  using assms(2,3)
proof (induction ms arbitrary: c)
  case Nil
  then show ?case by simp
next
  case (Cons m ms)
  then obtain bs where bs: "to_allocvec m = Some bs" by auto
  with assms(1) have d: "decode from_bytes bs = Inr m"
    using decode_encode [of to_allocvec from_bytes m bs] by (simp add: encode_def)
  have w: "waiting c = bs # map (\<lambda>m. the (to_allocvec m)) ms @ rest" using Cons.prems(2) bs by simp
  obtain c1 where c1: "transport_recv from_bytes recv c = (Inr (Some m), c1)"
    and w1: "waiting c1 = map (\<lambda>m. the (to_allocvec m)) ms @ rest"
    using recv_one [OF w, of from_bytes] d by (cases "transport_recv from_bytes recv c") auto
  show ?case using Cons.IH [OF _ w1] Cons.prems(1) by (auto simp: c1 split: prod.splits)
qed

lemma delivered_in_order:
  assumes "postcard_law to_allocvec from_bytes"
    and "\<forall>m\<in>set ms. to_allocvec m \<noteq> None" and "waiting c = []"
  shows "fst (recv_times (transport_recv from_bytes recv) (length ms)
           (snd (send_each (transport_send to_allocvec send) ms c))) = map (\<lambda>m. Inr (Some m)) ms"
  using recv_all [OF assms(1,2), of _ "[]"] send_all [OF assms(2), of c] assms(3) by simp

end

interpretation a_to_b: datagram_link send_from_a recv_at_b loop_inbox_b
  by unfold_locales (auto simp: send_from_a_def recv_at_b_def)

interpretation b_to_a: datagram_link send_from_b recv_at_a loop_inbox_a
  by unfold_locales (auto simp: send_from_b_def recv_at_a_def)

text \<open>What one side sends does not reach its own inbox.\<close>
lemma own_inbox_kept [simp]:
  "loop_inbox_a (snd (send_each (transport_send to_allocvec send_from_a) ms n)) = loop_inbox_a n"
  "loop_inbox_b (snd (send_each (transport_send to_allocvec send_from_b) ms n)) = loop_inbox_b n"
  by (induction ms arbitrary: n)
    (auto simp: transport_send_def send_from_a_def send_from_b_def split: prod.splits sum.splits)

lemma recv_own_empty:
  "loop_inbox_a n = [] \<Longrightarrow> fst (transport_recv from_bytes recv_at_a n) = Inr None"
  "loop_inbox_b n = [] \<Longrightarrow> fst (transport_recv from_bytes recv_at_b n) = Inr None"
  by (simp_all add: transport_recv_def recv_at_a_def recv_at_b_def)

section \<open>Properties\<close>

text \<open>Over the loopback pair every message arrives, in order and unchanged, whichever side sends,
  and what one side sends does not appear in its own inbox.  The codec is any one whose decoding
  undoes its encoding.\<close>
theorem loopback_delivers:
  assumes "postcard_law to_allocvec from_bytes" and "\<forall>m\<in>set ms. to_allocvec m \<noteq> None"
  shows "(let n = snd (send_each (transport_send to_allocvec send_from_a) ms (loopback_pair x y)) in
            fst (recv_times (transport_recv from_bytes recv_at_b) (length ms) n) = map (\<lambda>m. Inr (Some m)) ms \<and>
            fst (transport_recv from_bytes recv_at_a n) = Inr None) \<and>
         (let n = snd (send_each (transport_send to_allocvec send_from_b) ms (loopback_pair x y)) in
            fst (recv_times (transport_recv from_bytes recv_at_a) (length ms) n) = map (\<lambda>m. Inr (Some m)) ms \<and>
            fst (transport_recv from_bytes recv_at_b n) = Inr None)"
  using a_to_b.delivered_in_order [OF assms, of "loopback_pair x y"]
    b_to_a.delivered_in_order [OF assms, of "loopback_pair x y"]
  by (simp add: Let_def recv_own_empty loopback_pair_def)

text \<open>A codec for the witnesses: it knows the heartbeat of one session and the pointer of another.\<close>
definition demo_message_a :: wire_message where
  "demo_message_a = Control (Heartbeat (SessionId 7))"

definition demo_message_b :: wire_message where
  "demo_message_b = Input (SessionId 7) (Pointer 3 4)"

definition demo_ser :: "wire_message \<Rightarrow> u8 list option" where
  "demo_ser m = (if m = demo_message_a then Some [1, 7] else if m = demo_message_b then Some [0, 3, 4] else None)"

definition demo_des :: "u8 list \<Rightarrow> wire_message option" where
  "demo_des bs = (if bs = [1, 7] then Some demo_message_a else if bs = [0, 3, 4] then Some demo_message_b else None)"

lemma demo_codec: "postcard_law demo_ser demo_des"
  by (auto simp: postcard_law_def demo_ser_def demo_des_def demo_message_a_def demo_message_b_def)

lemma demo_ser_messages:
  "demo_ser demo_message_a = Some [1, 7]" "demo_ser demo_message_b = Some [0, 3, 4]"
  by (simp_all add: demo_ser_def demo_message_a_def demo_message_b_def)

lemma loopback_delivers_witness:
  "fst (recv_times (transport_recv demo_des recv_at_b) 2
     (snd (send_each (transport_send demo_ser send_from_a) [demo_message_b, demo_message_a]
       (loopback_pair (Endpoint False) (Endpoint True))))) =
   [Inr (Some demo_message_b), Inr (Some demo_message_a)]"
  using loopback_delivers [OF demo_codec, of "[demo_message_b, demo_message_a]" "Endpoint False" "Endpoint True"]
  by (simp add: demo_ser_messages Let_def numeral_2_eq_2)

end
