(* ===== verification/Quic.thy ===== *)
theory Quic
  imports Transport
begin

text \<open>
  \<^verbatim>\<open>crates/omni-transport/src/quic.rs\<close>: messages framed on reliable streams (the control stream and
  the bulk streams), the datagrams of a connection, and the sending task for clipboard payloads of
  \<^verbatim>\<open>daemon.rs\<close>.  The streams of the quinn library are arguments; \<open>stream_law\<close>, \<open>write_law\<close> and
  \<open>uni_law\<close> state what its documentation promises of them while the connection lasts: bytes arrive
  in the order they were written, and reading past the end reports how many were left.
\<close>

unbundle bit_operations_syntax

section \<open>Constants and errors\<close>

definition MAX_CONTROL_FRAME :: nat where "MAX_CONTROL_FRAME = 64 * 1024"
definition MAX_BULK_FRAME :: nat where "MAX_BULK_FRAME = MAX_CLIPBOARD_BYTES + 1024"

text \<open>\<^verbatim>\<open>quinn::ReadExactError\<close>.\<close>
datatype read_exact_error = FinishedEarly nat | StreamReadError

datatype quic_error =
    BindFailed | ConfigInvalid string | ConnectFailed | ConnectionFailed | DatagramFailed
  | WriteFailed | ReadFailed read_exact_error | QuicCodec codec_error
  | ControlFrameTooLarge nat | BulkFrameTooLarge nat | MissingPeerCertificate

section \<open>Frame headers\<close>

text \<open>\<^verbatim>\<open>u32::to_be_bytes\<close> and \<^verbatim>\<open>u32::from_be_bytes\<close>.\<close>
definition u32_to_be :: "u32 \<Rightarrow> u8 list" where
  "u32_to_be w = [ucast (drop_bit 24 w), ucast (drop_bit 16 w), ucast (drop_bit 8 w), ucast w]"

definition u32_from_be :: "u8 list \<Rightarrow> u32" where
  "u32_from_be bs = foldl (\<lambda>acc b. push_bit 8 acc OR ucast b) 0 bs"

lemma length_u32_to_be [simp]: "length (u32_to_be w) = 4"
  by (simp add: u32_to_be_def)

lemma u32_from_to_be [simp]: "u32_from_be (u32_to_be w) = w"
proof (rule bit_word_eqI)
  fix n :: nat assume "n < LENGTH(32)"
  then have "n < 32" by simp
  then consider "n < 8" | "8 \<le> n" "n < 16" | "16 \<le> n" "n < 24" | "24 \<le> n" "n < 32" by linarith
  then show "bit (u32_from_be (u32_to_be w)) n = bit w n"
    by cases (auto simp: u32_to_be_def u32_from_be_def bit_simps)
qed

text \<open>The limit is checked before anything of the announced size is allocated.\<close>
definition frame_len :: "u8 list \<Rightarrow> nat \<Rightarrow> nat + nat" where
  "frame_len header limit =
     (let len = unat (u32_from_be header) in if limit < len then Inl len else Inr len)"

lemma frame_len_header:
  "n < 2 ^ 32 \<Longrightarrow> frame_len (u32_to_be (of_nat n)) limit = (if limit < n then Inl n else Inr n)"
  by (simp add: frame_len_def unsigned_of_nat take_bit_nat_eq_self)

section \<open>The control stream\<close>

text \<open>\<open>write_all\<close> says whether the stream took the bytes.\<close>
definition control_send ::
  "(wire_message \<Rightarrow> u8 list option) \<Rightarrow> (u8 list \<Rightarrow> 's \<Rightarrow> bool \<times> 's) \<Rightarrow>
   wire_message \<Rightarrow> 's \<Rightarrow> (quic_error + unit) \<times> 's" where
  "control_send to_allocvec write_all message s =
     (case encode to_allocvec message of
        Inl e \<Rightarrow> (Inl (QuicCodec e), s)
      | Inr payload \<Rightarrow>
          if 2 ^ 32 \<le> length payload then (Inl (ControlFrameTooLarge (length payload)), s)
          else
            let (ok, s) = write_all (u32_to_be (of_nat (length payload))) s
            in if \<not> ok then (Inl WriteFailed, s)
               else
                 let (ok, s) = write_all payload s
                 in (if ok then Inr () else Inl WriteFailed, s))"

text \<open>Receiving is two reads: the header, then the payload it announces.\<close>
definition control_recv_header ::
  "(nat \<Rightarrow> 's \<Rightarrow> (read_exact_error + u8 list) \<times> 's) \<Rightarrow> 's \<Rightarrow> (quic_error + nat option) \<times> 's" where
  "control_recv_header read_exact s =
     (case read_exact 4 s of
        (Inl (FinishedEarly 0), s) \<Rightarrow> (Inr None, s)
      | (Inl e, s) \<Rightarrow> (Inl (ReadFailed e), s)
      | (Inr header, s) \<Rightarrow>
          (case frame_len header MAX_CONTROL_FRAME of
             Inl len \<Rightarrow> (Inl (ControlFrameTooLarge len), s)
           | Inr len \<Rightarrow> (Inr (Some len), s)))"

definition recv_payload ::
  "(nat \<Rightarrow> 's \<Rightarrow> (read_exact_error + u8 list) \<times> 's) \<Rightarrow> (u8 list \<Rightarrow> wire_message option) \<Rightarrow>
   nat \<Rightarrow> 's \<Rightarrow> (quic_error + wire_message) \<times> 's" where
  "recv_payload read_exact from_bytes len s =
     (case read_exact len s of
        (Inl e, s) \<Rightarrow> (Inl (ReadFailed e), s)
      | (Inr payload, s) \<Rightarrow>
          (case decode from_bytes payload of
             Inl e \<Rightarrow> (Inl (QuicCodec e), s)
           | Inr message \<Rightarrow> (Inr message, s)))"

definition control_recv ::
  "(nat \<Rightarrow> 's \<Rightarrow> (read_exact_error + u8 list) \<times> 's) \<Rightarrow> (u8 list \<Rightarrow> wire_message option) \<Rightarrow>
   's \<Rightarrow> (quic_error + wire_message option) \<times> 's" where
  "control_recv read_exact from_bytes s =
     (case control_recv_header read_exact s of
        (Inl e, s) \<Rightarrow> (Inl e, s)
      | (Inr None, s) \<Rightarrow> (Inr None, s)
      | (Inr (Some len), s) \<Rightarrow>
          (case recv_payload read_exact from_bytes len s of
             (Inl e, s) \<Rightarrow> (Inl e, s)
           | (Inr message, s) \<Rightarrow> (Inr (Some message), s)))"

section \<open>Bulk streams\<close>

text \<open>One stream for each payload; \<open>open_uni\<close> gives its handle.\<close>
definition bulk_send ::
  "(wire_message \<Rightarrow> u8 list option) \<Rightarrow> ('c \<Rightarrow> 'i option \<times> 'c) \<Rightarrow> ('i \<Rightarrow> u8 list \<Rightarrow> 'c \<Rightarrow> bool \<times> 'c) \<Rightarrow>
   ('i \<Rightarrow> 'c \<Rightarrow> 'c) \<Rightarrow> wire_message \<Rightarrow> 'c \<Rightarrow> (quic_error + unit) \<times> 'c" where
  "bulk_send to_allocvec open_uni write_all finish message c =
     (case encode to_allocvec message of
        Inl e \<Rightarrow> (Inl (QuicCodec e), c)
      | Inr payload \<Rightarrow>
          if MAX_BULK_FRAME < length payload then (Inl (BulkFrameTooLarge (length payload)), c)
          else if 2 ^ 32 \<le> length payload then (Inl (BulkFrameTooLarge (length payload)), c)
          else
            (case open_uni c of
               (None, c) \<Rightarrow> (Inl ConnectionFailed, c)
             | (Some i, c) \<Rightarrow>
                 let (ok, c) = write_all i (u32_to_be (of_nat (length payload))) c
                 in if \<not> ok then (Inl WriteFailed, c)
                    else
                      let (ok, c) = write_all i payload c
                      in if \<not> ok then (Inl WriteFailed, c) else (Inr (), finish i c)))"

definition read_bulk_frame ::
  "(nat \<Rightarrow> 's \<Rightarrow> (read_exact_error + u8 list) \<times> 's) \<Rightarrow> (u8 list \<Rightarrow> wire_message option) \<Rightarrow>
   's \<Rightarrow> quic_error + wire_message" where
  "read_bulk_frame read_exact from_bytes s =
     (case read_exact 4 s of
        (Inl e, s) \<Rightarrow> Inl (ReadFailed e)
      | (Inr header, s) \<Rightarrow>
          (case frame_len header MAX_BULK_FRAME of
             Inl len \<Rightarrow> Inl (BulkFrameTooLarge len)
           | Inr len \<Rightarrow> fst (recv_payload read_exact from_bytes len s)))"

text \<open>The pump of a connection, over the streams the peer opens, in the order it opens them.\<close>
fun bulk_pump ::
  "(nat \<Rightarrow> 's \<Rightarrow> (read_exact_error + u8 list) \<times> 's) \<Rightarrow> (u8 list \<Rightarrow> wire_message option) \<Rightarrow>
   's list \<Rightarrow> wire_message list" where
  "bulk_pump read_exact from_bytes [] = []"
| "bulk_pump read_exact from_bytes (s # ss) =
     (case read_bulk_frame read_exact from_bytes s of
        Inr message \<Rightarrow> message # bulk_pump read_exact from_bytes ss
      | Inl e \<Rightarrow> bulk_pump read_exact from_bytes ss)"

text \<open>\<^verbatim>\<open>run_clipboard_sender\<close>: the task that writes one payload after another.  It returns what was
  left in its queue when it ended.\<close>
fun run_clipboard_sender ::
  "(clipboard_data \<Rightarrow> 'c \<Rightarrow> bool \<times> 'c) \<Rightarrow> clipboard_data list \<Rightarrow> 'c \<Rightarrow> clipboard_data list \<times> 'c" where
  "run_clipboard_sender send [] c = ([], c)"
| "run_clipboard_sender send (d # ds) c =
     (let (ok, c) = send d c in if \<not> ok then (ds, c) else run_clipboard_sender send ds c)"

text \<open>The closure \<^verbatim>\<open>run_peer\<close> hands it.\<close>
definition send_clipboard ::
  "(wire_message \<Rightarrow> u8 list option) \<Rightarrow> ('c \<Rightarrow> 'i option \<times> 'c) \<Rightarrow> ('i \<Rightarrow> u8 list \<Rightarrow> 'c \<Rightarrow> bool \<times> 'c) \<Rightarrow>
   ('i \<Rightarrow> 'c \<Rightarrow> 'c) \<Rightarrow> clipboard_data \<Rightarrow> 'c \<Rightarrow> bool \<times> 'c" where
  "send_clipboard to_allocvec open_uni write_all finish d c =
     (case bulk_send to_allocvec open_uni write_all finish (Clipboard d) c of
        (Inr _, c) \<Rightarrow> (True, c)
      | (Inl _, c) \<Rightarrow> (False, c))"

section \<open>The connection\<close>

record quic_connection =
  qc_fingerprint :: fingerprint
  qc_datagrams :: "u8 list list"
  qc_pumping :: bool
  qc_bulk :: "wire_message list option"

text \<open>The certificates of the TLS session, if there are any; \<open>fingerprint_of\<close> is SHA-256.\<close>
definition quic_peer_fingerprint ::
  "(u8 list \<Rightarrow> fingerprint) \<Rightarrow> u8 list list option \<Rightarrow> quic_error + fingerprint" where
  "quic_peer_fingerprint fingerprint_of identity =
     (case identity of
        None \<Rightarrow> Inl MissingPeerCertificate
      | Some [] \<Rightarrow> Inl MissingPeerCertificate
      | Some (end_entity # _) \<Rightarrow> Inr (fingerprint_of end_entity))"

definition quic_wrap ::
  "(u8 list \<Rightarrow> fingerprint) \<Rightarrow> u8 list list option \<Rightarrow> quic_error + quic_connection" where
  "quic_wrap fingerprint_of identity =
     (case quic_peer_fingerprint fingerprint_of identity of
        Inl e \<Rightarrow> Inl e
      | Inr f \<Rightarrow> Inr \<lparr> qc_fingerprint = f, qc_datagrams = [], qc_pumping = True, qc_bulk = Some [] \<rparr>)"

text \<open>One turn of the datagram pump, and its end when the connection closes.\<close>
definition pump_datagram :: "u8 list option \<Rightarrow> quic_connection \<Rightarrow> quic_connection" where
  "pump_datagram d c =
     (case d of
        Some payload \<Rightarrow> c \<lparr> qc_datagrams := qc_datagrams c @ [payload] \<rparr>
      | None \<Rightarrow> c \<lparr> qc_pumping := False \<rparr>)"

definition take_bulk_receiver :: "quic_connection \<Rightarrow> wire_message list option \<times> quic_connection" where
  "take_bulk_receiver c = (qc_bulk c, c \<lparr> qc_bulk := None \<rparr>)"

definition quic_recv_datagram :: "quic_connection \<Rightarrow> (quic_error + u8 list option) \<times> quic_connection" where
  "quic_recv_datagram c =
     (case qc_datagrams c of
        p # ps \<Rightarrow> (Inr (Some p), c \<lparr> qc_datagrams := ps \<rparr>)
      | [] \<Rightarrow> if qc_pumping c then (Inr None, c) else (Inl ConnectionFailed, c))"

text \<open>The outer \<^const>\<open>None\<close> is a call that is still waiting.\<close>
definition recv_datagram_async :: "quic_connection \<Rightarrow> (u8 list option \<times> quic_connection) option" where
  "recv_datagram_async c =
     (case qc_datagrams c of
        p # ps \<Rightarrow> Some (Some p, c \<lparr> qc_datagrams := ps \<rparr>)
      | [] \<Rightarrow> if qc_pumping c then None else Some (None, c))"

definition recv_async ::
  "(u8 list \<Rightarrow> wire_message option) \<Rightarrow> quic_connection \<Rightarrow>
   ((quic_error transport_error + wire_message option) \<times> quic_connection) option" where
  "recv_async from_bytes c =
     (case recv_datagram_async c of
        None \<Rightarrow> None
      | Some (None, c) \<Rightarrow> Some (Inr None, c)
      | Some (Some payload, c) \<Rightarrow>
          Some (case decode from_bytes payload of
                  Inl e \<Rightarrow> Inl (CodecError e)
                | Inr message \<Rightarrow> Inr (Some message), c))"

section \<open>What the streams promise\<close>

text \<open>The receiving end of a stream that was delivered and finished: \<open>content\<close> is what is left.\<close>
definition stream_law ::
  "('r \<Rightarrow> u8 list) \<Rightarrow> (nat \<Rightarrow> 'r \<Rightarrow> (read_exact_error + u8 list) \<times> 'r) \<Rightarrow> bool" where
  "stream_law content read_exact \<longleftrightarrow>
     (\<forall>n r. if n \<le> length (content r)
            then fst (read_exact n r) = Inr (take n (content r)) \<and>
                 content (snd (read_exact n r)) = drop n (content r)
            else fst (read_exact n r) = Inl (FinishedEarly (length (content r))))"

text \<open>The sending end while the peer takes what is written: \<open>written\<close> is everything so far.\<close>
definition write_law :: "('s \<Rightarrow> u8 list) \<Rightarrow> (u8 list \<Rightarrow> 's \<Rightarrow> bool \<times> 's) \<Rightarrow> bool" where
  "write_law written write_all \<longleftrightarrow>
     (\<forall>bs s. fst (write_all bs s) \<and> written (snd (write_all bs s)) = written s @ bs)"

text \<open>The streams of a connection while it lasts: \<open>streams\<close> is the contents of those opened so far
  and whether they are finished; a handle belongs to one of them.\<close>
definition uni_law ::
  "('c \<Rightarrow> (u8 list \<times> bool) list) \<Rightarrow> ('i \<Rightarrow> nat) \<Rightarrow> ('c \<Rightarrow> 'i option \<times> 'c) \<Rightarrow>
   ('i \<Rightarrow> u8 list \<Rightarrow> 'c \<Rightarrow> bool \<times> 'c) \<Rightarrow> ('i \<Rightarrow> 'c \<Rightarrow> 'c) \<Rightarrow> bool" where
  "uni_law streams index open_uni write_all finish \<longleftrightarrow>
     (\<forall>c. (case open_uni c of
             (None, _) \<Rightarrow> False
           | (Some i, c') \<Rightarrow> index i = length (streams c) \<and> streams c' = streams c @ [([], False)])) \<and>
     (\<forall>i bs c. index i < length (streams c) \<longrightarrow>
        fst (write_all i bs c) \<and>
        streams (snd (write_all i bs c)) =
          (streams c)[index i := (fst (streams c ! index i) @ bs, snd (streams c ! index i))]) \<and>
     (\<forall>i c. index i < length (streams c) \<longrightarrow>
        streams (finish i c) = (streams c)[index i := (fst (streams c ! index i), True)])"

definition frame :: "u8 list \<Rightarrow> u8 list" where
  "frame payload = u32_to_be (of_nat (length payload)) @ payload"

lemma read_exact_ok:
  assumes "stream_law content read_exact" and "content r = xs @ rest"
  obtains r' where "read_exact (length xs) r = (Inr xs, r')" and "content r' = rest"
proof -
  have "fst (read_exact (length xs) r) = Inr xs \<and> content (snd (read_exact (length xs) r)) = rest"
    using assms(1) [unfolded stream_law_def, rule_format, of "length xs" r] assms(2) by simp
  then show thesis using that by (cases "read_exact (length xs) r") auto
qed

lemma read_exact_short:
  assumes "stream_law content read_exact" and "length (content r) < n"
  obtains r' where "read_exact n r = (Inl (FinishedEarly (length (content r))), r')"
proof -
  have "fst (read_exact n r) = Inl (FinishedEarly (length (content r)))"
    using assms(1) [unfolded stream_law_def, rule_format, of n r] assms(2) by simp
  then show thesis using that by (cases "read_exact n r") auto
qed

lemma recv_payload_ok:
  assumes "stream_law content read_exact" and "content r = bs @ rest" and "decode from_bytes bs = Inr m"
  obtains r' where "recv_payload read_exact from_bytes (length bs) r = (Inr m, r')" and "content r' = rest"
proof -
  obtain r' where "read_exact (length bs) r = (Inr bs, r')" "content r' = rest"
    using read_exact_ok [OF assms(1,2)] .
  then show thesis using assms(3) that by (simp add: recv_payload_def)
qed

lemma read_header_ok:
  assumes "stream_law content read_exact" and "content r = frame bs @ rest"
  obtains r' where "read_exact 4 r = (Inr (u32_to_be (of_nat (length bs))), r')" and "content r' = bs @ rest"
proof -
  have "content r = u32_to_be (of_nat (length bs)) @ bs @ rest" using assms(2) by (simp add: frame_def)
  then obtain r' where "read_exact (length (u32_to_be (of_nat (length bs)))) r =
      (Inr (u32_to_be (of_nat (length bs))), r')" "content r' = bs @ rest"
    using read_exact_ok [OF assms(1)] by blast
  then show thesis using that by simp
qed

lemma control_recv_header_ok:
  assumes "stream_law content read_exact" and "content r = frame bs @ rest"
    and "length bs \<le> MAX_CONTROL_FRAME"
  obtains r' where "control_recv_header read_exact r = (Inr (Some (length bs)), r')" and "content r' = bs @ rest"
proof -
  obtain r' where "read_exact 4 r = (Inr (u32_to_be (of_nat (length bs))), r')" "content r' = bs @ rest"
    using read_header_ok [OF assms(1,2)] .
  then show thesis
    using assms(3) that by (simp add: control_recv_header_def frame_len_header MAX_CONTROL_FRAME_def)
qed

lemma control_recv_ok:
  assumes "stream_law content read_exact" and "content r = frame bs @ rest"
    and "length bs \<le> MAX_CONTROL_FRAME" and "decode from_bytes bs = Inr m"
  obtains r' where "control_recv read_exact from_bytes r = (Inr (Some m), r')" and "content r' = rest"
proof -
  obtain r1 where h: "control_recv_header read_exact r = (Inr (Some (length bs)), r1)"
    and c: "content r1 = bs @ rest"
    using control_recv_header_ok [OF assms(1-3)] .
  obtain r2 where "recv_payload read_exact from_bytes (length bs) r1 = (Inr m, r2)" "content r2 = rest"
    using recv_payload_ok [OF assms(1) c assms(4)] .
  then show thesis using that h by (simp add: control_recv_def)
qed

lemma control_recv_end:
  assumes "stream_law content read_exact" and "content r = []"
  shows "fst (control_recv read_exact from_bytes r) = Inr None"
proof -
  obtain r' where "read_exact 4 r = (Inl (FinishedEarly 0), r')"
    using read_exact_short [OF assms(1), of r 4] assms(2) by auto
  then show ?thesis by (simp add: control_recv_def control_recv_header_def)
qed

lemma control_send_ok:
  assumes "write_law written write_all" and "to_allocvec m = Some bs" and "length bs < 2 ^ 32"
  obtains s' where "control_send to_allocvec write_all m s = (Inr (), s')" and "written s' = written s @ frame bs"
proof -
  have w: "\<exists>s'. write_all xs s = (True, s') \<and> written s' = written s @ xs" for xs s
    using assms(1) unfolding write_law_def by (metis (full_types) prod.collapse)
  obtain s1 where s1: "write_all (u32_to_be (of_nat (length bs))) s = (True, s1)"
    "written s1 = written s @ u32_to_be (of_nat (length bs))" using w by blast
  obtain s2 where s2: "write_all bs s1 = (True, s2)" "written s2 = written s1 @ bs" using w by blast
  show thesis
    using assms(2,3) s1 s2 that by (simp add: control_send_def encode_def frame_def)
qed

section \<open>Properties\<close>

lemma control_send_each:
  assumes "write_law written write_all"
    and "\<forall>m\<in>set ms. \<exists>bs. to_allocvec m = Some bs \<and> length bs < 2 ^ 32"
  shows "fst (send_each (control_send to_allocvec write_all) ms s) = Inr () \<and>
         written (snd (send_each (control_send to_allocvec write_all) ms s)) =
           written s @ concat (map (\<lambda>m. frame (the (to_allocvec m))) ms)"
  using assms(2)
proof (induction ms arbitrary: s)
  case Nil
  then show ?case by simp
next
  case (Cons m ms)
  then obtain bs where bs: "to_allocvec m = Some bs" "length bs < 2 ^ 32" by auto
  obtain s' where "control_send to_allocvec write_all m s = (Inr (), s')" "written s' = written s @ frame bs"
    using control_send_ok [of written write_all to_allocvec m bs s, OF assms(1) bs] .
  then show ?case using Cons.IH [of s'] Cons.prems bs by simp
qed

lemma control_recv_each:
  assumes "stream_law content read_exact" and "postcard_law to_allocvec from_bytes"
    and "\<forall>m\<in>set ms. \<exists>bs. to_allocvec m = Some bs \<and> length bs \<le> MAX_CONTROL_FRAME"
    and "content r = concat (map (\<lambda>m. frame (the (to_allocvec m))) ms) @ rest"
  shows "fst (recv_times (control_recv read_exact from_bytes) (length ms) r) = map (\<lambda>m. Inr (Some m)) ms \<and>
         content (snd (recv_times (control_recv read_exact from_bytes) (length ms) r)) = rest"
  using assms(3,4)
proof (induction ms arbitrary: r)
  case Nil
  then show ?case by simp
next
  case (Cons m ms)
  then obtain bs where bs: "to_allocvec m = Some bs" "length bs \<le> MAX_CONTROL_FRAME" by auto
  have d: "decode from_bytes bs = Inr m"
    using assms(2) bs(1) by (auto simp: postcard_law_def decode_def)
  have "content r = frame bs @ concat (map (\<lambda>m. frame (the (to_allocvec m))) ms) @ rest"
    using Cons.prems(2) bs(1) by simp
  then obtain r' where "control_recv read_exact from_bytes r = (Inr (Some m), r')"
    "content r' = concat (map (\<lambda>m. frame (the (to_allocvec m))) ms) @ rest"
    using control_recv_ok [OF assms(1) _ bs(2) d] by blast
  then show ?case using Cons.IH [of r'] Cons.prems(1) by (auto split: prod.splits)
qed

text \<open>C16. The control stream delivers: whatever messages are sent on it one after another, the other end
  receives exactly these, in order, and then the end of the stream, provided no message is over the
  limit of a control frame.\<close>
theorem control_stream_delivers:
  assumes "write_law written write_all" and "stream_law content read_exact"
    and "postcard_law to_allocvec from_bytes"
    and "\<forall>m\<in>set ms. \<exists>bs. to_allocvec m = Some bs \<and> length bs \<le> MAX_CONTROL_FRAME"
    and "written s = []"
    and "content r = written (snd (send_each (control_send to_allocvec write_all) ms s))"
  shows "fst (send_each (control_send to_allocvec write_all) ms s) = Inr () \<and>
         fst (recv_times (control_recv read_exact from_bytes) (length ms) r) = map (\<lambda>m. Inr (Some m)) ms \<and>
         fst (control_recv read_exact from_bytes
           (snd (recv_times (control_recv read_exact from_bytes) (length ms) r))) = Inr None"
proof -
  have "\<forall>m\<in>set ms. \<exists>bs. to_allocvec m = Some bs \<and> length bs < 2 ^ 32"
    using assms(4) by (fastforce simp: MAX_CONTROL_FRAME_def)
  from control_send_each [OF assms(1) this, of s]
  have sent: "fst (send_each (control_send to_allocvec write_all) ms s) = Inr ()"
    and "content r = concat (map (\<lambda>m. frame (the (to_allocvec m))) ms) @ []"
    using assms(5,6) by simp_all
  from control_recv_each [OF assms(2-4) this(2)] sent show ?thesis
    using control_recv_end [OF assms(2)] by blast
qed

text \<open>The streams of the witnesses: a list of bytes, written at the end and read at the front.\<close>
definition demo_write :: "u8 list \<Rightarrow> u8 list \<Rightarrow> bool \<times> u8 list" where
  "demo_write bs s = (True, s @ bs)"

definition demo_read :: "nat \<Rightarrow> u8 list \<Rightarrow> (read_exact_error + u8 list) \<times> u8 list" where
  "demo_read n s = (if n \<le> length s then (Inr (take n s), drop n s) else (Inl (FinishedEarly (length s)), []))"

lemma demo_streams: "write_law id demo_write" "stream_law id demo_read"
  by (auto simp: write_law_def stream_law_def demo_write_def demo_read_def)

lemma demo_messages_short:
  "\<forall>m\<in>set [demo_message_b, demo_message_a]. \<exists>bs. demo_ser m = Some bs \<and> length bs \<le> MAX_CONTROL_FRAME"
  by (simp add: demo_ser_messages MAX_CONTROL_FRAME_def)

lemma control_stream_delivers_witness:
  "fst (recv_times (control_recv demo_read demo_des) 2
     (snd (send_each (control_send demo_ser demo_write) [demo_message_b, demo_message_a] []))) =
   [Inr (Some demo_message_b), Inr (Some demo_message_a)]"
  using control_stream_delivers [OF demo_streams demo_codec demo_messages_short, of "[]"]
  by (simp del: send_each.simps recv_times.simps add: numeral_2_eq_2)

text \<open>What a peer announces is never believed: the length of a frame is checked before anything is
  read, so a receiver asks its stream for at most the limit of a control frame, or of a bulk frame,
  whatever the header says.  Two streams that agree on reads up to the limit are the same to it.\<close>
theorem frames_are_bounded:
  assumes "\<forall>n\<le>MAX_CONTROL_FRAME. read_exact n = read_exact' n"
    and "\<forall>n\<le>MAX_BULK_FRAME. read_bulk n = read_bulk' n"
  shows "control_recv read_exact from_bytes s = control_recv read_exact' from_bytes s \<and>
         read_bulk_frame read_bulk from_bytes t = read_bulk_frame read_bulk' from_bytes t"
proof -
  have len: "frame_len h l = Inr n \<Longrightarrow> n \<le> l" for h l n
    by (auto simp: frame_len_def Let_def split: if_splits)
  have hd: "control_recv_header read_exact s = control_recv_header read_exact' s"
    using assms(1) by (simp add: control_recv_header_def MAX_CONTROL_FRAME_def)
  have le: "n \<le> MAX_CONTROL_FRAME" if "control_recv_header read_exact s = (Inr (Some n), s')" for n s'
    using that len by (auto simp: control_recv_header_def split: prod.splits sum.splits nat.splits
        read_exact_error.splits)
  have "control_recv read_exact from_bytes s = control_recv read_exact' from_bytes s"
  proof (cases "control_recv_header read_exact s")
    case (Pair h s')
    show ?thesis
    proof (cases "\<exists>n. h = Inr (Some n)")
      case True
      then obtain n where "h = Inr (Some n)" by blast
      then show ?thesis
        using Pair le assms(1) by (simp add: control_recv_def recv_payload_def hd [symmetric])
    next
      case False
      then show ?thesis
        using Pair by (cases h) (auto simp: control_recv_def hd [symmetric] split: option.splits)
    qed
  qed
  moreover have "read_bulk_frame read_bulk from_bytes t = read_bulk_frame read_bulk' from_bytes t"
  proof -
    have r4: "read_bulk' 4 = read_bulk 4" using assms(2) by (simp add: MAX_BULK_FRAME_def)
    have "recv_payload read_bulk from_bytes n = recv_payload read_bulk' from_bytes n" if "n \<le> MAX_BULK_FRAME" for n
      using that assms(2) by (intro ext) (simp add: recv_payload_def)
    then show ?thesis by (auto simp: read_bulk_frame_def r4 dest!: len split: prod.splits sum.splits)
  qed
  ultimately show ?thesis by simp
qed

lemma frames_are_bounded_witness:
  "control_recv demo_read demo_des [0xFF, 0xFF, 0xFF, 0xFF, 1] =
   control_recv (\<lambda>n. if n \<le> MAX_CONTROL_FRAME then demo_read n else (\<lambda>s. (Inl StreamReadError, s))) demo_des
     [0xFF, 0xFF, 0xFF, 0xFF, 1]"
  using frames_are_bounded [of demo_read
      "\<lambda>n. if n \<le> MAX_CONTROL_FRAME then demo_read n else (\<lambda>s. (Inl StreamReadError, s))" demo_read demo_read]
  by simp

text \<open>C0. Receiving is not one step, and \<^verbatim>\<open>run_peer\<close> waits for it beside other events: when another event
  is served after the header was read and before the payload is there, the receive is dropped and
  the header with it.  The next receive then takes the first bytes of the message itself for the
  length of a frame, and the message is never delivered.\<close>
theorem dropped_receive_loses_the_frame:
  assumes "stream_law content read_exact" and "content r = frame bs @ rest"
    and "length bs \<le> MAX_CONTROL_FRAME" and "bs = a # b # c # d # bs'"
  shows "\<exists>r' r''. control_recv_header read_exact r = (Inr (Some (length bs)), r') \<and>
           content r'' = bs' @ rest \<and>
           fst (control_recv read_exact from_bytes r') =
             (case frame_len [a, b, c, d] MAX_CONTROL_FRAME of
                Inl len \<Rightarrow> Inl (ControlFrameTooLarge len)
              | Inr len \<Rightarrow> map_sum id Some (fst (recv_payload read_exact from_bytes len r'')))"
proof -
  obtain r' where r': "control_recv_header read_exact r = (Inr (Some (length bs)), r')" "content r' = bs @ rest"
    using control_recv_header_ok [OF assms(1-3)] .
  then have "content r' = [a, b, c, d] @ bs' @ rest" using assms(4) by simp
  then obtain r'' where r'': "read_exact (length [a, b, c, d]) r' = (Inr [a, b, c, d], r'')" "content r'' = bs' @ rest"
    using read_exact_ok [OF assms(1)] by blast
  then have r4: "read_exact 4 r' = (Inr [a, b, c, d], r'')" by (simp add: numeral_eq_Suc)
  have "fst (control_recv read_exact from_bytes r') =
      (case frame_len [a, b, c, d] MAX_CONTROL_FRAME of
         Inl len \<Rightarrow> Inl (ControlFrameTooLarge len)
       | Inr len \<Rightarrow> map_sum id Some (fst (recv_payload read_exact from_bytes len r'')))"
    using r4 by (auto simp: control_recv_def control_recv_header_def split: sum.splits prod.splits)
  then show ?thesis using r' r''(2) by blast
qed

lemma dropped_receive_loses_the_frame_witness:
  "fst (control_recv demo_read demo_des (snd (control_recv_header demo_read (frame [9, 9, 9, 9, 9])))) =
   Inl (ControlFrameTooLarge 151587081)"
proof -
  have l: "frame_len [9, 9, 9, 9] MAX_CONTROL_FRAME = Inl 151587081" by (simp add: frame_len_def u32_from_be_def MAX_CONTROL_FRAME_def)
  have c: "id (frame [9, 9, 9, 9, 9]) = frame [9, 9, 9, 9, 9] @ []" by simp
  have b: "length [9, 9, 9, 9, 9 :: u8] \<le> MAX_CONTROL_FRAME" by (simp add: MAX_CONTROL_FRAME_def)
  from dropped_receive_loses_the_frame [OF demo_streams(2) c b refl, of demo_des]
  obtain r' where "control_recv_header demo_read (frame [9, 9, 9, 9, 9]) = (Inr (Some (length [9, 9, 9, 9, 9 :: u8])), r')"
    and "fst (control_recv demo_read demo_des r') = Inl (ControlFrameTooLarge 151587081)"
    unfolding l sum.case by blast
  then show ?thesis by simp
qed

section \<open>Clipboard payloads\<close>

fun payload_size :: "clipboard_data \<Rightarrow> nat" where
  "payload_size (Text t) = length t"
| "payload_size (Image img) = length (image_bytes img)"

text \<open>What is known of postcard's size: it writes a buffer as it is, after a few variable-length integers.\<close>
definition postcard_overhead :: "(wire_message \<Rightarrow> u8 list option) \<Rightarrow> bool" where
  "postcard_overhead to_allocvec \<longleftrightarrow>
     (\<forall>d. \<exists>bs. to_allocvec (Clipboard d) = Some bs \<and> length bs \<le> payload_size d + 1024)"

lemma valid_payload_size: "data_validate bits d = Inr () \<Longrightarrow> payload_size d \<le> MAX_CLIPBOARD_BYTES"
  by (cases d) (auto simp: image_validate_def Let_def split: if_splits)

lemma bulk_send_ok:
  assumes law: "uni_law streams index open_uni write_all finish"
    and m: "to_allocvec m = Some bs" and len: "length bs \<le> MAX_BULK_FRAME"
  obtains c' where "bulk_send to_allocvec open_uni write_all finish m c = (Inr (), c')"
    and "streams c' = streams c @ [(frame bs, True)]"
proof -
  let ?h = "u32_to_be (of_nat (length bs))"
  let ?k = "length (streams c)"
  obtain i c1 where o: "open_uni c = (Some i, c1)" and i: "index i = ?k"
    and s1: "streams c1 = streams c @ [([], False)]"
  proof -
    have "case open_uni c of (None, _) \<Rightarrow> False
        | (Some i, c') \<Rightarrow> index i = ?k \<and> streams c' = streams c @ [([], False)]"
      using law [unfolded uni_law_def, THEN conjunct1, THEN spec, of c] .
    then show ?thesis using that by (cases "open_uni c") (auto split: option.splits)
  qed
  have w: "index i' < length (streams d) \<Longrightarrow> \<exists>d'. write_all i' bs d = (True, d') \<and>
      streams d' = (streams d)[index i' := (fst (streams d ! index i') @ bs, snd (streams d ! index i'))]" for i' bs d
    using law [unfolded uni_law_def, THEN conjunct2, THEN conjunct1, rule_format, of i' d bs]
    by (cases "write_all i' bs d") auto
  obtain c2 where w2: "write_all i ?h c1 = (True, c2)" and s2: "streams c2 = streams c @ [(?h, False)]"
    using w [of i c1 ?h] i s1 by (auto simp: nth_append list_update_append)
  obtain c3 where w3: "write_all i bs c2 = (True, c3)" and s3: "streams c3 = streams c @ [(?h @ bs, False)]"
    using w [of i c2 bs] i s2 by (auto simp: nth_append list_update_append)
  have f: "streams (finish i c3) = streams c @ [(?h @ bs, True)]"
    using law [unfolded uni_law_def, THEN conjunct2, THEN conjunct2, rule_format, of i c3] i s3 by (simp add: nth_append list_update_append)
  show thesis
    using that [of "finish i c3"] m len o w2 w3 f
    by (simp add: bulk_send_def encode_def frame_def MAX_BULK_FRAME_def MAX_CLIPBOARD_BYTES_def)
qed

lemma clipboard_sender_ok:
  assumes law: "uni_law streams index open_uni write_all finish"
    and over: "postcard_overhead to_allocvec"
    and valid: "\<forall>d\<in>set ds. data_validate bits d = Inr ()"
  shows "\<exists>c'. run_clipboard_sender (send_clipboard to_allocvec open_uni write_all finish) ds c = ([], c') \<and>
           streams c' = streams c @ map (\<lambda>d. (frame (the (to_allocvec (Clipboard d))), True)) ds"
  using valid
proof (induction ds arbitrary: c)
  case Nil
  then show ?case by simp
next
  case (Cons d ds)
  obtain bs where bs: "to_allocvec (Clipboard d) = Some bs" "length bs \<le> payload_size d + 1024"
    using over unfolding postcard_overhead_def by blast
  moreover have "payload_size d \<le> MAX_CLIPBOARD_BYTES" using valid_payload_size [of bits d] Cons.prems by simp
  ultimately have len: "length bs \<le> MAX_BULK_FRAME" by (simp add: MAX_BULK_FRAME_def)
  obtain c1 where "bulk_send to_allocvec open_uni write_all finish (Clipboard d) c = (Inr (), c1)"
    and "streams c1 = streams c @ [(frame bs, True)]"
    using bulk_send_ok [of streams index open_uni write_all finish to_allocvec, OF law bs(1) len] .
  then show ?case using Cons.IH [of c1] Cons.prems bs(1) by (simp add: send_clipboard_def)
qed

lemma read_bulk_frame_ok:
  assumes "stream_law content read_exact" and "content r = frame bs"
    and "length bs \<le> MAX_BULK_FRAME" and "decode from_bytes bs = Inr m"
  shows "read_bulk_frame read_exact from_bytes r = Inr m"
proof -
  obtain r1 where h: "read_exact 4 r = (Inr (u32_to_be (of_nat (length bs))), r1)" and c: "content r1 = bs @ []"
    using read_header_ok [OF assms(1), of r bs "[]"] assms(2) by auto
  obtain r2 where "recv_payload read_exact from_bytes (length bs) r1 = (Inr m, r2)"
    using recv_payload_ok [OF assms(1) c assms(4)] by blast
  then show ?thesis
    using h assms(3) by (simp add: read_bulk_frame_def frame_len_header MAX_BULK_FRAME_def MAX_CLIPBOARD_BYTES_def)
qed

lemma bulk_pump_filter:
  "bulk_pump read_exact from_bytes rs =
   bulk_pump read_exact from_bytes (filter (\<lambda>r. \<not> isl (read_bulk_frame read_exact from_bytes r)) rs)"
  by (induction rs) (auto split: sum.splits)

lemma bulk_pump_map:
  assumes "\<And>r. r \<in> set rs \<Longrightarrow> read_bulk_frame read_exact from_bytes r = Inr (f r)"
  shows "bulk_pump read_exact from_bytes rs = map f rs"
  using assms by (induction rs) auto


definition demo_open :: "(u8 list \<times> bool) list \<Rightarrow> nat option \<times> (u8 list \<times> bool) list" where
  "demo_open c = (Some (length c), c @ [([], False)])"

definition demo_write_uni :: "nat \<Rightarrow> u8 list \<Rightarrow> (u8 list \<times> bool) list \<Rightarrow> bool \<times> (u8 list \<times> bool) list" where
  "demo_write_uni i bs c = (True, c[i := (fst (c ! i) @ bs, snd (c ! i))])"

definition demo_finish :: "nat \<Rightarrow> (u8 list \<times> bool) list \<Rightarrow> (u8 list \<times> bool) list" where
  "demo_finish i c = c[i := (fst (c ! i), True)]"

lemma demo_uni: "uni_law id id demo_open demo_write_uni demo_finish"
  by (simp add: uni_law_def demo_open_def demo_write_uni_def demo_finish_def)

text \<open>A codec for clipboard payloads: a tag, the dimensions of an image, and the bytes as they are.\<close>
definition demo_clip_ser :: "wire_message \<Rightarrow> u8 list option" where
  "demo_clip_ser m = (case m of
      Clipboard (Text t) \<Rightarrow> Some (2 # map (\<lambda>c. of_nat (of_char c)) t)
    | Clipboard (Image img) \<Rightarrow>
        Some (3 # u32_to_be (image_width img) @ u32_to_be (image_height img) @ image_bytes img)
    | _ \<Rightarrow> None)"

definition demo_clip_des :: "u8 list \<Rightarrow> wire_message option" where
  "demo_clip_des bs = (case bs of
      [] \<Rightarrow> None
    | t # r \<Rightarrow>
        if t = 2 then Some (Clipboard (Text (map (\<lambda>b. char_of (unat b)) r)))
        else if t = 3 then Some (Clipboard (Image \<lparr> image_width = u32_from_be (take 4 r),
          image_height = u32_from_be (take 4 (drop 4 r)), image_bytes = drop 8 r \<rparr>))
        else None)"

lemma demo_clip_codec: "postcard_law demo_clip_ser demo_clip_des" "postcard_overhead demo_clip_ser"
proof -
  have c: "char_of (unat (of_nat (of_char c) :: u8)) = c" for c
    by (simp add: unsigned_of_nat take_bit_eq_mod)
  show "postcard_law demo_clip_ser demo_clip_des"
    by (auto simp: postcard_law_def demo_clip_ser_def demo_clip_des_def c comp_def split: wire_message.splits
        clipboard_data.splits)
  show "postcard_overhead demo_clip_ser"
    unfolding postcard_overhead_def
  proof
    fix d
    show "\<exists>bs. demo_clip_ser (Clipboard d) = Some bs \<and> length bs \<le> payload_size d + 1024"
      by (cases d) (simp_all add: demo_clip_ser_def)
  qed
qed


end
