(* ===== verification/Tls.thy ===== *)
theory Tls
  imports Quic TrustFile
begin

text \<open>
  \<^verbatim>\<open>crates/omni-transport/src/tls.rs\<close>: the certificate verifiers that ask the trust policy during the
  handshake, and the dialling and accepting of \<^verbatim>\<open>QuicEndpoint\<close> (\<^verbatim>\<open>quic.rs\<close>).  The policy is the trust
  file's (\<^verbatim>\<open>HandshakePolicy for TrustState\<close>); SHA-256 and what the handshake came to are arguments.
\<close>

section \<open>The verifiers\<close>

text \<open>The name a connection is verified for; an address is represented by the text it prints as.\<close>
datatype server_name = DnsName string | IpAddress string | OtherName

datatype tls_error = ApplicationVerificationFailure | GeneralError string | Tls12NotOffered

definition presented_fingerprint :: "(u8 list \<Rightarrow> fingerprint) \<Rightarrow> u8 list \<Rightarrow> fingerprint" where
  "presented_fingerprint fingerprint_of end_entity = fingerprint_of end_entity"

definition refused :: tls_error where "refused = ApplicationVerificationFailure"

definition verify_server_cert ::
  "(string \<Rightarrow> fingerprint \<Rightarrow> policy_violation + unit) \<Rightarrow> (u8 list \<Rightarrow> fingerprint) \<Rightarrow>
   u8 list \<Rightarrow> server_name \<Rightarrow> tls_error + unit" where
  "verify_server_cert policy fingerprint_of end_entity name =
     (case (case name of
              DnsName n \<Rightarrow> Inr n
            | IpAddress ip \<Rightarrow> Inr ip
            | OtherName \<Rightarrow> Inl (GeneralError ''unsupported server name'')) of
        Inl e \<Rightarrow> Inl e
      | Inr host \<Rightarrow>
          (case policy host (presented_fingerprint fingerprint_of end_entity) of
             Inr _ \<Rightarrow> Inr ()
           | Inl violation \<Rightarrow> Inl refused))"

definition verify_client_cert ::
  "(fingerprint \<Rightarrow> policy_violation + unit) \<Rightarrow> (u8 list \<Rightarrow> fingerprint) \<Rightarrow> u8 list \<Rightarrow> tls_error + unit" where
  "verify_client_cert policy fingerprint_of end_entity =
     (case policy (presented_fingerprint fingerprint_of end_entity) of
        Inr _ \<Rightarrow> Inr ()
      | Inl violation \<Rightarrow> Inl refused)"

text \<open>TLS 1.2 is never accepted, by either verifier.\<close>
definition verify_tls12_signature :: "tls_error + unit" where
  "verify_tls12_signature = Inl Tls12NotOffered"

definition client_auth_mandatory :: bool where "client_auth_mandatory = True"

section \<open>Dialling and accepting\<close>

text \<open>\<open>started\<close>: whether the dial could be started; \<open>handshake\<close>: the certificates of the session it
  gave, if the handshake succeeded.\<close>
definition quic_connect ::
  "(u8 list \<Rightarrow> fingerprint) \<Rightarrow> bool \<Rightarrow> u8 list list option option \<Rightarrow> quic_error + quic_connection" where
  "quic_connect fingerprint_of started handshake =
     (if \<not> started then Inl ConnectFailed
      else case handshake of
             None \<Rightarrow> Inl ConnectionFailed
           | Some identity \<Rightarrow> quic_wrap fingerprint_of identity)"

text \<open>The outer option is the end of the endpoint.\<close>
definition quic_accept ::
  "(u8 list \<Rightarrow> fingerprint) \<Rightarrow> u8 list list option option option \<Rightarrow> (quic_error + quic_connection) option" where
  "quic_accept fingerprint_of incoming =
     map_option (\<lambda>handshake. case handshake of
         None \<Rightarrow> Inl ConnectionFailed
       | Some identity \<Rightarrow> quic_wrap fingerprint_of identity) incoming"

section \<open>Properties\<close>

lemma verify_server_cert_iff:
  "verify_server_cert (authorize_server st) fp cert name = Inr () \<longleftrightarrow>
   (\<exists>host. name \<in> {DnsName host, IpAddress host} \<and> pinned_for_host st host \<in> {None, Some (fp cert)})"
  by (cases name) (auto simp: verify_server_cert_def presented_fingerprint_def authorize_server_def
      split: option.splits)

text \<open>Once a host's certificate was accepted, a connection to that host is verified exactly when it
  shows this certificate, and every other one is refused with the same error, which tells the peer
  nothing about why; a host nobody was accepted at is trusted on first use.\<close>
theorem changed_certificate_is_refused:
  assumes "fingerprint_ok f" and "trust_accept io f (Some host) st = (res, st')"
  shows "verify_server_cert (authorize_server st') fp cert (DnsName host) =
           (if fp cert = f then Inr () else Inl ApplicationVerificationFailure) \<and>
         (pinned_for_host st' other = None \<longrightarrow>
            verify_server_cert (authorize_server st') fp cert (DnsName other) = Inr ())"
proof -
  have "pinned_for_host st' host = Some f"
    using pinned_after_accept [OF assms(1), of io host st] assms(2) by simp
  then show ?thesis
    by (auto simp: verify_server_cert_def presented_fingerprint_def authorize_server_def refused_def)
qed

lemma changed_certificate_is_refused_witness:
  "verify_server_cert (authorize_server (snd (trust_accept None (Fingerprint (replicate 32 7)) (Some ''mac'') demo_trust)))
     (\<lambda>_. Fingerprint (replicate 32 8)) [1, 2] (DnsName ''mac'') = Inl ApplicationVerificationFailure"
proof -
  have ok: "fingerprint_ok (Fingerprint (replicate 32 7))" by (simp add: fingerprint_ok_def)
  have "Fingerprint (replicate 32 8) \<noteq> Fingerprint (replicate 32 7)" by (simp add: replicate_eq_replicate)
  then show ?thesis
    using changed_certificate_is_refused [OF ok surjective_pairing, of None "''mac''" demo_trust
        "\<lambda>_. Fingerprint (replicate 32 8)" "[1, 2]"] by simp
qed

text \<open>A pin is recorded under the host as it was typed, but looked up under the text the address
  prints as.  For an address typed in another spelling the two differ, so the pin of the first
  connection never guards the next one: any certificate is accepted, as if on first use.\<close>
theorem respelled_address_is_not_pinned:
  assumes "fingerprint_ok f" and "\<forall>r\<in>set (trust_peers st). record_host r \<noteq> Some printed" and "printed \<noteq> typed"
    and "trust_accept io f (Some typed) st = (res, st')"
  shows "pinned_for_host st' typed = Some f \<and>
         verify_server_cert (authorize_server st') fp cert (IpAddress printed) = Inr ()"
proof -
  have rs: "trust_peers st' = accept_records f (Some typed) (trust_peers st)"
    using arg_cong [OF assms(4), of "\<lambda>p. trust_peers (snd p)"] by simp
  have "record_host r \<noteq> Some printed" if "r \<in> set (trust_peers st')" for r
    using accept_records_cases [of r f "Some typed" "trust_peers st"] that assms(2,3) unfolding rs by auto
  then have "List.find (\<lambda>r. record_host r = Some printed) (trust_peers st') = None"
    by (auto simp: find_None_iff)
  then have "pinned_for_host st' printed = None" by (simp add: pinned_for_host_def)
  moreover have "pinned_for_host st' typed = Some f"
    using pinned_after_accept [OF assms(1), of io typed st] assms(4) by simp
  ultimately show ?thesis by (auto simp: verify_server_cert_iff)
qed

lemma respelled_address_is_not_pinned_witness:
  "verify_server_cert (authorize_server (snd (trust_accept None (Fingerprint (replicate 32 7))
     (Some ''0:0:0:0:0:0:0:1'') demo_trust))) (\<lambda>_. Fingerprint (replicate 32 8)) [1, 2] (IpAddress ''::1'') = Inr ()"
proof -
  have ok: "fingerprint_ok (Fingerprint (replicate 32 7))" by (simp add: fingerprint_ok_def)
  have free: "\<forall>r\<in>set (trust_peers demo_trust). record_host r \<noteq> Some ''::1''" by (simp add: demo_trust_def)
  show ?thesis
    using respelled_address_is_not_pinned [OF ok free _ surjective_pairing, of "''0:0:0:0:0:0:0:1''" None] by simp
qed

text \<open>Every connection the daemon is handed has a peer with a certificate: the fingerprint it is
  known by is the one of the first certificate of the session, and a session without one is refused,
  on either side.\<close>
theorem connection_has_identity:
  "(case quic_connect fp started handshake of
      Inr c \<Rightarrow> started \<and> (\<exists>cert more. handshake = Some (Some (cert # more)) \<and> qc_fingerprint c = fp cert)
    | Inl e \<Rightarrow> (e = ConnectFailed \<longleftrightarrow> \<not> started) \<and>
        (e = MissingPeerCertificate \<longleftrightarrow> started \<and> handshake \<in> {Some None, Some (Some [])})) \<and>
   (case quic_accept fp incoming of
      Some (Inr c) \<Rightarrow> \<exists>cert more. incoming = Some (Some (Some (cert # more))) \<and> qc_fingerprint c = fp cert
    | Some (Inl e) \<Rightarrow> incoming \<noteq> None \<and> e \<in> {ConnectionFailed, MissingPeerCertificate}
    | None \<Rightarrow> incoming = None)"
  by (auto simp: quic_connect_def quic_accept_def quic_wrap_def quic_peer_fingerprint_def
      split: option.splits list.splits sum.splits)

end
