(* ===== verification/Handshake.thy ===== *)
theory Handshake
  imports Tls LocalState Connect
begin

text \<open>
  The handshake as a whole: the configurations \<^verbatim>\<open>tls.rs\<close> builds, the endpoint \<^verbatim>\<open>quic.rs\<close> binds with them, and
  what a completed handshake then tells either side of the other.  The handshake itself is rustls and
  quinn: an argument, of which \<open>tls_law\<close> states what their documentation promises.  The other side
  is never assumed to run this program.
\<close>

section \<open>Configurations\<close>

datatype tls_version = Tls12 | Tls13

definition ALPN :: string where "ALPN = ''omni/1''"

definition identity_material :: "local_identity \<Rightarrow> u8 list list \<times> u8 list" where
  "identity_material i = ([certificate_der i], private_key_der i)"

text \<open>What rustls does for a configuration: whether it takes the certificate with its key, or the text of its error,
  and the verification of a signature of TLS 1.3 over a message under a certificate.\<close>
record tls_library =
  tl_takes_key :: "u8 list list \<Rightarrow> u8 list \<Rightarrow> string + unit"
  tl_verify13 :: "u8 list \<Rightarrow> u8 list \<Rightarrow> u8 list \<Rightarrow> tls_error + unit"

text \<open>The signatures each verifier accepts of the other side.\<close>
definition server_signature :: "tls_library \<Rightarrow> tls_version \<Rightarrow> u8 list \<Rightarrow> u8 list \<Rightarrow> u8 list \<Rightarrow> tls_error + unit" where
  "server_signature lib v message cert dss = (case v of
      Tls12 \<Rightarrow> verify_tls12_signature
    | Tls13 \<Rightarrow> tl_verify13 lib message cert dss)"

definition client_signature :: "tls_library \<Rightarrow> tls_version \<Rightarrow> u8 list \<Rightarrow> u8 list \<Rightarrow> u8 list \<Rightarrow> tls_error + unit" where
  "client_signature lib v message cert dss = (case v of
      Tls12 \<Rightarrow> verify_tls12_signature
    | Tls13 \<Rightarrow> tl_verify13 lib message cert dss)"

text \<open>How a side dials, and how a side listens.  A verifier is asked about the first certificate shown.\<close>
record client_tls =
  ct_versions :: "tls_version list"
  ct_alpn :: "string list"
  ct_chain :: "u8 list list"
  ct_key :: "u8 list"
  ct_verify :: "u8 list \<Rightarrow> server_name \<Rightarrow> tls_error + unit"
  ct_signature :: "tls_version \<Rightarrow> u8 list \<Rightarrow> u8 list \<Rightarrow> u8 list \<Rightarrow> tls_error + unit"

record server_tls =
  st_versions :: "tls_version list"
  st_alpn :: "string list"
  st_chain :: "u8 list list"
  st_key :: "u8 list"
  st_client_auth :: bool
  st_verify :: "u8 list \<Rightarrow> tls_error + unit"
  st_signature :: "tls_version \<Rightarrow> u8 list \<Rightarrow> u8 list \<Rightarrow> u8 list \<Rightarrow> tls_error + unit"

definition client_config ::
  "tls_library \<Rightarrow> (u8 list \<Rightarrow> fingerprint) \<Rightarrow>
   (string \<Rightarrow> fingerprint \<Rightarrow> policy_violation + unit) \<Rightarrow> local_identity \<Rightarrow> string + client_tls" where
  "client_config lib fp policy i =
     (let (chain, key) = identity_material i
      in case tl_takes_key lib chain key of
           Inl e \<Rightarrow> Inl e
         | Inr _ \<Rightarrow> Inr \<lparr> ct_versions = [Tls13], ct_alpn = [ALPN], ct_chain = chain, ct_key = key,
             ct_verify = verify_server_cert policy fp, ct_signature = server_signature lib \<rparr>)"

definition server_config ::
  "tls_library \<Rightarrow> (u8 list \<Rightarrow> fingerprint) \<Rightarrow>
   (fingerprint \<Rightarrow> policy_violation + unit) \<Rightarrow> local_identity \<Rightarrow> string + server_tls" where
  "server_config lib fp policy i =
     (let (chain, key) = identity_material i
      in case tl_takes_key lib chain key of
           Inl e \<Rightarrow> Inl e
         | Inr _ \<Rightarrow> Inr \<lparr> st_versions = [Tls13], st_alpn = [ALPN], st_chain = chain, st_key = key,
             st_client_auth = client_auth_mandatory, st_verify = verify_client_cert policy fp,
             st_signature = client_signature lib \<rparr>)"

section \<open>The endpoint\<close>

text \<open>Times in milliseconds.\<close>
definition IDLE_TIMEOUT :: nat where "IDLE_TIMEOUT = 15000"
definition KEEP_ALIVE :: nat where "KEEP_ALIVE = 5000"
definition DATAGRAM_SEND_BUFFER :: nat where "DATAGRAM_SEND_BUFFER = 16 * 1024"

datatype congestion = Cubic | Bbr

record transport_settings =
  ts_keep_alive :: "nat option"
  ts_idle :: "nat option"
  ts_datagram_buffer :: nat
  ts_congestion :: congestion

text \<open>The settings are quinn's own but for these four.\<close>
definition transport_config :: "transport_settings \<Rightarrow> transport_settings" where
  "transport_config defaults = defaults \<lparr> ts_keep_alive := Some KEEP_ALIVE, ts_idle := Some IDLE_TIMEOUT,
     ts_datagram_buffer := DATAGRAM_SEND_BUFFER, ts_congestion := Bbr \<rparr>"

record quic_endpoint =
  qe_server :: server_tls
  qe_client :: client_tls
  qe_settings :: "transport_settings \<times> transport_settings"

text \<open>\<open>suits\<close>: whether quinn takes a configuration for its server or its client; \<open>bound\<close>: whether the socket
  could be bound.\<close>
definition quic_bind ::
  "tls_library \<Rightarrow> (server_tls \<Rightarrow> string + unit) \<times> (client_tls \<Rightarrow> string + unit) \<Rightarrow>
   bool \<Rightarrow> transport_settings \<Rightarrow> (u8 list \<Rightarrow> fingerprint) \<Rightarrow> trust_state \<Rightarrow> local_identity \<Rightarrow> quic_error + quic_endpoint" where
  "quic_bind lib suits bound defaults fp policy i =
     (case server_config lib fp (authorize_client policy) i of
        Inl e \<Rightarrow> Inl (ConfigInvalid e)
      | Inr server \<Rightarrow>
          (case fst suits server of
             Inl e \<Rightarrow> Inl (ConfigInvalid e)
           | Inr _ \<Rightarrow>
               (case client_config lib fp (authorize_server policy) i of
                  Inl e \<Rightarrow> Inl (ConfigInvalid e)
                | Inr client \<Rightarrow>
                    (case snd suits client of
                       Inl e \<Rightarrow> Inl (ConfigInvalid e)
                     | Inr _ \<Rightarrow>
                         if bound then Inr \<lparr> qe_server = server, qe_client = client,
                           qe_settings = (transport_config defaults, transport_config defaults) \<rparr>
                         else Inl BindFailed))))"

text \<open>Opening or accepting the control stream: whether quinn could.\<close>
definition open_control :: "'s option \<Rightarrow> quic_error + 's" where
  "open_control opened = (case opened of None \<Rightarrow> Inl ConnectionFailed | Some s \<Rightarrow> Inr s)"

definition accept_control :: "'s option \<Rightarrow> quic_error + 's" where
  "accept_control opened = (case opened of None \<Rightarrow> Inl ConnectionFailed | Some s \<Rightarrow> Inr s)"

text \<open>The text of an error; \<open>e\<close> is that of the library's or system's error it carries.\<close>
fun quic_error_text :: "string \<Rightarrow> quic_error \<Rightarrow> string" where
  "quic_error_text e BindFailed = ''could not bind UDP socket: '' @ e"
| "quic_error_text e (ConfigInvalid text) = ''invalid QUIC/TLS configuration: '' @ text"
| "quic_error_text e ConnectFailed = ''could not start connection: '' @ e"
| "quic_error_text e ConnectionFailed = ''connection failed: '' @ e"
| "quic_error_text e DatagramFailed = ''could not send datagram: '' @ e"
| "quic_error_text e WriteFailed = ''control stream write failed: '' @ e"
| "quic_error_text e (quic_error.ReadFailed r) = ''control stream read failed: '' @ e"
| "quic_error_text e (QuicCodec c) = ''codec error: '' @ e"
| "quic_error_text e (ControlFrameTooLarge len) = ''control frame of '' @ decimal len @ '' bytes exceeds the limit''"
| "quic_error_text e (BulkFrameTooLarge len) = ''bulk frame of '' @ decimal len @ '' bytes exceeds the limit''"
| "quic_error_text e MissingPeerCertificate = ''peer presented no certificate''"

section \<open>What the libraries promise\<close>

text \<open>A handshake that completes gives the certificates each side was shown.  Then: the versions and the
  protocols meet; the server showed its chain, whose first certificate the client's verifier took, and
  signed a message with its key in a way that the verifier took for that certificate; and, where the server
  demands a certificate of the client, the same holds of the client.  \<open>signs\<close>: a signature of a message was
  made with a key.  This is a full handshake: one that resumes an earlier session asks no verifier again and
  is not modelled.\<close>
type_synonym handshake = "client_tls \<Rightarrow> server_tls \<Rightarrow> server_name \<Rightarrow> (u8 list list \<times> u8 list list option) option"

definition shown_by ::
  "(u8 list \<Rightarrow> u8 list \<Rightarrow> u8 list \<Rightarrow> bool) \<Rightarrow> u8 list list \<Rightarrow> u8 list \<Rightarrow> (u8 list \<Rightarrow> tls_error + unit) \<Rightarrow>
   (u8 list \<Rightarrow> u8 list \<Rightarrow> u8 list \<Rightarrow> tls_error + unit) \<Rightarrow> bool" where
  "shown_by signs chain key verify signature = (case chain of [] \<Rightarrow> False
    | cert # _ \<Rightarrow> verify cert = Inr () \<and> (\<exists>message dss. signs key message dss \<and> signature message cert dss = Inr ()))"

definition tls_law :: "(u8 list \<Rightarrow> u8 list \<Rightarrow> u8 list \<Rightarrow> bool) \<Rightarrow> handshake \<Rightarrow> bool" where
  "tls_law signs handshake \<longleftrightarrow> (\<forall>c s name. case handshake c s name of
      None \<Rightarrow> True
    | Some (by_server, by_client) \<Rightarrow>
        (\<exists>v \<in> set (ct_versions c) \<inter> set (st_versions s). set (ct_alpn c) \<inter> set (st_alpn s) \<noteq> {} \<and>
           by_server = st_chain s \<and>
           shown_by signs (st_chain s) (st_key s) (\<lambda>cert. ct_verify c cert name) (ct_signature c v) \<and>
           (if st_client_auth s
            then by_client = Some (ct_chain c) \<and> shown_by signs (ct_chain c) (ct_key c) (st_verify s) (st_signature s v)
            else by_client = None)))"

text \<open>A signature that verifies under a certificate was made with the key of that certificate.\<close>
definition signature_law ::
  "(u8 list \<Rightarrow> u8 list \<Rightarrow> u8 list \<Rightarrow> bool) \<Rightarrow> (u8 list \<Rightarrow> u8 list \<Rightarrow> bool) \<Rightarrow> tls_library \<Rightarrow> bool" where
  "signature_law signs owns lib \<longleftrightarrow>
     (\<forall>key message cert dss. signs key message dss \<and> tl_verify13 lib message cert dss = Inr () \<longrightarrow> owns key cert)"

text \<open>What each side makes of it.\<close>
definition dialled :: "(u8 list \<Rightarrow> fingerprint) \<Rightarrow> handshake \<Rightarrow> client_tls \<Rightarrow> server_tls \<Rightarrow> server_name \<Rightarrow> quic_error + quic_connection" where
  "dialled fp handshake c s name =
     quic_connect fp True (map_option (\<lambda>(by_server, _). Some by_server) (handshake c s name))"

definition admitted :: "(u8 list \<Rightarrow> fingerprint) \<Rightarrow> handshake \<Rightarrow> client_tls \<Rightarrow> server_tls \<Rightarrow> server_name \<Rightarrow> (quic_error + quic_connection) option" where
  "admitted fp handshake c s name = quic_accept fp (Some (map_option snd (handshake c s name)))"

lemma bound_configs:
  assumes "quic_bind lib suits bound defaults fp st i = Inr e"
  shows "ct_verify (qe_client e) = verify_server_cert (authorize_server st) fp"
    "st_verify (qe_server e) = verify_client_cert (authorize_client st) fp" "st_client_auth (qe_server e)"
    "ct_versions (qe_client e) = [Tls13]" "st_versions (qe_server e) = [Tls13]"
    "ct_chain (qe_client e) = [certificate_der i]" "ct_key (qe_client e) = private_key_der i"
    "st_chain (qe_server e) = [certificate_der i]" "st_key (qe_server e) = private_key_der i"
    "ct_signature (qe_client e) = server_signature lib" "st_signature (qe_server e) = client_signature lib"
  using assms by (auto simp: quic_bind_def client_config_def server_config_def identity_material_def
      client_auth_mandatory_def split: sum.splits if_splits)

lemma dialled_law:
  assumes "tls_law signs handshake" "signature_law signs owns lib" "ct_signature c = server_signature lib"
    and "dialled fp handshake c s name = Inr conn"
  obtains v cert chain where "st_chain s = cert # chain" "qc_fingerprint conn = fp cert" "owns (st_key s) cert"
    "ct_verify c cert name = Inr ()" "v \<in> set (ct_versions c)" "v \<in> set (st_versions s)"
proof -
  obtain a b where hs: "handshake c s name = Some (a, b)"
    using assms(4) by (auto simp: dialled_def quic_connect_def split: option.splits)
  obtain v where law: "v \<in> set (ct_versions c)" "v \<in> set (st_versions s)" "a = st_chain s"
    "shown_by signs (st_chain s) (st_key s) (\<lambda>cert. ct_verify c cert name) (ct_signature c v)"
    using assms(1) [unfolded tls_law_def, rule_format, of c s name] hs by auto
  then obtain cert chain message dss where shown: "st_chain s = cert # chain" "ct_verify c cert name = Inr ()"
    "signs (st_key s) message dss" "server_signature lib v message cert dss = Inr ()"
    by (auto simp: shown_by_def assms(3) split: list.splits)
  then have "owns (st_key s) cert" using assms(2)
    by (auto simp: server_signature_def signature_law_def verify_tls12_signature_def split: tls_version.splits)
  then show ?thesis using that shown law(1-3) assms(4) hs
    by (auto simp: dialled_def quic_connect_def quic_wrap_def quic_peer_fingerprint_def split: list.splits)
qed

lemma admitted_law:
  assumes "tls_law signs handshake" "signature_law signs owns lib" "st_signature s = client_signature lib"
    and "admitted fp handshake c s name = Some (Inr conn)" "st_client_auth s"
  obtains cert chain where "ct_chain c = cert # chain" "qc_fingerprint conn = fp cert" "owns (ct_key c) cert"
    "st_verify s cert = Inr ()"
proof -
  obtain a b where hs: "handshake c s name = Some (a, b)"
    using assms(4) by (auto simp: admitted_def quic_accept_def split: option.splits)
  obtain v where law: "b = Some (ct_chain c)" "shown_by signs (ct_chain c) (ct_key c) (st_verify s) (st_signature s v)"
    using assms(1) [unfolded tls_law_def, rule_format, of c s name] hs assms(5) by auto
  then obtain cert chain message dss where shown: "ct_chain c = cert # chain" "st_verify s cert = Inr ()"
    "signs (ct_key c) message dss" "client_signature lib v message cert dss = Inr ()"
    by (auto simp: shown_by_def assms(3) split: list.splits)
  then have "owns (ct_key c) cert" using assms(2)
    by (auto simp: client_signature_def signature_law_def verify_tls12_signature_def split: tls_version.splits)
  then show ?thesis using that shown law(1) assms(4) hs
    by (auto simp: admitted_def quic_accept_def quic_wrap_def quic_peer_fingerprint_def split: list.splits)
qed

section \<open>Properties\<close>

text \<open>The advice to forget a host's certificate is for one that changed, but is given by the words of the error:
  also when the peer showed none at all, where forgetting it does not help.\<close>
theorem missing_certificate_is_taken_for_a_changed_one:
  "\<exists>hint. hint \<noteq> [] \<and> connect_error host_arg host (quic_error_text e MissingPeerCertificate) =
     ''could not connect to '' @ host_arg @ '': peer presented no certificate'' @ hint"
proof -
  have "sublist ''certificate'' ''peer presented no certificate''"
    unfolding sublist_def by (intro exI [of _ "''peer presented no ''"] exI [of _ "[]"]) simp
  then show ?thesis by (simp add: connect_error_def)
qed

text \<open>A handshake that completes whenever it may; a signature is the key before the message.\<close>
definition demo_signs :: "u8 list \<Rightarrow> u8 list \<Rightarrow> u8 list \<Rightarrow> bool" where
  "demo_signs key message dss \<longleftrightarrow> dss = key @ message"

definition demo_tls :: tls_library where
  "demo_tls = \<lparr> tl_takes_key = (\<lambda>_ _. Inr ()),
     tl_verify13 = (\<lambda>message cert dss. if dss = cert @ message then Inr () else Inl (GeneralError ''bad signature'')) \<rparr>"

definition plain_shown ::
  "u8 list list \<Rightarrow> u8 list \<Rightarrow> (u8 list \<Rightarrow> tls_error + unit) \<Rightarrow> (u8 list \<Rightarrow> u8 list \<Rightarrow> u8 list \<Rightarrow> tls_error + unit) \<Rightarrow> bool" where
  "plain_shown chain key verify signature = (case chain of [] \<Rightarrow> False
    | cert # _ \<Rightarrow> verify cert = Inr () \<and> signature [1] cert (key @ [1]) = Inr ())"

definition plain_handshake :: handshake where
  "plain_handshake c s name =
     (if Tls13 \<in> set (ct_versions c) \<and> Tls13 \<in> set (st_versions s) \<and> set (ct_alpn c) \<inter> set (st_alpn s) \<noteq> {} \<and>
         plain_shown (st_chain s) (st_key s) (\<lambda>cert. ct_verify c cert name) (ct_signature c Tls13) \<and>
         (st_client_auth s \<longrightarrow> plain_shown (ct_chain c) (ct_key c) (st_verify s) (st_signature s Tls13))
      then Some (st_chain s, if st_client_auth s then Some (ct_chain c) else None) else None)"

lemma plain_shown_by: "plain_shown chain key verify signature \<Longrightarrow> shown_by demo_signs chain key verify signature"
  by (auto simp: plain_shown_def shown_by_def demo_signs_def split: list.splits)

lemma plain_handshake_law: "tls_law demo_signs plain_handshake"
  by (auto simp: tls_law_def plain_handshake_def plain_shown_by intro!: bexI [of _ Tls13])

lemma demo_signature_law: "signature_law demo_signs (=) demo_tls"
  by (simp add: signature_law_def demo_signs_def demo_tls_def)

text \<open>Machines whose key is their certificate's only byte, and their endpoints.\<close>
definition demo_identity :: "u8 \<Rightarrow> local_identity" where
  "demo_identity b = \<lparr> certificate_der = [b], private_key_der = [b], identity_fingerprint = Fingerprint (replicate 32 b) \<rparr>"

definition demo_sha :: "u8 list \<Rightarrow> u8 list" where
  "demo_sha cert = replicate 32 (hd cert)"

definition demo_endpoint :: "trust_state \<Rightarrow> u8 \<Rightarrow> quic_error + quic_endpoint" where
  "demo_endpoint st b = quic_bind demo_tls (\<lambda>_. Inr (), \<lambda>_. Inr ()) True
     \<lparr> ts_keep_alive = None, ts_idle = None, ts_datagram_buffer = 0, ts_congestion = Cubic \<rparr>
     (fingerprint_of demo_sha) st (demo_identity b)"

lemma demo_endpoint_bound: "\<exists>e. demo_endpoint st b = Inr e"
  by (simp add: demo_endpoint_def demo_tls_def quic_bind_def server_config_def client_config_def identity_material_def)

lemma demo_endpoint_alpn:
  "demo_endpoint st b = Inr e \<Longrightarrow> ct_alpn (qe_client e) = [ALPN] \<and> st_alpn (qe_server e) = [ALPN]"
  by (auto simp: demo_endpoint_def demo_tls_def quic_bind_def server_config_def client_config_def identity_material_def)

lemmas demo_configs = bound_configs [OF demo_endpoint_def [symmetric, THEN trans]]

lemma demo_handshake:
  assumes "demo_endpoint st b = Inr e" "demo_endpoint st' b' = Inr e'"
    and "pinned_for_host st host \<in> {None, Some (Fingerprint (replicate 32 b'))}"
  shows "plain_handshake (qe_client e) (qe_server e') (DnsName host) = Some ([[b']], Some [[b]])"
  using assms(3) demo_endpoint_alpn [OF assms(1)] demo_endpoint_alpn [OF assms(2)]
  by (simp add: plain_handshake_def plain_shown_def server_signature_def client_signature_def demo_tls_def demo_configs [OF assms(1)] demo_configs [OF assms(2)] demo_identity_def
      verify_server_cert_iff verify_client_cert_def authorize_client_def fingerprint_of_def demo_sha_def)



text \<open>C31. Nobody comes in as somebody else.  Whoever is admitted is known by the fingerprint of a certificate
  whose key it holds; so a request that goes through without asking the user comes from the holder of a
  key whose certificate is remembered, and the session is filed under that certificate's machine.\<close>
theorem nobody_comes_in_unasked:
  assumes "tls_law signs handshake" and "signature_law signs owns lib"
    and "quic_bind lib suits bound defaults fp (sh_trust sh) i = Inr e"
    and "admitted fp handshake c (qe_server e) name = Some (Inr conn)"
    and "incoming_request k host (qc_fingerprint conn) sh = (True, sh')"
  shows "\<exists>cert chain. ct_chain c = cert # chain \<and> owns (ct_key c) cert \<and> is_trusted (sh_trust sh) (fp cert) \<and>
    machine_id_of (qc_fingerprint conn) = machine_id_of (fp cert)"
proof -
  obtain cert chain where "ct_chain c = cert # chain" "qc_fingerprint conn = fp cert" "owns (ct_key c) cert"
    by (rule admitted_law [OF assms(1,2) bound_configs(11) [OF assms(3)] assms(4) bound_configs(3) [OF assms(3)]])
  moreover have "is_trusted (sh_trust sh) (qc_fingerprint conn)"
    using assms(5) by (simp add: incoming_request_def split: if_splits)
  ultimately show ?thesis by auto
qed

lemma nobody_comes_in_unasked_witness:
  "\<exists>e e' conn sh'. demo_endpoint demo_trust 1 = Inr e \<and> demo_endpoint demo_trust 7 = Inr e' \<and>
     admitted (fingerprint_of demo_sha) plain_handshake (qe_client e) (qe_server e') (DnsName ''new'') = Some (Inr conn) \<and>
     incoming_request 3 ''10.0.0.9'' (qc_fingerprint conn) (demo_home \<lparr> sh_trust := demo_trust \<rparr>) = (True, sh') \<and>
     is_trusted demo_trust (fingerprint_of demo_sha [1])"
proof -
  obtain e e' where e: "demo_endpoint demo_trust 1 = Inr e" "demo_endpoint demo_trust 7 = Inr e'"
    using demo_endpoint_bound by blast
  have "plain_handshake (qe_client e) (qe_server e') (DnsName ''new'') = Some ([[7]], Some [[1]])"
    by (intro demo_handshake [OF e]) (simp add: pinned_for_host_def demo_trust_def)
  then obtain conn where
    conn: "admitted (fingerprint_of demo_sha) plain_handshake (qe_client e) (qe_server e') (DnsName ''new'') = Some (Inr conn)"
      "qc_fingerprint conn = Fingerprint (replicate 32 1)"
    by (simp add: admitted_def quic_accept_def quic_wrap_def quic_peer_fingerprint_def fingerprint_of_def demo_sha_def)
  have trusted: "is_trusted demo_trust (Fingerprint (replicate 32 1))"
    by (rule remembered_is_trusted) (simp_all add: demo_trust_fingerprints ids_distinct_def)
  let ?sh = "demo_home \<lparr> sh_trust := demo_trust \<rparr>"
  have req: "incoming_request 3 ''10.0.0.9'' (qc_fingerprint conn) ?sh = (True, ?sh)"
    using trusted by (simp add: incoming_request_def conn(2))
  have bound: "demo_endpoint (sh_trust ?sh) 7 = Inr e'" using e(2) by simp
  have "ct_chain (qe_client e) = [[1]]" by (simp add: demo_configs [OF e(1)] demo_identity_def)
  then have "is_trusted demo_trust (fingerprint_of demo_sha [1])"
    using nobody_comes_in_unasked [OF plain_handshake_law demo_signature_law bound [unfolded demo_endpoint_def] conn(1) req] by auto
  then show ?thesis using e conn req by blast
qed

text \<open>Two endpoints of this program agree: when one dials the other and both have a connection, each has the
  fingerprint of the other's own certificate.\<close>
theorem ends_know_each_other:
  assumes "tls_law signs handshake" and "signature_law signs owns lib" and "signature_law signs owns lib'"
    and "quic_bind lib suits bound defaults (fingerprint_of sha256) st i = Inr e"
    and "quic_bind lib' suits' bound' defaults' (fingerprint_of sha256) st' i' = Inr e'"
    and "dialled (fingerprint_of sha256) handshake (qe_client e) (qe_server e') name = Inr conn"
    and "admitted (fingerprint_of sha256) handshake (qe_client e) (qe_server e') name = Some (Inr conn')"
  shows "qc_fingerprint conn = fingerprint_of sha256 (certificate_der i') \<and>
    qc_fingerprint conn' = fingerprint_of sha256 (certificate_der i) \<and>
    owns (private_key_der i) (certificate_der i) \<and> owns (private_key_der i') (certificate_der i')"
proof -
  obtain v cert chain where "st_chain (qe_server e') = cert # chain" "qc_fingerprint conn = fingerprint_of sha256 cert"
    "owns (st_key (qe_server e')) cert"
    by (rule dialled_law [OF assms(1,2) bound_configs(10) [OF assms(4)] assms(6)])
  moreover obtain cert' chain' where "ct_chain (qe_client e) = cert' # chain'"
    "qc_fingerprint conn' = fingerprint_of sha256 cert'" "owns (ct_key (qe_client e)) cert'"
    by (rule admitted_law [OF assms(1,3) bound_configs(11) [OF assms(5)] assms(7) bound_configs(3) [OF assms(5)]])
  ultimately show ?thesis by (simp add: bound_configs [OF assms(4)] bound_configs [OF assms(5)])
qed

lemma ends_know_each_other_witness:
  "\<exists>e e' conn. demo_endpoint demo_trust 5 = Inr e \<and> demo_endpoint demo_trust 7 = Inr e' \<and>
     admitted (fingerprint_of demo_sha) plain_handshake (qe_client e) (qe_server e') (DnsName ''new'') = Some (Inr conn) \<and>
     qc_fingerprint conn = Fingerprint (replicate 32 5)"
proof -
  obtain e e' where e: "demo_endpoint demo_trust 5 = Inr e" "demo_endpoint demo_trust 7 = Inr e'"
    using demo_endpoint_bound by blast
  have "plain_handshake (qe_client e) (qe_server e') (DnsName ''new'') = Some ([[7]], Some [[5]])"
    by (intro demo_handshake [OF e]) (simp add: pinned_for_host_def demo_trust_def)
  then obtain conn conn' where
    conn: "dialled (fingerprint_of demo_sha) plain_handshake (qe_client e) (qe_server e') (DnsName ''new'') = Inr conn"
      "admitted (fingerprint_of demo_sha) plain_handshake (qe_client e) (qe_server e') (DnsName ''new'') = Some (Inr conn')"
    by (simp add: dialled_def admitted_def quic_connect_def quic_accept_def quic_wrap_def quic_peer_fingerprint_def)
  have "qc_fingerprint conn' = Fingerprint (replicate 32 5)"
    using ends_know_each_other [OF plain_handshake_law demo_signature_law demo_signature_law e [unfolded demo_endpoint_def] conn]
    by (simp add: fingerprint_of_def demo_sha_def demo_identity_def)
  then show ?thesis using e conn by blast
qed

end
