(* ===== verification/Platform.thy ===== *)
theory Platform
  imports Client LinuxInput WindowsInput MacInput
begin

text \<open>
  What the input adapters hold of the operating system: the two hooks and the timer of the Windows hook
  thread (\<^verbatim>\<open>windows/source.rs\<close>), the X11 display, pixmap and cursor of a hidden cursor and the virtual device
  (\<^verbatim>\<open>linux/mod.rs\<close>); the texts of their errors, and the checks of \<^verbatim>\<open>omni doctor\<close> each platform makes.  The
  calls of the systems are arguments: what each answers.
\<close>

section \<open>The Windows hook thread\<close>

text \<open>A handle is a number, zero for null.\<close>
record hooks =
  hk_keyboard :: nat
  hk_mouse :: nat

record hook_os =
  ho_live :: "nat list"
  ho_next :: nat
  ho_timer :: bool

definition set_hook :: "bool \<Rightarrow> hook_os \<Rightarrow> nat \<times> hook_os" where
  "set_hook granted os = (if granted then (ho_next os, os \<lparr> ho_live := ho_live os @ [ho_next os], ho_next := ho_next os + 1 \<rparr>)
     else (0, os))"

definition unhook :: "nat \<Rightarrow> hook_os \<Rightarrow> hook_os" where
  "unhook h os = (if h = 0 then os else os \<lparr> ho_live := remove1 h (ho_live os) \<rparr>)"

text \<open>\<open>granted\<close>: whether the system installs the keyboard's hook and the mouse's.\<close>
definition hooks_install :: "bool \<times> bool \<Rightarrow> hook_os \<Rightarrow> hooks option \<times> hook_os" where
  "hooks_install granted os =
     (let (keyboard, os) = set_hook (fst granted) os; (mouse, os) = set_hook (snd granted) os
      in if keyboard = 0 \<or> mouse = 0
         then (None, unhook mouse (unhook keyboard os))
         else (Some \<lparr> hk_keyboard = keyboard, hk_mouse = mouse \<rparr>, os))"

definition hooks_remove :: "hooks \<Rightarrow> hook_os \<Rightarrow> hooks \<times> hook_os" where
  "hooks_remove h os = (\<lparr> hk_keyboard = 0, hk_mouse = 0 \<rparr>, unhook (hk_mouse h) (unhook (hk_keyboard h) os))"

definition hooks_rearm :: "bool \<times> bool \<Rightarrow> hooks \<Rightarrow> hook_os \<Rightarrow> bool \<times> hooks \<times> hook_os" where
  "hooks_rearm granted h os =
     (let (h, os) = hooks_remove h os
      in case hooks_install granted os of
           (Some fresh, os) \<Rightarrow> (True, fresh, os)
         | (None, os) \<Rightarrow> (False, h, os))"

text \<open>What \<^verbatim>\<open>GetMessageW\<close> gives: the end, an error, the timer, or another message.\<close>
datatype thread_message = MsgQuit | MsgError | MsgTimer "i32 \<times> i32" "bool \<times> bool" | MsgOther

text \<open>The flag says whether the loop has ended.\<close>
fun message_loop ::
  "thread_message list \<Rightarrow> hooks \<Rightarrow> hook_os \<Rightarrow> windows_source \<Rightarrow> bool \<times> hooks \<times> hook_os \<times> windows_source" where
  "message_loop [] h os s = (False, h, os, s)"
| "message_loop (m # ms) h os s = (case m of
      MsgQuit \<Rightarrow> (True, h, os, s)
    | MsgError \<Rightarrow> (True, h, os, s)
    | MsgTimer amounts granted \<Rightarrow>
        let (rearmed, h, os) = hooks_rearm granted h os; (go_on, s) = hook_timer amounts rearmed s
        in if go_on then message_loop ms h os s else (True, h, os, s)
    | MsgOther \<Rightarrow> message_loop ms h os s)"

text \<open>What the thread reports, whether it has ended, and what it leaves.\<close>
definition run_hooks ::
  "bool \<times> bool \<Rightarrow> bool \<Rightarrow> thread_message list \<Rightarrow> hook_os \<Rightarrow> windows_source \<Rightarrow>
   (windows_input_error + unit) \<times> bool \<times> hook_os \<times> windows_source" where
  "run_hooks granted timer ms os s =
     (case hooks_install granted os of
        (None, os) \<Rightarrow> (Inl HookInstall, True, os, s)
      | (Some h, os) \<Rightarrow>
          (let os = os \<lparr> ho_timer := timer \<rparr>; (ended, h, os, s) = message_loop ms h os s
           in if ended then (Inr (), True, snd (hooks_remove h (os \<lparr> ho_timer := False \<rparr>)), s)
              else (Inr (), False, os, s)))"

text \<open>Handles given out are new, and none is null.\<close>
definition handles_ok :: "hook_os \<Rightarrow> bool" where
  "handles_ok os \<longleftrightarrow> 0 < ho_next os \<and> (\<forall>h\<in>set (ho_live os). 0 < h \<and> h < ho_next os)"

text \<open>The hooks \<open>h\<close> stand on top of those of other programs.\<close>
definition holds_hooks :: "nat list \<Rightarrow> hooks \<Rightarrow> hook_os \<Rightarrow> bool" where
  "holds_hooks others h os \<longleftrightarrow> handles_ok os \<and> hk_keyboard h \<noteq> 0 \<and> hk_mouse h \<noteq> 0 \<and>
     ho_live os = others @ [hk_keyboard h, hk_mouse h] \<and> hk_keyboard h \<noteq> hk_mouse h \<and>
     hk_keyboard h \<notin> set others \<and> hk_mouse h \<notin> set others"

lemma install_cases:
  assumes "handles_ok os"
  obtains h os' where "hooks_install granted os = (Some h, os')" "holds_hooks (ho_live os) h os'"
      "ho_timer os' = ho_timer os"
  | os' where "hooks_install granted os = (None, os')" "ho_live os' = ho_live os" "handles_ok os'"
      "ho_timer os' = ho_timer os"
  using assms
  by (cases "granted" ; cases "fst granted"; cases "snd granted")
    (fastforce simp: hooks_install_def set_hook_def unhook_def handles_ok_def holds_hooks_def remove1_append)+

lemma remove_holds:
  assumes "holds_hooks others h os"
  shows "hooks_remove h os = (\<lparr> hk_keyboard = 0, hk_mouse = 0 \<rparr>, os \<lparr> ho_live := others \<rparr>)"
  using assms by (simp add: holds_hooks_def hooks_remove_def unhook_def remove1_append)

lemma removed_handles: "holds_hooks others h os \<Longrightarrow> handles_ok (os \<lparr> ho_live := others \<rparr>)"
  by (simp add: holds_hooks_def handles_ok_def)

lemma remove_nothing: "hooks_remove \<lparr> hk_keyboard = 0, hk_mouse = 0 \<rparr> os = (\<lparr> hk_keyboard = 0, hk_mouse = 0 \<rparr>, os)"
  by (simp add: hooks_remove_def unhook_def)

lemma rearm_cases:
  assumes "holds_hooks others h os"
  obtains h' os' where "hooks_rearm granted h os = (True, h', os')" "holds_hooks others h' os'" "ho_timer os' = ho_timer os"
  | os' where "hooks_rearm granted h os = (False, \<lparr> hk_keyboard = 0, hk_mouse = 0 \<rparr>, os')" "ho_live os' = others"
      "ho_timer os' = ho_timer os"
  using install_cases [OF removed_handles [OF assms], of granted]
  by cases (simp_all add: hooks_rearm_def remove_holds [OF assms] that)

text \<open>While the loop runs both hooks stand; once it has ended they stand or are gone and forgotten.\<close>
lemma message_loop_hooks:
  assumes "holds_hooks others h os" "message_loop ms h os s = (ended, h', os', s')"
  shows "holds_hooks others h' os' \<or> ended \<and> h' = \<lparr> hk_keyboard = 0, hk_mouse = 0 \<rparr> \<and> ho_live os' = others"
  using assms
proof (induction ms arbitrary: h os s)
  case (Cons m ms)
  show ?case
  proof (cases m)
    case (MsgTimer amounts granted)
    show ?thesis
      by (cases rule: rearm_cases [OF Cons.prems(1), of granted])
        (use Cons.prems(2) Cons.IH in \<open>auto simp: MsgTimer Let_def hook_timer_def split: if_splits\<close>)
  qed (use Cons in auto)
qed auto

text \<open>The hook thread takes exactly two hooks while it runs, and whatever it is sent and whatever Windows
  grants it, it leaves none of them and no timer behind when it ends.\<close>
theorem hook_thread_cleans_up:
  assumes "handles_ok os" "run_hooks granted timer ms os s = (reported, ended, os', s')" "\<not> ho_timer os"
  shows "(ended \<longrightarrow> ho_live os' = ho_live os \<and> \<not> ho_timer os') \<and>
    (\<not> ended \<longrightarrow> reported = Inr () \<and> (\<exists>a b. ho_live os' = ho_live os @ [a, b] \<and> a \<noteq> b \<and> {a, b} \<inter> set (ho_live os) = {}))"
  using assms(1)
proof (cases rule: install_cases [where granted = granted])
  case (1 h os1)
  obtain e h2 os2 s2 where loop: "message_loop ms h (os1 \<lparr> ho_timer := timer \<rparr>) s = (e, h2, os2, s2)"
    by (cases "message_loop ms h (os1 \<lparr> ho_timer := timer \<rparr>) s" rule: prod_cases4) simp
  have "holds_hooks (ho_live os) h (os1 \<lparr> ho_timer := timer \<rparr>)"
    using 1(2) by (simp add: holds_hooks_def handles_ok_def)
  from message_loop_hooks [OF this loop]
  have h2: "holds_hooks (ho_live os) h2 os2 \<or>
    e \<and> h2 = \<lparr> hk_keyboard = 0, hk_mouse = 0 \<rparr> \<and> ho_live os2 = ho_live os" .
  have "ho_live (snd (hooks_remove h2 (os2 \<lparr> ho_timer := False \<rparr>))) = ho_live os"
    using h2 by (auto simp: hooks_remove_def unhook_def holds_hooks_def remove1_append)
  moreover have "\<not> ho_timer (snd (hooks_remove h2 (os2 \<lparr> ho_timer := False \<rparr>)))"
    by (simp add: hooks_remove_def unhook_def)
  ultimately show ?thesis
    using assms(2) h2 by (auto simp: run_hooks_def 1(1) Let_def loop holds_hooks_def split: if_splits)
next
  case (2 os1)
  then show ?thesis using assms(2,3) by (auto simp: run_hooks_def)
qed

lemma hook_thread_cleans_up_witness:
  "\<exists>r e os' s'. run_hooks (True, True) True [MsgTimer (3, 3) (True, True), MsgOther, MsgTimer (3, 3) (True, False)]
     \<lparr> ho_live = [7], ho_next = 8, ho_timer = False \<rparr> idle_windows = (r, e, os', s') \<and> e \<and> ho_live os' = [7]"
proof -
  let ?ms = "[MsgTimer (3, 3) (True, True), MsgOther, MsgTimer (3, 3) (True, False)]"
  let ?os = "\<lparr> ho_live = [7], ho_next = 8, ho_timer = False \<rparr>"
  obtain r e os' s' where run: "run_hooks (True, True) True ?ms ?os idle_windows = (r, e, os', s')"
    by (cases "run_hooks (True, True) True ?ms ?os idle_windows" rule: prod_cases4) simp
  moreover have "fst (snd (run_hooks (True, True) True ?ms ?os idle_windows))"
    by (simp add: run_hooks_def hooks_install_def hooks_rearm_def hooks_remove_def set_hook_def unhook_def Let_def
        hook_timer_def)
  moreover have "handles_ok ?os" by (simp add: handles_ok_def)
  ultimately show ?thesis using hook_thread_cleans_up [OF _ run] by auto
qed

text \<open>When the hook thread cannot be started, what \<open>new\<close> had set up stays, and every later attempt of the
  process is told that a capture is already running.\<close>
theorem failed_thread_blocks_capture:
  "\<not> ws_installed s \<Longrightarrow> windows_source_new NoThread amounts s = (e, s') \<Longrightarrow>
     e = Inl HookInstall \<and> windows_source_new started amounts' s' = (Inl AlreadyRunning, s')"
  by (auto simp: windows_source_new_def refresh_wheel_settings_def Let_def)

lemma failed_thread_blocks_capture_witness:
  "fst (windows_source_new Hooked (3, 3) (snd (windows_source_new NoThread (3, 3) (windows_release idle_windows)))) =
     Inl AlreadyRunning"
proof -
  have "\<not> ws_installed (windows_release idle_windows)" by (simp add: windows_release_def)
  from failed_thread_blocks_capture [OF this, of "(3, 3)" _ _ Hooked "(3, 3)"] show ?thesis
    by (cases "windows_source_new NoThread (3, 3) (windows_release idle_windows)") simp
qed

text \<open>When the thread's message loop ends with an error, the hooks are gone but the source goes on
  answering that there is nothing right now.\<close>
theorem failed_message_loop_is_silent:
  assumes "cq_alive (ws_queue s)" "cq_events (ws_queue s) = []" "handles_ok os" "\<not> ho_timer os"
    and "run_hooks (True, True) timer [MsgError] os s = (reported, ended, os', s')"
  shows "ended \<and> ho_live os' = ho_live os \<and> windows_poll s' = (Inr None, s')"
proof -
  have "ended" "s' = s"
    using assms(5) \<open>handles_ok os\<close>
    by (auto simp: run_hooks_def hooks_install_def set_hook_def handles_ok_def Let_def split: if_splits)
  then show ?thesis using hook_thread_cleans_up [OF assms(3,5,4)] assms(1,2)
    by (simp add: windows_poll_def capture_poll_def Let_def)
qed

lemma failed_message_loop_is_silent_witness:
  "\<exists>r e os' s'. run_hooks (True, True) True [MsgError] \<lparr> ho_live = [], ho_next = 1, ho_timer = False \<rparr>
       (idle_windows \<lparr> ws_queue := \<lparr> cq_events = [], cq_alive = True \<rparr> \<rparr>) = (r, e, os', s') \<and>
     e \<and> windows_poll s' = (Inr None, s')"
proof -
  let ?s = "idle_windows \<lparr> ws_queue := \<lparr> cq_events = [], cq_alive = True \<rparr> \<rparr>"
  let ?os = "\<lparr> ho_live = [], ho_next = 1, ho_timer = False \<rparr>"
  obtain r e os' s' where run: "run_hooks (True, True) True [MsgError] ?os ?s = (r, e, os', s')"
    by (cases "run_hooks (True, True) True [MsgError] ?os ?s" rule: prod_cases4) simp
  then show ?thesis using failed_message_loop_is_silent [OF _ _ _ _ run] by (auto simp: handles_ok_def)
qed

section \<open>The X11 cursor\<close>

text \<open>What the X server answers: the library can be loaded, the display opened, the bitmap and the cursor
  made, and where the pointer is.\<close>
record x11 =
  x_lib :: bool
  x_display :: bool
  x_bitmap :: bool
  x_cursor :: bool
  x_pointer :: "(i32 \<times> i32) option"

text \<open>What the process holds of it, and whether the root window shows the blank cursor.\<close>
record x11_held =
  xh_displays :: nat
  xh_pixmaps :: nat
  xh_cursors :: nat
  xh_blank :: bool

definition x11_nothing :: x11_held where
  "x11_nothing = \<lparr> xh_displays = 0, xh_pixmaps = 0, xh_cursors = 0, xh_blank = False \<rparr>"

text \<open>\<open>X11CursorState::hide\<close> and \<open>drop\<close>.\<close>
definition x11_hide :: "x11 \<Rightarrow> x11_held \<Rightarrow> bool \<times> x11_held" where
  "x11_hide x l =
     (if \<not> x_lib x then (False, l)
      else if \<not> x_display x then (False, l)
      else
        let l = l \<lparr> xh_displays := xh_displays l + 1 \<rparr>
        in if \<not> x_bitmap x then (False, l \<lparr> xh_displays := xh_displays l - 1 \<rparr>)
           else
             let l = l \<lparr> xh_pixmaps := xh_pixmaps l + 1 \<rparr>
             in if \<not> x_cursor x
                then (False, l \<lparr> xh_pixmaps := xh_pixmaps l - 1, xh_displays := xh_displays l - 1 \<rparr>)
                else (True, l \<lparr> xh_cursors := xh_cursors l + 1, xh_blank := True \<rparr>))"

definition x11_drop :: "x11_held \<Rightarrow> x11_held" where
  "x11_drop l = l \<lparr> xh_blank := False, xh_cursors := xh_cursors l - 1, xh_pixmaps := xh_pixmaps l - 1,
     xh_displays := xh_displays l - 1 \<rparr>"

text \<open>\<open>set_suppressed\<close> with what it does to the server.\<close>
definition x11_set_suppressed :: "x11 \<Rightarrow> bool \<Rightarrow> linux_source \<times> x11_held \<Rightarrow> linux_source \<times> x11_held" where
  "x11_set_suppressed x suppressed sl =
     (let (s, l) = sl; was = ls_suppressed s; s = s \<lparr> ls_suppressed := suppressed \<rparr>
      in if suppressed
         then (if \<not> was \<and> \<not> ls_cursor_hidden s
               then let (hidden, l) = x11_hide x l in (s \<lparr> ls_cursor_hidden := hidden \<rparr>, l)
               else (s, l))
         else (s \<lparr> ls_cursor_hidden := False \<rparr>, if ls_cursor_hidden s then x11_drop l else l))"

definition linux_cursor_position :: "x11 \<Rightarrow> x11_held \<Rightarrow> (i32 \<times> i32) option \<times> x11_held" where
  "linux_cursor_position x l =
     (if \<not> x_lib x \<or> \<not> x_display x then (None, l)
      else
        let l = l \<lparr> xh_displays := xh_displays l + 1 \<rparr>; found = x_pointer x;
            l = l \<lparr> xh_displays := xh_displays l - 1 \<rparr>
        in (found, l))"

text \<open>The source holds one of each exactly while its cursor is hidden, which is only while it withholds input.\<close>
definition x11_balanced :: "linux_source \<times> x11_held \<Rightarrow> bool" where
  "x11_balanced sl \<longleftrightarrow> snd sl = (if ls_cursor_hidden (fst sl)
       then \<lparr> xh_displays = 1, xh_pixmaps = 1, xh_cursors = 1, xh_blank = True \<rparr> else x11_nothing) \<and>
     (ls_cursor_hidden (fst sl) \<longrightarrow> ls_suppressed (fst sl))"

lemma x11_balanced_step: "x11_balanced sl \<Longrightarrow> x11_balanced (x11_set_suppressed x suppressed sl)"
  by (cases sl) (auto simp: x11_balanced_def x11_set_suppressed_def x11_hide_def x11_drop_def x11_nothing_def Let_def
      split: if_splits)

lemma x11_balanced_run: "x11_balanced sl \<Longrightarrow> x11_balanced (fold (\<lambda>(x, b). x11_set_suppressed x b) calls sl)"
  by (induction calls arbitrary: sl) (simp_all add: x11_balanced_step case_prod_beta)

text \<open>However capture is withheld and let through, and whatever the X server grants at each time: the source
  behaves as the model of it without the server does, and when input is let through again the cursor is
  shown and nothing of the server's is still held.\<close>
theorem hidden_cursor_is_given_back:
  assumes "linux_source_new spawned devices = Inr s0"
  shows "(\<exists>hides. length hides = length calls \<and> fst (fold (\<lambda>(x, b). x11_set_suppressed x b) calls (s0, x11_nothing)) =
       fold (\<lambda>(hide, b). linux_set_suppressed hide b) (zip hides (map snd calls)) s0) \<and>
    snd (x11_set_suppressed x False (fold (\<lambda>(x, b). x11_set_suppressed x b) calls (s0, x11_nothing))) = x11_nothing"
proof
  have same: "\<exists>hide. fst (x11_set_suppressed x b sl) = linux_set_suppressed hide b (fst sl)" for x b sl
    by (cases sl, cases "x11_hide x (snd sl)")
      (auto simp: x11_set_suppressed_def linux_set_suppressed_def Let_def split: if_splits)
  have "\<exists>hides. length hides = length calls \<and> fst (fold (\<lambda>(x, b). x11_set_suppressed x b) calls sl) =
       fold (\<lambda>(hide, b). linux_set_suppressed hide b) (zip hides (map snd calls)) (fst sl)" for sl
  proof (induction calls arbitrary: sl)
    case (Cons c calls)
    obtain hide where "fst (x11_set_suppressed (fst c) (snd c) sl) = linux_set_suppressed hide (snd c) (fst sl)"
      using same by blast
    moreover obtain hides where "length hides = length calls" "fst (fold (\<lambda>(x, b). x11_set_suppressed x b) calls (x11_set_suppressed (fst c) (snd c) sl)) =
       fold (\<lambda>(hide, b). linux_set_suppressed hide b) (zip hides (map snd calls)) (fst (x11_set_suppressed (fst c) (snd c) sl))"
      using Cons.IH by blast
    ultimately show ?case by (cases c) (auto intro!: exI [of _ "hide # hides"])
  qed simp
  from this [of "(s0, x11_nothing)"]
  show "\<exists>hides. length hides = length calls \<and> fst (fold (\<lambda>(x, b). x11_set_suppressed x b) calls (s0, x11_nothing)) =
       fold (\<lambda>(hide, b). linux_set_suppressed hide b) (zip hides (map snd calls)) s0" by simp
  have "x11_balanced (s0, x11_nothing)"
    using assms by (auto simp: linux_source_new_def x11_balanced_def Let_def split: if_splits)
  then have "x11_balanced (x11_set_suppressed x False (fold (\<lambda>(x, b). x11_set_suppressed x b) calls (s0, x11_nothing)))"
    by (intro x11_balanced_step x11_balanced_run)
  moreover have "\<not> ls_cursor_hidden (fst (x11_set_suppressed x False sl))" for sl
    by (cases sl) (simp add: x11_set_suppressed_def)
  ultimately show "snd (x11_set_suppressed x False (fold (\<lambda>(x, b). x11_set_suppressed x b) calls (s0, x11_nothing))) = x11_nothing"
    by (simp add: x11_balanced_def)
qed

lemma hidden_cursor_is_given_back_witness:
  "let keyboard = \<lparr> di_name = None, di_keys = Some [30], di_axes = None \<rparr>;
       server = \<lparr> x_lib = True, x_display = True, x_bitmap = True, x_cursor = True, x_pointer = None \<rparr>
   in \<forall>s0. linux_source_new (\<lambda>_. True) [keyboard] = Inr s0 \<longrightarrow>
     xh_blank (snd (x11_set_suppressed server True (s0, x11_nothing))) \<and>
     snd (x11_set_suppressed server False (x11_set_suppressed server True (s0, x11_nothing))) = x11_nothing"
proof -
  let ?keyboard = "\<lparr> di_name = None, di_keys = Some [30], di_axes = None \<rparr> :: device_info"
  let ?server = "\<lparr> x_lib = True, x_display = True, x_bitmap = True, x_cursor = True, x_pointer = None \<rparr>"
  have "xh_blank (snd (x11_set_suppressed ?server True (s0, x11_nothing)))"
    and "snd (x11_set_suppressed ?server False (x11_set_suppressed ?server True (s0, x11_nothing))) = x11_nothing"
    if new: "linux_source_new (\<lambda>_. True) [?keyboard] = Inr s0" for s0
    using hidden_cursor_is_given_back [OF new, of "[(?server, True)]" ?server] new
    by (auto simp: linux_source_new_def is_keyboard_def x11_set_suppressed_def x11_hide_def Let_def)
  then show ?thesis by (simp add: Let_def)
qed

theorem cursor_query_keeps_nothing: "snd (linux_cursor_position x l) = l"
  by (simp add: linux_cursor_position_def Let_def)

section \<open>The virtual device of Linux\<close>

text \<open>\<open>create\<close> makes the device of a name that can report the given keys and axes.\<close>
definition linux_sink_new ::
  "(string \<Rightarrow> u16 list \<Rightarrow> rel_axis list \<Rightarrow> 'd option) \<Rightarrow> linux_input_error + 'd linux_sink" where
  "linux_sink_new create = (case create VIRTUAL_DEVICE_NAME uinput_keys uinput_axes of
      None \<Rightarrow> Inl InjectFailed
    | Some d \<Rightarrow> Inr \<lparr> lk_device = d, lk_scroll = accumulator_new \<rparr>)"

text \<open>The kernel drops what a device was not created for.\<close>
definition declared_in :: "u16 list \<Rightarrow> rel_axis list \<Rightarrow> evdev_event \<Rightarrow> bool" where
  "declared_in keys axes e = (case e of
      EvKey c v \<Rightarrow> c \<in> set keys | EvRel a v \<Rightarrow> a \<in> set axes | EvSyn \<Rightarrow> True | EvOther \<Rightarrow> False)"

record virtual_device =
  vd_name :: string
  vd_keys :: "u16 list"
  vd_axes :: "rel_axis list"
  vd_out :: "evdev_event list"
  vd_lost :: "evdev_event list"

definition device_emit :: "evdev_event list \<Rightarrow> virtual_device \<Rightarrow> bool \<times> virtual_device" where
  "device_emit evs d = (True, d \<lparr> vd_out := vd_out d @ filter (declared_in (vd_keys d) (vd_axes d)) evs,
     vd_lost := vd_lost d @ filter (\<lambda>e. \<not> declared_in (vd_keys d) (vd_axes d) e) evs \<rparr>)"

definition new_device :: "string \<Rightarrow> u16 list \<Rightarrow> rel_axis list \<Rightarrow> virtual_device option" where
  "new_device name keys axes =
     Some \<lparr> vd_name = name, vd_keys = keys, vd_axes = axes, vd_out = [], vd_lost = [] \<rparr>"

definition loses_nothing :: "virtual_device linux_sink \<Rightarrow> bool" where
  "loses_nothing s \<longleftrightarrow> vd_lost (lk_device s) = [] \<and> vd_keys (lk_device s) = uinput_keys \<and> vd_axes (lk_device s) = uinput_axes"

lemma declared_key: "evdev_from_hid code = Some c \<Longrightarrow> c \<in> set uinput_keys"
  unfolding evdev_from_hid_def linux_keys.round_trip [symmetric] linux_keys.hid_of_native_iff
  by (force simp: uinput_keys_def injectable_keys_def)

lemma declared_button: "evdev_from_button b = Some c \<Longrightarrow> c \<in> set uinput_keys"
  by (cases b) (auto simp: uinput_keys_def)

lemma declared_events [simp]:
  "declared_in uinput_keys uinput_axes (EvRel REL_X v)" "declared_in uinput_keys uinput_axes (EvRel REL_Y v)"
  "declared_in uinput_keys uinput_axes (EvRel REL_WHEEL v)" "declared_in uinput_keys uinput_axes (EvRel REL_HWHEEL v)"
  "declared_in uinput_keys uinput_axes (EvKey c v) \<longleftrightarrow> c \<in> set uinput_keys"
  by (simp_all add: declared_in_def uinput_axes_def)

lemma linux_emit_loses_nothing:
  "loses_nothing s \<Longrightarrow> list_all (declared_in uinput_keys uinput_axes) evs \<Longrightarrow>
   loses_nothing (snd (linux_emit device_emit evs s))"
  by (auto simp: linux_emit_def device_emit_def loses_nothing_def list_all_iff)

lemma linux_warp_loses_nothing: "loses_nothing s \<Longrightarrow> loses_nothing (snd (linux_warp device_emit x y s))"
  by (auto simp: linux_warp_def case_prod_beta linux_emit_loses_nothing split: sum.split)

lemma linux_inject_loses_nothing:
  assumes "loses_nothing s"
  shows "loses_nothing (snd (linux_inject device_emit ev s))"
proof (cases ev)
  case (Scroll delta)
  have "loses_nothing (s \<lparr> lk_scroll := acc \<rparr>)" for acc using assms by (simp add: loses_nothing_def)
  then show ?thesis using Scroll
    by (auto simp: linux_inject_def Let_def case_prod_beta intro!: linux_emit_loses_nothing)
qed (use assms in \<open>auto simp: linux_inject_def declared_key declared_button
    intro!: linux_emit_loses_nothing linux_warp_loses_nothing split: option.split\<close>)

text \<open>The virtual device is created for everything the sink ever writes to it: whatever is injected, the
  kernel drops nothing.\<close>
theorem virtual_device_takes_everything:
  assumes "linux_sink_new new_device = Inr s"
  shows "vd_lost (lk_device (fold (\<lambda>ev s. snd (linux_inject device_emit ev s)) evs s)) = []"
proof -
  have "loses_nothing s"
    using assms by (auto simp: linux_sink_new_def new_device_def loses_nothing_def)
  then have "loses_nothing (fold (\<lambda>ev s. snd (linux_inject device_emit ev s)) evs s)"
    by (induction evs arbitrary: s) (simp_all add: linux_inject_loses_nothing)
  then show ?thesis by (simp add: loses_nothing_def)
qed

lemma virtual_device_takes_everything_witness:
  "case linux_sink_new new_device of
     Inl e \<Rightarrow> False
   | Inr s \<Rightarrow> vd_lost (lk_device (snd (linux_inject device_emit (Button MouseLeft Press) s))) = []"
proof -
  obtain s where s: "linux_sink_new new_device = Inr s" by (simp add: linux_sink_new_def new_device_def)
  from virtual_device_takes_everything [OF s, of "[Button MouseLeft Press]"] show ?thesis by (simp add: s)
qed

section \<open>Errors and checks\<close>

text \<open>The texts are in UTF-8; the error of the system is an argument where the code shows it.\<close>
fun linux_error_text :: "string \<Rightarrow> linux_input_error \<Rightarrow> string" where
  "linux_error_text e NoDevices =
     ''no readable input devices in /dev/input '' @ em_dash @ '' add the user to the `input` group''"
| "linux_error_text e LinuxCaptureStopped = ''input capture stopped''"
| "linux_error_text e InjectFailed = ''could not inject through uinput (/dev/uinput): '' @ e"

fun windows_error_text :: "windows_input_error \<Rightarrow> string" where
  "windows_error_text HookInstall = ''could not install the low-level keyboard/mouse hooks '' @ em_dash @
     '' another program may be blocking them''"
| "windows_error_text AlreadyRunning = ''input capture is already running in this process''"
| "windows_error_text WindowsCaptureStopped = ''input capture stopped''"
| "windows_error_text Injection = ''could not synthesize input '' @ em_dash @
     '' the focused window may require administrator rights this process does not have''"

definition arrow :: string where "arrow = [CHR 0xE2, CHR 0x86, CHR 0x92]"

fun macos_error_text :: "macos_input_error \<Rightarrow> string" where
  "macos_error_text TapCreation = ''could not create the event tap '' @ em_dash @
     '' grant this binary the Accessibility permission (System Settings '' @ arrow @ '' Privacy & Security '' @
     arrow @ '' Accessibility)''"
| "macos_error_text MacCaptureStopped = ''input capture stopped''"
| "macos_error_text EventCreation = ''could not synthesize an OS event''"

text \<open>Opening \<^verbatim>\<open>/dev/uinput\<close> for writing.\<close>
datatype uinput = Writable | Missing | Refused string

definition udev_rule :: string where
  "udev_rule = (let q = [CHR 0x22] in quoted (''KERNEL=='' @ q @ ''uinput'' @ q @ '', GROUP='' @ q @ ''input'' @ q @
     '', MODE='' @ q @ ''0660'' @ q))"

text \<open>\<open>entries\<close>: the names in \<^verbatim>\<open>/dev/input\<close>, if it can be read; \<open>devices\<close>: those that can be opened.\<close>
definition linux_diagnose :: "string list option \<Rightarrow> device_info list \<Rightarrow> uinput \<Rightarrow> check list" where
  "linux_diagnose entries devices uinput =
     (let present = (case entries of
            Some names \<Rightarrow> length (filter (\<lambda>n. take 5 n = ''event'') names) | None \<Rightarrow> 0);
          others = filter (\<lambda>d. di_name d \<noteq> Some VIRTUAL_DEVICE_NAME) devices;
          keyboards = length (filter is_keyboard others);
          mice = length (filter is_mouse others);
          capture = ''input device access (capture)'';
          injection = ''uinput access (injection)''
      in [if keyboards + mice > 0
          then ok_check capture (decimal keyboards @ '' keyboard(s) and '' @ decimal mice @
                 '' mouse/mice readable in /dev/input'')
          else if present > 0
          then failed_check capture (decimal present @ '' device(s) in /dev/input but none readable '' @ em_dash @
                 '' add the user to the `input` group (`sudo usermod -aG input $USER`), then log out and back in'')
          else failed_check capture (''no devices in /dev/input '' @ em_dash @
                 '' no input hardware visible to this system''),
          case uinput of
            Writable \<Rightarrow> ok_check injection ''/dev/uinput is writable''
          | Missing \<Rightarrow> failed_check injection (''/dev/uinput does not exist '' @ em_dash @
              '' load the module (`sudo modprobe uinput`) and persist it'' @
              '' (`echo uinput | sudo tee /etc/modules-load.d/uinput.conf`)'')
          | Refused e \<Rightarrow> failed_check injection (''/dev/uinput is not writable ('' @ e @ '') '' @ em_dash @
              '' give the `input` group access: `echo '' @ udev_rule @ '' | sudo tee '' @
              ''/etc/udev/rules.d/99-omni.rules && sudo udevadm control --reload-rules '' @
              ''&& sudo udevadm trigger`'')])"

text \<open>The probe installs the mouse hook and removes it.\<close>
definition windows_diagnose :: "bool \<Rightarrow> hook_os \<Rightarrow> check list \<times> hook_os" where
  "windows_diagnose granted os =
     (let (hook, os) = set_hook granted os; installed = (hook \<noteq> 0);
          os = (if installed then unhook hook os else os);
          hooks = ''input hooks (capture)''
      in ([if installed then ok_check hooks ''low-level keyboard/mouse hooks can be installed''
           else failed_check hooks (''could not install a low-level mouse hook '' @ em_dash @
             '' capture will not work; check for software that blocks input hooks''),
           ok_check ''input injection'' (''SendInput is available; run the daemon elevated to also control '' @
             ''administrator windows (User Interface Privilege Isolation)'')], os))"

definition mac_diagnose :: "bool \<Rightarrow> check list" where
  "mac_diagnose trusted =
     (let permission = ''accessibility permission''
      in [if trusted then ok_check permission (''granted '' @ em_dash @ '' capture and injection available'')
          else failed_check permission (''not granted '' @ em_dash @ '' System Settings '' @ arrow @
            '' Privacy & Security '' @ arrow @ '' Accessibility: add whatever launches the daemon. '' @
            ''macOS grants this to the *responsible* app, which is the terminal when you run `omni start` '' @
            ''yourself and Omnipresent.app when you start it from the app. Granting it to one does not grant '' @
            ''it to the other. Rebuilding the binary revokes the grant; remove and re-add it after a rebuild, '' @
            ''then restart the daemon'')])"

text \<open>What \<^verbatim>\<open>omni doctor\<close> says of capture on Linux is what the daemon then finds: the check passes exactly
  when the source finds a device to read, so long as its threads can be started; and the check of
  injection passes exactly when the device file can be written.\<close>
theorem linux_doctor_is_right:
  "map check_ok (linux_diagnose entries devices uinput) =
     [linux_source_new (\<lambda>_. True) devices \<noteq> Inl NoDevices, uinput = Writable]"
proof -
  have "(0 < length (filter is_keyboard ds) + length (filter is_mouse ds)) \<longleftrightarrow> (\<exists>d\<in>set ds. is_keyboard d \<or> is_mouse d)"
    for ds by (induction ds) auto
  then show ?thesis
    by (auto simp: linux_diagnose_def linux_source_new_def ok_check_def failed_check_def Let_def filter_empty_conv
        split: uinput.split)
qed

text \<open>The probe of Windows leaves no hook behind.\<close>
theorem windows_probe_cleans_up:
  "handles_ok os \<Longrightarrow> ho_live (snd (windows_diagnose granted os)) = ho_live os \<and>
     list_all check_ok (fst (windows_diagnose granted os)) = granted"
  by (auto simp: windows_diagnose_def set_hook_def unhook_def handles_ok_def ok_check_def failed_check_def
      Let_def remove1_append)

lemma windows_probe_cleans_up_witness:
  "ho_live (snd (windows_diagnose True \<lparr> ho_live = [4], ho_next = 5, ho_timer = False \<rparr>)) = [4]"
  using windows_probe_cleans_up [of "\<lparr> ho_live = [4], ho_next = 5, ho_timer = False \<rparr>" True]
  by (simp add: handles_ok_def)

end
