(* ===== verification/Updater.thy ===== *)
theory Updater
  imports Client
begin

text \<open>
  What \<^verbatim>\<open>omni update\<close> (\<^verbatim>\<open>crates/omni-cli/src/update.rs\<close>) does to the machine, and in which order: the command of
  \<open>Client\<close> is run on a system and a channel that record everything asked of them.
\<close>

section \<open>A system that records\<close>

text \<open>Everything a command does to the outside, with whether it succeeded.\<close>
datatype os_event = Did file_act bool | Ran "string list" bool | Spawned "string list" bool | Asked request bool

definition recorded_os :: "'w os \<Rightarrow> (os_event list \<times> 'w) os" where
  "recorded_os os = \<lparr>
     os_file = (\<lambda>act (acts, w). let (r, w) = os_file os act w in (r, acts @ [Did act (r = None)], w)),
     os_run = (\<lambda>argv (acts, w). let (r, w) = os_run os argv w in
        (r, acts @ [Ran argv (case r of Inr report \<Rightarrow> er_success report | Inl _ \<Rightarrow> False)], w)),
     os_spawn = (\<lambda>argv (acts, w). let (r, w) = os_spawn os argv w in (r, acts @ [Spawned argv (r = None)], w)),
     os_exists = (\<lambda>path (acts, w). os_exists os path w), os_exe = os_exe os, os_join = os_join os, os_name = os_name os,
     os_arch = os_arch os, os_temp_dir = os_temp_dir os, os_temp_var = os_temp_var os, os_pid = os_pid os \<rparr>"

definition recorded_send :: "'w sender \<Rightarrow> (os_event list \<times> 'w) sender" where
  "recorded_send send req = (\<lambda>(acts, w). let (r, w) = send req w in
     (r, acts @ [Asked req (case r of Inr _ \<Rightarrow> True | Inl _ \<Rightarrow> False)], w))"

definition precedes :: "'e \<Rightarrow> 'e \<Rightarrow> 'e list \<Rightarrow> bool" where
  "precedes x y xs \<longleftrightarrow> y \<in> set (tl (dropWhile (\<lambda>z. z \<noteq> x) xs))"

definition replaced :: "os_event list \<Rightarrow> bool" where
  "replaced acts \<longleftrightarrow> list_ex (\<lambda>e. case e of Did (ReplaceSelf b) ok \<Rightarrow> ok | _ \<Rightarrow> False) acts"

text \<open>The directory an update works in, the archive it downloads, and its two programs.\<close>
definition update_dir :: "'w os \<Rightarrow> string" where
  "update_dir os = os_join os (os_temp_dir os) (''omni-update-'' @ decimal (os_pid os))"

definition download_argv :: "'w os \<Rightarrow> string \<Rightarrow> string list" where
  "download_argv os archive = [''curl'', ''--proto'', ''=https'', ''--tlsv1.2'', ''-fsSL'', ''-o'',
     os_join os (update_dir os) archive, ''https://github.com/'' @ REPO @ ''/releases/latest/download/'' @ archive]"

definition unpack_argv :: "'w os \<Rightarrow> string \<Rightarrow> string list" where
  "unpack_argv os archive = [''tar'', ''-xf'', os_join os (update_dir os) archive, ''-C'', update_dir os]"

definition archive_of :: "'w os \<Rightarrow> string \<Rightarrow> string" where
  "archive_of os platform = ''omni-cli-'' @ platform @ (if os_name os = ''windows'' then ''.zip'' else ''.tar.gz'')"

definition binary_of :: "'w os \<Rightarrow> string" where
  "binary_of os = os_join os (update_dir os) (if os_name os = ''windows'' then ''omni.exe'' else ''omni'')"

text \<open>The ways an update's own work can go, as what was done.\<close>
definition work_shape :: "'w os \<Rightarrow> string \<Rightarrow> bool \<Rightarrow> os_event list \<Rightarrow> bool" where
  "work_shape os archive ok acts \<longleftrightarrow>
     (\<not> ok \<and> (acts = [Ran (download_argv os archive) False] \<or>
       (\<exists>unpacked. acts = [Ran (download_argv os archive) True, Ran (unpack_argv os archive) unpacked]))) \<or>
     (\<exists>mode. (mode = [] \<or> (\<exists>done. mode = [Did (MakeExecutable (binary_of os)) done])) \<and>
       acts = [Ran (download_argv os archive) True, Ran (unpack_argv os archive) True] @ mode @
         [Did (ReplaceSelf (binary_of os)) ok])"

lemma run_program_recorded:
  "run_program (recorded_os os) argv (acts, w) = (r, s) \<Longrightarrow>
   \<exists>w'. s = (acts @ [Ran argv (\<exists>u. r = Inr u)], w')"
  by (auto simp: run_program_def recorded_os_def split: sum.splits prod.splits if_splits)

lemma file_recorded:
  "os_file (recorded_os os) act (acts, w) = (r, s) \<Longrightarrow> \<exists>w'. s = (acts @ [Did act (r = None)], w')"
  by (auto simp: recorded_os_def split: prod.splits)

lemma snd_file_recorded: "\<exists>ok w'. snd (os_file (recorded_os os) act (acts, w)) = (acts @ [Did act ok], w')"
  using file_recorded [of os act acts w] by (metis prod.collapse)

lemma recorded_fields [simp]:
  "os_join (recorded_os os) = os_join os" "os_name (recorded_os os) = os_name os" "os_arch (recorded_os os) = os_arch os"
  "os_temp_dir (recorded_os os) = os_temp_dir os" "os_pid (recorded_os os) = os_pid os" "os_exe (recorded_os os) = os_exe os"
  by (simp_all add: recorded_os_def)

lemma unpack_recorded:
  fixes os :: "'w os"
  assumes "binary = (if os_name os = ''windows'' then ''omni.exe'' else ''omni'')"
    and "url = ''https://github.com/'' @ REPO @ ''/releases/latest/download/'' @ archive"
    and "unpack_and_replace (recorded_os os) (update_dir os) archive binary url (acts, w) = (r, s)"
  shows "\<exists>tail w'. s = (acts @ tail, w') \<and> work_shape os archive (\<exists>u. r = Inr u) tail"
proof -
  let ?os = "recorded_os os"
  have args: "download_argv os archive = [''curl'', ''--proto'', ''=https'', ''--tlsv1.2'', ''-fsSL'', ''-o'',
      os_join os (update_dir os) archive, url]" "binary_of os = os_join os (update_dir os) binary"
    using assms(1,2) by (simp_all add: download_argv_def binary_of_def)
  obtain r1 s1 where dl: "run_program ?os (download_argv os archive) (acts, w) = (r1, s1)" by (metis surj_pair)
  obtain w1 where s1: "s1 = (acts @ [Ran (download_argv os archive) (\<exists>u. r1 = Inr u)], w1)"
    using run_program_recorded [OF dl] by blast
  show ?thesis
  proof (cases r1)
    case (Inl e)
    then show ?thesis using assms(3) dl s1 by (auto simp: unpack_and_replace_def args work_shape_def)
  next
    case (Inr u)
    obtain r2 s2 where un: "run_program ?os (unpack_argv os archive) s1 = (r2, s2)" by (metis surj_pair)
    obtain w2 where s2: "s2 = (acts @ [Ran (download_argv os archive) True, Ran (unpack_argv os archive) (\<exists>u. r2 = Inr u)], w2)"
      using run_program_recorded [OF un [unfolded s1]] Inr by auto
    show ?thesis
    proof (cases "(\<exists>e. r2 = Inl e) \<or> \<not> os_exists ?os (binary_of os) s2")
      case True
      then have "s = s2 \<and> (\<exists>e. r = Inl e)" using assms(3) dl un Inr
        by (auto simp: unpack_and_replace_def args unpack_argv_def split: sum.splits)
      then show ?thesis using s2 by (auto simp: work_shape_def)
    next
      case False
      define s3 where "s3 = (if os_name os = ''windows'' then s2 else snd (os_file ?os (MakeExecutable (binary_of os)) s2))"
      obtain mode w3 where s3: "s3 = (fst s2 @ mode, w3)" "mode = [] \<or> (\<exists>done. mode = [Did (MakeExecutable (binary_of os)) done])"
      proof (cases "os_name os = ''windows''")
        case True
        then show ?thesis using s2 that [of "[]" w2] by (simp add: s3_def)
      next
        case False
        then show ?thesis using s2 that snd_file_recorded [of os "MakeExecutable (binary_of os)" "fst s2" w2]
          by (auto simp: s3_def)
      qed
      obtain r4 s4 where rp: "os_file ?os (ReplaceSelf (binary_of os)) s3 = (r4, s4)" by (metis surj_pair)
      obtain w4 where "s4 = (fst s3 @ [Did (ReplaceSelf (binary_of os)) (r4 = None)], w4)"
        using file_recorded [OF rp [unfolded s3(1)]] s3(1) by auto
      moreover have "s = s4" "(\<exists>u. r = Inr u) = (r4 = None)" using assms(3) dl un Inr False rp [unfolded s3_def args(2)]
        by (auto simp: unpack_and_replace_def args unpack_argv_def Let_def split: sum.splits option.splits prod.splits)
      ultimately show ?thesis using s2 s3 False by (cases r2) (auto simp: work_shape_def)
    qed
  qed
qed

lemma download_recorded:
  fixes os :: "'w os"
  assumes "download_and_replace (recorded_os os) platform (acts, w) = (ps, r, s)"
  shows "\<exists>cleaned w'. (\<exists>e. r = Inl e) \<and>
      s = (acts @ [Did (RemoveTree (update_dir os)) cleaned, Did (CreateTree (update_dir os)) False], w') \<or>
    (\<exists>work gone. work_shape os (archive_of os platform) (\<exists>u. r = Inr u) work \<and>
      s = (acts @ [Did (RemoveTree (update_dir os)) cleaned, Did (CreateTree (update_dir os)) True] @ work @
        [Did (RemoveTree (update_dir os)) gone], w'))"
proof -
  let ?os = "recorded_os os" and ?tmp = "update_dir os"
  obtain cleaned w1 where c: "snd (os_file ?os (RemoveTree ?tmp) (acts, w)) = (acts @ [Did (RemoveTree ?tmp) cleaned], w1)"
    using snd_file_recorded [of os "RemoveTree ?tmp" acts w] by blast
  obtain f s2 where m: "os_file ?os (CreateTree ?tmp) (acts @ [Did (RemoveTree ?tmp) cleaned], w1) = (f, s2)" by (metis surj_pair)
  obtain w2 where s2: "s2 = (acts @ [Did (RemoveTree ?tmp) cleaned, Did (CreateTree ?tmp) (f = None)], w2)"
    using file_recorded [OF m] by auto
  define binary where "binary = (if os_name os = ''windows'' then ''omni.exe'' else ''omni'')"
  define archive where "archive = archive_of os platform"
  define url where "url = ''https://github.com/'' @ REPO @ ''/releases/latest/download/'' @ archive"
  obtain r3 s3 where u: "unpack_and_replace ?os ?tmp archive binary url s2 = (r3, s3)" by (metis surj_pair)
  obtain work w3 where s3: "s3 = (fst s2 @ work, w3)" "work_shape os archive (\<exists>u. r3 = Inr u) work"
    using unpack_recorded [OF binary_def url_def u [unfolded s2]] s2 by auto
  obtain gone w4 where g: "snd (os_file ?os (RemoveTree ?tmp) s3) = (fst s3 @ [Did (RemoveTree ?tmp) gone], w4)"
    using snd_file_recorded [of os "RemoveTree ?tmp" "fst s3" w3] s3(1) by auto
  have parts: "(if os_name os = ''windows'' then (''omni-cli-'' @ platform @ ''.zip'', ''omni.exe'')
      else (''omni-cli-'' @ platform @ ''.tar.gz'', ''omni'')) = (archive, binary)"
    by (simp add: archive_def archive_of_def binary_def)
  have tmp: "os_join os (os_temp_dir os) (''omni-update-'' @ decimal (os_pid os)) = ?tmp" by (simp add: update_dir_def)
  have run: "(r, s) = (case f of Some (_, e) \<Rightarrow> (Inl (''could not create a temp dir: '' @ e), s2)
      | None \<Rightarrow> (r3, snd (os_file ?os (RemoveTree ?tmp) s3)))"
    using assms c m u unfolding download_and_replace_def recorded_fields parts tmp
    by (auto simp: Let_def url_def split: option.splits prod.splits)
  show ?thesis
  proof (cases f)
    case None
    then show ?thesis using run g s3 s2 by (auto simp: archive_def)
  next
    case (Some e)
    then show ?thesis using run s2 by (auto split: prod.splits)
  qed
qed

lemma precedes_Cons [simp]:
  "precedes x y (z # zs) \<longleftrightarrow> (if z = x then y \<in> set zs else precedes x y zs)"
  by (simp add: precedes_def)

lemma precedes_Nil [simp]: "\<not> precedes x y []"
  by (simp add: precedes_def)

lemma precedes_append:
  "precedes x y (xs @ ys) \<longleftrightarrow> precedes x y xs \<or> (x \<in> set xs \<and> y \<in> set ys) \<or> (x \<notin> set xs \<and> precedes x y ys)"
  by (induction xs) auto

lemma curl_recorded:
  "curl (recorded_os os) args (acts, w) = (r, s) \<Longrightarrow> \<exists>w'. s = (acts @ [Ran (''curl'' # args) (\<exists>u. r = Inr u)], w')"
  by (auto simp: curl_def recorded_os_def split: sum.splits prod.splits if_splits)

definition query_argv :: "string list" where
  "query_argv = [''curl'', ''-H'', ''User-Agent: omni-update'', ''-H'', ''Accept: application/vnd.github+json'',
     ''https://api.github.com/repos/'' @ REPO @ ''/releases/latest'']"

lemma latest_recorded:
  "latest_version tag_of (recorded_os os) (acts, w) = (r, s) \<Longrightarrow> \<exists>ok w'. s = (acts @ [Ran query_argv ok], w')"
  by (auto simp: latest_version_def query_argv_def split: sum.splits prod.splits dest!: curl_recorded)

lemma send_recorded:
  "recorded_send send req (acts, w) = (r, s) \<Longrightarrow> \<exists>w'. s = (acts @ [Asked req (\<exists>u. r = Inr u)], w')"
  by (auto simp: recorded_send_def split: prod.splits sum.splits)

lemma restart_recorded:
  "restart_daemon (recorded_os os) (acts, w) = (r, s) \<Longrightarrow>
   \<exists>tail w'. s = (acts @ tail, w') \<and> (tail = [] \<or> (\<exists>exe ok. tail = [Spawned [exe, ''start''] ok]))"
  by (auto simp: restart_daemon_def recorded_os_def split: sum.splits prod.splits option.splits)

text \<open>The whole of an update that finds a newer version.\<close>
definition update_shape :: "'w os \<Rightarrow> string \<Rightarrow> exit_code \<Rightarrow> os_event list \<Rightarrow> bool" where
  "update_shape os archive code acts \<longleftrightarrow>
     (\<exists>ok running stopped cleaned rest. acts = [Ran query_argv ok, Asked ReqStatus running] @
        (if running then [Asked ReqStop stopped] else []) @ [Did (RemoveTree (update_dir os)) cleaned] @ rest \<and>
        (code = FAILURE \<and> rest = [Did (CreateTree (update_dir os)) False] \<or>
         (\<exists>work gone tail. work_shape os archive (code = SUCCESS) work \<and>
            rest = [Did (CreateTree (update_dir os)) True] @ work @ [Did (RemoveTree (update_dir os)) gone] @ tail \<and>
            (tail = [] \<or> running \<and> (\<exists>exe done. tail = [Spawned [exe, ''start''] done])))))"

lemma update_shapeI:
  assumes "acts = [Ran query_argv ok, Asked ReqStatus running] @
      (if running then [Asked ReqStop stopped] else []) @ [Did (RemoveTree (update_dir os)) cleaned] @ rest"
    and "code = FAILURE \<and> rest = [Did (CreateTree (update_dir os)) False] \<or>
      (\<exists>work gone tail. work_shape os archive (code = SUCCESS) work \<and>
            rest = [Did (CreateTree (update_dir os)) True] @ work @ [Did (RemoveTree (update_dir os)) gone] @ tail \<and>
            (tail = [] \<or> running \<and> (\<exists>exe done. tail = [Spawned [exe, ''start''] done])))"
  shows "update_shape os archive code acts"
  unfolding update_shape_def using assms by blast

lemma update_recorded:
  fixes os :: "'w os"
  assumes "update_cmd current tag_of (map_prod (\<lambda>acts. acts) pause) (recorded_os os) (recorded_send send) ([], w) = (ps, code, acts, w')"
  shows "(acts = [] \<and> code = FAILURE) \<or> (\<exists>ok. acts = [Ran query_argv ok] \<and>
       (code = SUCCESS \<longrightarrow> ps = [Out (''current version: '' @ current), Out ''already up to date.''])) \<or>
     (\<exists>platform. asset_platform (os_name os) (os_arch os) = Some platform \<and> update_shape os (archive_of os platform) code acts)"
proof (cases "asset_platform (os_name os) (os_arch os)")
  case None
  then show ?thesis using assms by (simp add: update_cmd_def)
next
  case (Some platform)
  let ?os = "recorded_os os" and ?send = "recorded_send send"
  obtain latest s1 where l: "latest_version tag_of ?os ([], w) = (latest, s1)" by (metis surj_pair)
  obtain ok w1 where s1: "s1 = ([Ran query_argv ok], w1)" using latest_recorded [OF l] by auto
  show ?thesis
  proof (cases "\<exists>v. latest = Inr v \<and> v \<noteq> current")
    case False
    then show ?thesis using assms Some l s1 by (cases latest) (auto simp: update_cmd_def Let_def)
  next
    case True
    then obtain v where v: "latest = Inr v" "v \<noteq> current" by blast
    obtain answer s2 where a: "?send ReqStatus s1 = (answer, s2)" by (metis surj_pair)
    define running where "running = (\<exists>u. answer = Inr u)"
    obtain w2 where s2: "s2 = ([Ran query_argv ok, Asked ReqStatus running], w2)"
      using send_recorded [OF a [unfolded s1]] by (auto simp: running_def)
    define s3 where "s3 = (if running then map_prod (\<lambda>acts. acts) pause (snd (?send ReqStop s2)) else s2)"
    obtain stopped w3 where s3: "s3 = (fst s2 @ (if running then [Asked ReqStop stopped] else []), w3)"
    proof (cases running)
      case True
      obtain b t where "?send ReqStop s2 = (b, t)" by (metis surj_pair)
      then show ?thesis using send_recorded [of send ReqStop "fst s2" w2 b t] s2 that True by (auto simp: s3_def)
    qed (use s2 that in \<open>auto simp: s3_def\<close>)
    obtain qs r s4 where d: "download_and_replace ?os platform s3 = (qs, r, s4)" by (metis prod_cases3)
    have ans: "(case answer of Inr _ \<Rightarrow> True | Inl _ \<Rightarrow> False) = running" by (auto simp: running_def split: sum.split)
    have code: "code = (case r of Inr _ \<Rightarrow> SUCCESS | Inl _ \<Rightarrow> FAILURE) \<and>
      (acts, w') = (case r of Inr _ \<Rightarrow> if running then snd (restart_daemon ?os s4) else s4 | Inl _ \<Rightarrow> s4)"
      using assms Some l v a d unfolding update_cmd_def recorded_fields
      by (auto simp: ans s3_def [symmetric] Let_def split: sum.splits prod.splits if_splits)
    define front where "front = [Ran query_argv ok, Asked ReqStatus running] @
      (if running then [Asked ReqStop stopped] else [])"
    obtain cleaned rest where s4: "fst s4 = front @ [Did (RemoveTree (update_dir os)) cleaned] @ rest"
      "(\<exists>e. r = Inl e) \<and> rest = [Did (CreateTree (update_dir os)) False] \<or>
       (\<exists>work gone. work_shape os (archive_of os platform) (\<exists>u. r = Inr u) work \<and>
          rest = [Did (CreateTree (update_dir os)) True] @ work @ [Did (RemoveTree (update_dir os)) gone])"
    proof -
      have "fst s2 @ (if running then [Asked ReqStop stopped] else []) = front" using s2 by (simp add: front_def)
      then show ?thesis using download_recorded [OF d [unfolded s3]] that by auto
    qed
    obtain tail where acts: "acts = fst s4 @ tail"
      "tail = [] \<or> (\<exists>u. r = Inr u) \<and> running \<and> (\<exists>exe done. tail = [Spawned [exe, ''start''] done])"
    proof (cases "running \<and> (\<exists>u. r = Inr u)")
      case True
      obtain b t where "restart_daemon ?os s4 = (b, t)" by (metis surj_pair)
      then show ?thesis using restart_recorded [of os "fst s4" "snd s4" b t] that code True by auto
    next
      case False
      then show ?thesis using that [of "[]"] code by (cases s4) (auto split: sum.splits)
    qed
    have "(code = SUCCESS) = (\<exists>u. r = Inr u)" "(code = FAILURE) = (\<exists>e. r = Inl e)"
      using code by (auto split: sum.splits)
    then have "update_shape os (archive_of os platform) code acts"
      using s4 acts by (intro update_shapeI [where rest = "rest @ tail"]) (auto simp: front_def)
    then show ?thesis using Some by blast
  qed
qed

lemma argv_distinct [simp]:
  "query_argv \<noteq> download_argv os archive" "query_argv \<noteq> unpack_argv os archive"
  "download_argv os archive \<noteq> unpack_argv os archive" "unpack_argv os archive \<noteq> download_argv os archive"
  by (simp_all add: query_argv_def download_argv_def unpack_argv_def)

lemma replaced_simps [simp]:
  "replaced (xs @ ys) \<longleftrightarrow> replaced xs \<or> replaced ys" "\<not> replaced []"
  "replaced (e # es) \<longleftrightarrow> (\<exists>binary. e = Did (ReplaceSelf binary) True) \<or> replaced es"
  by (auto simp: replaced_def split: os_event.splits file_act.splits)

lemma replaced_iff: "replaced acts \<longleftrightarrow> (\<exists>binary. Did (ReplaceSelf binary) True \<in> set acts)"
  by (induction acts) auto

lemma work_replaced: "work_shape os archive ok work \<Longrightarrow> replaced work = ok"
  by (auto simp: work_shape_def)

lemma work_order:
  assumes "work_shape os archive ok work" and "Did (ReplaceSelf binary) done \<in> set work"
  shows "Ran (download_argv os archive) True \<in> set work \<and> Ran (unpack_argv os archive) True \<in> set work \<and>
    precedes (Ran (download_argv os archive) True) (Did (ReplaceSelf binary) done) work \<and>
    precedes (Ran (unpack_argv os archive) True) (Did (ReplaceSelf binary) done) work"
  using assms by (auto simp: work_shape_def precedes_append)

lemma work_leaves_dir: "work_shape os archive ok work \<Longrightarrow> Did (RemoveTree d) g \<notin> set work \<and> Did (CreateTree d) g \<notin> set work"
  by (auto simp: work_shape_def)

text \<open>C36. An update replaces the program only by a file from an archive that was downloaded and unpacked without an
  error, and after a daemon that was running has been told to stop; it succeeds exactly when it replaced the
  program or found it current; and its temporary directory, once made, is removed on every way out, after all of
  this.\<close>
theorem update_replaces_only_a_whole_download:
  assumes "update_cmd current tag_of (map_prod (\<lambda>acts. acts) pause) (recorded_os os) (recorded_send send) ([], w) =
    (ps, code, acts, w')"
  shows "(\<forall>binary ok. Did (ReplaceSelf binary) ok \<in> set acts \<longrightarrow>
      (\<exists>archive. precedes (Ran (download_argv os archive) True) (Did (ReplaceSelf binary) ok) acts \<and>
         precedes (Ran (unpack_argv os archive) True) (Did (ReplaceSelf binary) ok) acts) \<and>
      (Asked ReqStatus True \<in> set acts \<longrightarrow> (\<exists>heard. precedes (Asked ReqStop heard) (Did (ReplaceSelf binary) ok) acts)) \<and>
      (\<exists>gone. precedes (Did (ReplaceSelf binary) ok) (Did (RemoveTree (update_dir os)) gone) acts)) \<and>
    (code = SUCCESS \<longrightarrow> replaced acts \<or> ps = [Out (''current version: '' @ current), Out ''already up to date.'']) \<and>
    (code = FAILURE \<longrightarrow> \<not> replaced acts) \<and>
    (Did (CreateTree (update_dir os)) True \<in> set acts \<longrightarrow>
      (\<exists>gone. precedes (Did (CreateTree (update_dir os)) True) (Did (RemoveTree (update_dir os)) gone) acts))"
  (is "?ordered \<and> ?success \<and> ?failure \<and> ?tidy")
proof -
  consider (none) "acts = []" "code = FAILURE"
    | (query) ok where "acts = [Ran query_argv ok]"
        "code = SUCCESS \<longrightarrow> ps = [Out (''current version: '' @ current), Out ''already up to date.'']"
    | (work) archive where "update_shape os archive code acts"
    using update_recorded [OF assms] by blast
  then show ?thesis
  proof cases
    case work
    then obtain ok running stopped cleaned rest where acts: "acts = [Ran query_argv ok, Asked ReqStatus running] @
        (if running then [Asked ReqStop stopped] else []) @ [Did (RemoveTree (update_dir os)) cleaned] @ rest"
      and rest: "code = FAILURE \<and> rest = [Did (CreateTree (update_dir os)) False] \<or>
         (\<exists>work gone tail. work_shape os archive (code = SUCCESS) work \<and>
            rest = [Did (CreateTree (update_dir os)) True] @ work @ [Did (RemoveTree (update_dir os)) gone] @ tail \<and>
            (tail = [] \<or> running \<and> (\<exists>exe fin. tail = [Spawned [exe, ''start''] fin])))"
      unfolding update_shape_def by blast
    from rest consider (failed) "code = FAILURE" "rest = [Did (CreateTree (update_dir os)) False]"
      | (worked) work gone tail where "work_shape os archive (code = SUCCESS) work"
          "rest = [Did (CreateTree (update_dir os)) True] @ work @ [Did (RemoveTree (update_dir os)) gone] @ tail"
          "tail = [] \<or> running \<and> (\<exists>exe fin. tail = [Spawned [exe, ''start''] fin])"
      by blast
    then show ?thesis
    proof cases
      case failed
      then show ?thesis by (simp add: acts)
    next
      case (worked work gone tail)
      note w = worked(1,2) and tail = worked(3)
      have no: "Did act fin \<notin> set tail" "\<not> replaced tail" for act fin using tail by auto
      have only: "Did (ReplaceSelf binary) fin \<in> set acts \<Longrightarrow> Did (ReplaceSelf binary) fin \<in> set work" for binary fin
        using no by (auto simp: acts w(2) split: if_splits)
      note order = work_order [OF w(1)] and leaves = work_leaves_dir [OF w(1)]
      have ?ordered
      proof (intro allI impI)
        fix binary fin
        assume "Did (ReplaceSelf binary) fin \<in> set acts"
        then have here: "Did (ReplaceSelf binary) fin \<in> set work" by (rule only)
        have "precedes (Ran (download_argv os archive) True) (Did (ReplaceSelf binary) fin) acts"
          "precedes (Ran (unpack_argv os archive) True) (Did (ReplaceSelf binary) fin) acts"
          "precedes (Did (ReplaceSelf binary) fin) (Did (RemoveTree (update_dir os)) gone) acts"
          using order [OF here] here by (simp_all add: acts w(2) precedes_append)
        moreover have "precedes (Asked ReqStop stopped) (Did (ReplaceSelf binary) fin) acts" if running
          using that here by (simp add: acts w(2) precedes_append)
        moreover have "running" if "Asked ReqStatus True \<in> set acts"
          using that tail w(1) by (auto simp: acts w(2) work_shape_def split: if_splits)
        ultimately show "(\<exists>archive. precedes (Ran (download_argv os archive) True) (Did (ReplaceSelf binary) fin) acts \<and>
            precedes (Ran (unpack_argv os archive) True) (Did (ReplaceSelf binary) fin) acts) \<and>
          (Asked ReqStatus True \<in> set acts \<longrightarrow>
            (\<exists>heard. precedes (Asked ReqStop heard) (Did (ReplaceSelf binary) fin) acts)) \<and>
          (\<exists>gone. precedes (Did (ReplaceSelf binary) fin) (Did (RemoveTree (update_dir os)) gone) acts)"
          by blast
      qed
      moreover have "replaced acts = (code = SUCCESS)"
        using no work_replaced [OF w(1)] by (simp add: acts w(2))
      moreover have "precedes (Did (CreateTree (update_dir os)) True) (Did (RemoveTree (update_dir os)) gone) acts"
        by (simp add: acts w(2) precedes_append)
      ultimately show ?thesis by auto
    qed
  qed auto
qed

text \<open>A Linux machine on which everything succeeds and the latest release is 2.\<close>
definition demo_os :: "unit os" where
  "demo_os = \<lparr> os_file = (\<lambda>act w. (None, w)),
     os_run = (\<lambda>argv w. (Inr \<lparr> er_success = True, er_status = [], er_stdout = ''v2'', er_stderr = [] \<rparr>, w)),
     os_spawn = (\<lambda>argv w. (None, w)), os_exists = (\<lambda>path w. True), os_exe = Inr ''/usr/bin/omni'',
     os_join = (\<lambda>a b. a @ ''/'' @ b), os_name = ''linux'', os_arch = ''x86_64'', os_temp_dir = ''/tmp'',
     os_temp_var = None, os_pid = 7 \<rparr>"

lemma demo_os_steps:
  "run_program (recorded_os demo_os) argv (acts, w) = (Inr (), acts @ [Ran argv True], w)"
  "curl (recorded_os demo_os) args (acts, w) = (Inr ''v2'', acts @ [Ran (''curl'' # args) True], w)"
  "os_file (recorded_os demo_os) act (acts, w) = (None, acts @ [Did act True], w)"
  "os_spawn (recorded_os demo_os) argv (acts, w) = (None, acts @ [Spawned argv True], w)"
  "os_exists (recorded_os demo_os) path (acts, w)" "os_exe demo_os = Inr ''/usr/bin/omni''"
  "os_name demo_os = ''linux''" "os_arch demo_os = ''x86_64''"
  by (simp_all add: run_program_def curl_def recorded_os_def demo_os_def)

lemma demo_os_download:
  "\<exists>line work. download_and_replace (recorded_os demo_os) platform (acts, w) = ([line], Inr (), acts @ work, w)"
  by (simp add: download_and_replace_def unpack_and_replace_def demo_os_steps Let_def)

lemma update_replaces_only_a_whole_download_witness:
  "\<exists>ps acts. update_cmd ''1'' (\<lambda>body. Inr (Some body)) (map_prod (\<lambda>acts. acts) (\<lambda>w. w)) (recorded_os demo_os)
      (recorded_send (\<lambda>req w. (Inr RespOk, w))) ([], ()) = (ps, SUCCESS, acts, ()) \<and>
    replaced acts \<and> (\<exists>heard binary. precedes (Asked ReqStop heard) (Did (ReplaceSelf binary) True) acts)"
proof -
  let ?run = "update_cmd ''1'' (\<lambda>body. Inr (Some body)) (map_prod (\<lambda>acts. acts) (\<lambda>w. w)) (recorded_os demo_os)
      (recorded_send (\<lambda>req w. (Inr RespOk, w))) ([], ())"
  obtain ps code acts where run: "?run = (ps, code, acts, ())" by (cases ?run rule: prod_cases4) simp
  obtain line work where d: "download_and_replace (recorded_os demo_os) ''linux-x64''
      ([Ran query_argv True, Asked ReqStatus True, Asked ReqStop True], ()) = ([line], Inr (),
        [Ran query_argv True, Asked ReqStatus True, Asked ReqStop True] @ work, ())"
    using demo_os_download by blast
  have l: "latest_version (\<lambda>body. Inr (Some body)) (recorded_os demo_os) ([], ()) = (Inr ''2'', [Ran query_argv True], ())"
    by (simp add: latest_version_def demo_os_steps query_argv_def)
  have a: "recorded_send (\<lambda>req w. (Inr RespOk, w)) req (acts, w) = (Inr RespOk, acts @ [Asked req True], w)" for req acts w
    by (simp add: recorded_send_def)
  have p: "asset_platform ''linux'' ''x86_64'' = Some ''linux-x64''" by (simp add: asset_platform_def)
  have "?run = ([Out ''current version: 1'', Out ''updating to 2 ...'', line, Out ''updated to 2.'',
      Out ''daemon restarted on the new version.''], SUCCESS,
      [Ran query_argv True, Asked ReqStatus True, Asked ReqStop True] @ work @ [Spawned [''/usr/bin/omni'', ''start''] True], ())"
    unfolding update_cmd_def recorded_fields demo_os_steps p option.case l prod.case sum.case
    by (simp add: a d restart_daemon_def demo_os_steps)
  then have "code = SUCCESS" "Asked ReqStatus True \<in> set acts" "length ps = 5" unfolding run by simp_all
  note facts = update_replaces_only_a_whole_download [OF run] this
  have r: "replaced acts"
    using conjunct1 [OF conjunct2 [OF facts(1)]] facts(2,4) by auto
  then obtain binary where b: "Did (ReplaceSelf binary) True \<in> set acts"
    by (auto simp: replaced_iff)
  then obtain heard where "precedes (Asked ReqStop heard) (Did (ReplaceSelf binary) True) acts"
    using conjunct1 [OF facts(1)] facts(3) by blast
  then show ?thesis using run r facts(2) by blast
qed

end
