(* ===== verification/WindDown.thy ===== *)
theory WindDown
  imports Service
begin

text \<open>
  The tasks around the daemon's state in \<^verbatim>\<open>daemon.rs\<close>: the one that accepts clients of the local channel,
  the one of each client, and the main one, which waits to be told to stop and then winds the daemon
  down.  Time is in milliseconds.  Timers fire when they are due, as tokio's do: time does not pass a
  deadline the main task waits for.
\<close>

section \<open>State\<close>

text \<open>What a client's connection is to its task: JSON and the writing of bytes.\<close>
record 'w wire =
  wire_parse :: "string \<Rightarrow> string + request"
  wire_ser :: "response \<Rightarrow> string option"
  wire_event :: "status_info \<Rightarrow> string option"
  wire_write :: "string \<Rightarrow> 'w \<Rightarrow> bool \<times> 'w"
  wire_flush :: "'w \<Rightarrow> 'w"

datatype 'w client = Asking 'w | Watching "'w stream"

text \<open>Serving; waiting for the clients until a time; dropping the tokio runtime until a time; exited.\<close>
datatype phase = Ready | LettingGo nat | Unwinding nat | Gone

text \<open>\<open>rt_tokens\<close> counts the senders of \<open>alive\<close>, \<open>rt_permit\<close> is what \<open>notify_one\<close> leaves for the main task.\<close>
record ('p, 'w) runtime =
  rt_shared :: "'p shared"
  rt_permit :: bool
  rt_shutting :: bool
  rt_endpoint :: bool
  rt_accepting :: bool
  rt_tokens :: nat
  rt_next :: nat
  rt_clients :: "nat \<rightharpoonup> 'w client"
  rt_phase :: phase
  rt_now :: nat

definition shutdown_grace :: nat where
  "shutdown_grace = 2000"

text \<open>The daemon's own token is dropped once the task that accepts holds one.\<close>
definition runtime_start :: "'p shared \<Rightarrow> nat \<Rightarrow> ('p, 'w) runtime" where
  "runtime_start sh t = \<lparr> rt_shared = sh, rt_permit = False, rt_shutting = False, rt_endpoint = True,
     rt_accepting = True, rt_tokens = 1, rt_next = 0, rt_clients = Map.empty, rt_phase = Ready, rt_now = t \<rparr>"

section \<open>Clients\<close>

text \<open>\<open>listener.accept()\<close> returned.\<close>
definition accept_turn :: "string + 'w \<Rightarrow> ('p, 'w) runtime \<Rightarrow> ('p, 'w) runtime" where
  "accept_turn accepted rt = (case accepted of
      Inr w \<Rightarrow> rt \<lparr> rt_clients := (rt_clients rt)(rt_next rt \<mapsto> Asking w), rt_next := rt_next rt + 1,
                   rt_tokens := rt_tokens rt + 1 \<rparr>
    | Inl e \<Rightarrow> rt \<lparr> rt_accepting := False, rt_tokens := rt_tokens rt - 1 \<rparr>)"

definition accept_told :: "('p, 'w) runtime \<Rightarrow> ('p, 'w) runtime" where
  "accept_told rt = rt \<lparr> rt_accepting := False, rt_tokens := rt_tokens rt - 1 \<rparr>"

text \<open>The task of a client ends, and its token with it.\<close>
definition client_ends :: "nat \<Rightarrow> ('p, 'w) runtime \<Rightarrow> ('p, 'w) runtime" where
  "client_ends k rt = rt \<lparr> rt_clients := (rt_clients rt)(k := None), rt_tokens := rt_tokens rt - 1 \<rparr>"

definition keep_client :: "nat \<Rightarrow> 'w client \<Rightarrow> ('p, 'w) runtime \<Rightarrow> ('p, 'w) runtime" where
  "keep_client k c rt = rt \<lparr> rt_clients := (rt_clients rt)(k \<mapsto> c) \<rparr>"

definition keep_stream :: "nat \<Rightarrow> 'w stream \<Rightarrow> ('p, 'w) runtime \<Rightarrow> ('p, 'w) runtime" where
  "keep_stream k s rt = (if stream_open s then keep_client k (Watching s) rt else client_ends k rt)"

text \<open>A client that asks sent a line.\<close>
definition client_line ::
  "'w wire \<Rightarrow> 'a ipc_env \<Rightarrow> string \<Rightarrow> nat \<Rightarrow> 'w \<Rightarrow> ('p, 'w) runtime \<Rightarrow> ('p, 'w) runtime" where
  "client_line W env line k w rt =
     (let (mode, stop, w, sh) =
        serve_line (wire_parse W) (wire_ser W) (wire_write W) (wire_flush W) env line w (rt_shared rt);
        rt = rt \<lparr> rt_shared := sh, rt_permit := rt_permit rt \<or> stop \<rparr>
      in case mode of
           Serving \<Rightarrow> keep_client k (Asking w) rt
         | Closed \<Rightarrow> client_ends k rt
         | Streaming \<Rightarrow> keep_stream k (stream_begin (wire_event W) (wire_write W) (rt_shutting rt) env sh w) rt)"

definition client_woken ::
  "'w wire \<Rightarrow> 'a ipc_env \<Rightarrow> stream_wake \<Rightarrow> nat \<Rightarrow> 'w stream \<Rightarrow> ('p, 'w) runtime \<Rightarrow> ('p, 'w) runtime" where
  "client_woken W env wake k s rt =
     keep_stream k (stream_step (wire_event W) (wire_write W) env wake (rt_shared rt) s) rt"

section \<open>Winding down\<close>

text \<open>Whether a signal of the system has arrived, if the handler for it could be installed.\<close>
datatype signal = Installed bool | NotInstalled

text \<open>The result of \<open>ctrl_c()\<close> is dropped, its error too.\<close>
definition interrupt :: "signal \<Rightarrow> bool" where
  "interrupt s = (case s of Installed arrived \<Rightarrow> arrived | NotInstalled \<Rightarrow> True)"

definition terminate_signal :: "signal \<Rightarrow> bool" where
  "terminate_signal s = (case s of Installed arrived \<Rightarrow> arrived | NotInstalled \<Rightarrow> False)"

text \<open>Whether the main task has stopped waiting: a request, an interrupt, or the signal to terminate.\<close>
definition wait_for_shutdown :: "signal \<Rightarrow> signal \<Rightarrow> ('p, 'w) runtime \<Rightarrow> bool" where
  "wait_for_shutdown ctrl_c sigterm rt = (rt_permit rt \<or> interrupt ctrl_c \<or> terminate_signal sigterm)"

definition wind_down :: "machine_id list \<Rightarrow> ('p, 'w) runtime \<Rightarrow> ('p, 'w) runtime" where
  "wind_down ord rt = rt \<lparr> rt_shutting := True, rt_shared := disconnect_all ord (rt_shared rt),
     rt_endpoint := False, rt_phase := LettingGo (rt_now rt + shutdown_grace) \<rparr>"

text \<open>\<open>recv\<close> finds no sender left, or the time is up.\<close>
definition let_go :: "('p, 'w) runtime \<Rightarrow> bool" where
  "let_go rt = (case rt_phase rt of LettingGo d \<Rightarrow> rt_tokens rt = 0 \<or> d \<le> rt_now rt | _ \<Rightarrow> False)"

definition unwind :: "('p, 'w) runtime \<Rightarrow> ('p, 'w) runtime" where
  "unwind rt = rt \<lparr> rt_phase := Unwinding (rt_now rt + shutdown_grace) \<rparr>"

definition exit_process :: "('p, 'w) runtime \<Rightarrow> ('p, 'w) runtime" where
  "exit_process rt = rt \<lparr> rt_phase := Gone, rt_accepting := False, rt_clients := Map.empty, rt_tokens := 0 \<rparr>"

fun phase_deadline :: "phase \<Rightarrow> nat option" where
  "phase_deadline (LettingGo d) = Some d"
| "phase_deadline (Unwinding d) = Some d"
| "phase_deadline _ = None"

definition may_pass :: "nat \<Rightarrow> ('p, 'w) runtime \<Rightarrow> bool" where
  "may_pass n rt = (case phase_deadline (rt_phase rt) of None \<Rightarrow> True | Some d \<Rightarrow> rt_now rt + n \<le> d)"

section \<open>Steps\<close>

text \<open>One task of the runtime moves, or time passes.  What the other tasks do to the shared state is a
  \<open>daemon_step\<close>.  The blocking work the runtime waits for when it is dropped may end at any time.\<close>
inductive runtime_step :: "'w wire \<Rightarrow> ('p, 'w) runtime \<Rightarrow> ('p, 'w) runtime \<Rightarrow> bool" for W where
  Works: "rt_phase rt \<noteq> Gone \<Longrightarrow> daemon_step (rt_shared rt) sh' \<Longrightarrow> runtime_step W rt (rt \<lparr> rt_shared := sh' \<rparr>)"
| Accepts: "rt_accepting rt \<Longrightarrow> runtime_step W rt (accept_turn accepted rt)"
| AcceptTold: "rt_accepting rt \<Longrightarrow> rt_shutting rt \<Longrightarrow> runtime_step W rt (accept_told rt)"
| Line: "rt_clients rt k = Some (Asking w) \<Longrightarrow> env_ok (env :: nat ipc_env) (rt_shared rt) \<Longrightarrow>
    runtime_step W rt (client_line W env line k w rt)"
| HangsUp: "rt_clients rt k = Some (Asking w) \<Longrightarrow> runtime_step W rt (client_ends k rt)"
| Woken: "rt_clients rt k = Some (Watching s) \<Longrightarrow>
    (wake = StateChanged \<longrightarrow> env_ok (env :: nat ipc_env) (rt_shared rt)) \<Longrightarrow> (wake = ShutdownBegan \<longrightarrow> rt_shutting rt) \<Longrightarrow> wake \<noteq> ChangesGone \<Longrightarrow>
    runtime_step W rt (client_woken W env wake k s rt)"
| Told: "rt_phase rt = Ready \<Longrightarrow> wait_for_shutdown ctrl_c sigterm rt \<Longrightarrow> iterates ord (plinks (rt_shared rt)) \<Longrightarrow>
    runtime_step W rt (wind_down ord rt)"
| LetGo: "let_go rt \<Longrightarrow> runtime_step W rt (unwind rt)"
| Exits: "rt_phase rt = Unwinding d \<Longrightarrow> runtime_step W rt (exit_process rt)"
| Tick: "may_pass n rt \<Longrightarrow> runtime_step W rt (rt \<lparr> rt_now := rt_now rt + n \<rparr>)"

inductive_cases runtime_stepE: "runtime_step W rt rt'"

inductive runtime_runs :: "'w wire \<Rightarrow> ('p, 'w) runtime \<Rightarrow> ('p, 'w) runtime \<Rightarrow> bool" for W where
  Stays: "runtime_runs W rt rt"
| Moves: "runtime_runs W rt rt' \<Longrightarrow> runtime_step W rt' rt'' \<Longrightarrow> runtime_runs W rt rt''"

text \<open>The states a daemon is in that started from a reachable state of its shared part.\<close>
definition runtime_reachable :: "'w wire \<Rightarrow> ('p, 'w) runtime \<Rightarrow> bool" where
  "runtime_reachable W rt \<longleftrightarrow> (\<exists>sh t. daemon_reachable sh \<and> runtime_runs W (runtime_start sh t) rt)"

section \<open>What the steps keep\<close>

definition tokens_match :: "('p, 'w) runtime \<Rightarrow> bool" where
  "tokens_match rt \<longleftrightarrow> finite (dom (rt_clients rt)) \<and> (\<forall>k\<in>dom (rt_clients rt). k < rt_next rt) \<and>
     rt_tokens rt = card (dom (rt_clients rt)) + of_bool (rt_accepting rt)"

definition phase_ok :: "('p, 'w) runtime \<Rightarrow> bool" where
  "phase_ok rt \<longleftrightarrow> rt_shutting rt = (rt_phase rt \<noteq> Ready) \<and> rt_endpoint rt = (rt_phase rt = Ready) \<and>
     (rt_phase rt = Gone \<longrightarrow> \<not> rt_accepting rt \<and> rt_clients rt = Map.empty) \<and>
     (\<forall>d. phase_deadline (rt_phase rt) = Some d \<longrightarrow> rt_now rt \<le> d)"

definition runtime_ok :: "('p, 'w) runtime \<Rightarrow> bool" where
  "runtime_ok rt \<longleftrightarrow> tokens_match rt \<and> phase_ok rt"

lemmas client_defs = accept_turn_def accept_told_def client_ends_def keep_client_def
lemmas down_defs = wind_down_def unwind_def exit_process_def may_pass_def let_go_def

text \<open>What a client's task leaves alone.\<close>
lemma keep_stream_fields [simp]:
  "rt_phase (keep_stream k s rt) = rt_phase rt" "rt_now (keep_stream k s rt) = rt_now rt"
  "rt_shutting (keep_stream k s rt) = rt_shutting rt" "rt_endpoint (keep_stream k s rt) = rt_endpoint rt"
  "rt_accepting (keep_stream k s rt) = rt_accepting rt" "rt_next (keep_stream k s rt) = rt_next rt"
  "rt_shared (keep_stream k s rt) = rt_shared rt" "rt_permit (keep_stream k s rt) = rt_permit rt"
  by (simp_all add: keep_stream_def client_defs)

lemma client_line_fields [simp]:
  "rt_phase (client_line W env line k w rt) = rt_phase rt" "rt_now (client_line W env line k w rt) = rt_now rt"
  "rt_shutting (client_line W env line k w rt) = rt_shutting rt"
  "rt_endpoint (client_line W env line k w rt) = rt_endpoint rt"
  "rt_accepting (client_line W env line k w rt) = rt_accepting rt"
  "rt_next (client_line W env line k w rt) = rt_next rt"
  by (simp_all add: client_line_def client_defs Let_def split: prod.split client_mode.split)

text \<open>A client's task keeps its token or, ending, gives it back.\<close>
inductive moves_client :: "nat \<Rightarrow> ('p, 'w) runtime \<Rightarrow> ('p, 'w) runtime \<Rightarrow> bool" for k rt where
  Kept: "rt_clients rt' = (rt_clients rt)(k \<mapsto> c) \<Longrightarrow> rt_tokens rt' = rt_tokens rt \<Longrightarrow> moves_client k rt rt'"
| Ended: "rt_clients rt' = (rt_clients rt)(k := None) \<Longrightarrow> rt_tokens rt' = rt_tokens rt - 1 \<Longrightarrow> moves_client k rt rt'"

lemma moves_keep_stream: "moves_client k rt (keep_stream k s rt)"
  by (simp add: keep_stream_def client_defs Kept Ended)

lemma moves_client_ends: "moves_client k rt (client_ends k rt)"
  by (simp add: client_defs Ended)

lemma moves_client_line: "moves_client k rt (client_line W env line k w rt)"
  by (auto simp: client_line_def client_defs keep_stream_def Let_def intro: Kept Ended
      split: prod.split client_mode.split)

lemma tokens_match_moves:
  assumes "tokens_match rt" "moves_client k rt rt'" "rt_clients rt k \<noteq> None"
    and "rt_accepting rt' = rt_accepting rt" "rt_next rt' = rt_next rt"
  shows "tokens_match rt'"
  using assms(2)
proof cases
  case (Kept c)
  moreover have "insert k (dom (rt_clients rt)) = dom (rt_clients rt)" using assms(3) by blast
  ultimately show ?thesis using assms(1,4,5) by (auto simp: tokens_match_def)
next
  case Ended
  moreover have "card (dom (rt_clients rt) - {k}) = card (dom (rt_clients rt)) - 1"
    and "0 < card (dom (rt_clients rt))"
    using assms(1,3) by (auto simp: tokens_match_def card_gt_0_iff domIff intro!: card_Diff_singleton)
  ultimately show ?thesis using assms(1,4,5) by (auto simp: tokens_match_def)
qed

lemma phase_ok_cong:
  "phase_ok rt \<Longrightarrow> rt_phase rt' = rt_phase rt \<Longrightarrow> rt_now rt' = rt_now rt \<Longrightarrow> rt_shutting rt' = rt_shutting rt \<Longrightarrow>
   rt_endpoint rt' = rt_endpoint rt \<Longrightarrow> rt_phase rt \<noteq> Gone \<Longrightarrow> phase_ok rt'"
  by (simp add: phase_ok_def)

lemma runtime_ok_client:
  assumes "runtime_ok rt" "rt_clients rt k \<noteq> None" "moves_client k rt rt'"
    and "rt_accepting rt' = rt_accepting rt" "rt_next rt' = rt_next rt" "rt_phase rt' = rt_phase rt"
    and "rt_now rt' = rt_now rt" "rt_shutting rt' = rt_shutting rt" "rt_endpoint rt' = rt_endpoint rt"
  shows "runtime_ok rt'"
proof -
  have "rt_phase rt \<noteq> Gone" using assms(1,2) by (auto simp: runtime_ok_def phase_ok_def)
  moreover have "phase_ok rt" using assms(1) by (simp add: runtime_ok_def)
  ultimately have "phase_ok rt'" using assms(6-9) phase_ok_cong by blast
  moreover have "tokens_match rt'"
    using assms(1) by (intro tokens_match_moves [OF _ assms(3,2,4,5)]) (simp add: runtime_ok_def)
  ultimately show ?thesis by (simp add: runtime_ok_def)
qed

lemma runtime_ok_step:
  assumes "runtime_step W rt rt'" "runtime_ok rt"
  shows "runtime_ok rt'"
  using assms(1)
proof cases
  case (Works sh')
  then show ?thesis using assms(2) by (simp add: runtime_ok_def tokens_match_def phase_ok_def)
next
  case (Accepts accepted)
  have "rt_next rt \<notin> dom (rt_clients rt)" using assms(2) by (auto simp: runtime_ok_def tokens_match_def)
  then show ?thesis using assms(2) Accepts
    by (auto simp: runtime_ok_def tokens_match_def phase_ok_def client_defs less_Suc_eq split: sum.split)
next
  case AcceptTold
  then show ?thesis using assms(2)
    by (auto simp: runtime_ok_def tokens_match_def phase_ok_def client_defs)
next
  case (Line k w env line)
  show ?thesis unfolding Line(1) using Line(2) by (intro runtime_ok_client [OF assms(2) _ moves_client_line]) simp_all
next
  case (HangsUp k w)
  show ?thesis unfolding HangsUp(1) using HangsUp(2)
    by (intro runtime_ok_client [OF assms(2) _ moves_client_ends]) (simp_all add: client_ends_def)
next
  case (Woken k s env wake)
  show ?thesis unfolding Woken(1) client_woken_def using Woken(2)
    by (intro runtime_ok_client [OF assms(2) _ moves_keep_stream]) simp_all
next
  case (Told ctrl_c sigterm ord)
  then show ?thesis using assms(2) by (simp add: runtime_ok_def tokens_match_def phase_ok_def wind_down_def)
next
  case LetGo
  then show ?thesis using assms(2)
    by (auto simp: runtime_ok_def tokens_match_def phase_ok_def down_defs split: phase.splits)
next
  case (Exits d)
  then show ?thesis using assms(2) by (simp add: runtime_ok_def tokens_match_def phase_ok_def exit_process_def)
next
  case (Tick n)
  then show ?thesis using assms(2)
    by (auto simp: runtime_ok_def tokens_match_def phase_ok_def may_pass_def split: option.splits)
qed

lemma runtime_ok_runs: "runtime_runs W rt rt' \<Longrightarrow> runtime_ok rt \<Longrightarrow> runtime_ok rt'"
  by (induction rule: runtime_runs.induct) (auto intro: runtime_ok_step)

lemma runtime_ok_start: "runtime_ok (runtime_start sh t)"
  by (simp add: runtime_ok_def tokens_match_def phase_ok_def runtime_start_def)

lemma runtime_reachable_ok: "runtime_reachable W rt \<Longrightarrow> runtime_ok rt"
  unfolding runtime_reachable_def using runtime_ok_runs runtime_ok_start by blast

lemma runtime_reachable_start: "daemon_reachable sh \<Longrightarrow> runtime_reachable W (runtime_start sh t)"
  unfolding runtime_reachable_def using Stays by blast

lemma runtime_reachable_step: "runtime_reachable W rt \<Longrightarrow> runtime_step W rt rt' \<Longrightarrow> runtime_reachable W rt'"
  unfolding runtime_reachable_def using Moves by blast

lemma runs_trans: "runtime_runs W b c \<Longrightarrow> runtime_runs W a b \<Longrightarrow> runtime_runs W a c"
  by (induction rule: runtime_runs.induct) (auto intro: Moves)

lemma runs_one: "runtime_step W a b \<Longrightarrow> runtime_runs W a b"
  by (rule Moves [OF Stays])

lemma runtime_reachable_runs: "runtime_reachable W rt \<Longrightarrow> runtime_runs W rt rt' \<Longrightarrow> runtime_reachable W rt'"
  unfolding runtime_reachable_def using runs_trans by blast

section \<open>The shared state and the runtime\<close>

lemma client_line_shared:
  assumes "env_ok (env :: nat ipc_env) (rt_shared rt)"
  shows "rt_shared (client_line W env line k w rt) = rt_shared rt \<or>
    daemon_step (rt_shared rt) (rt_shared (client_line W env line k w rt))"
proof -
  obtain mode stop w' sh where served:
    "serve_line (wire_parse W) (wire_ser W) (wire_write W) (wire_flush W) env line w (rt_shared rt) = (mode, stop, w', sh)"
    by (cases "serve_line (wire_parse W) (wire_ser W) (wire_write W) (wire_flush W) env line w (rt_shared rt)"
        rule: prod_cases4) simp
  have "rt_shared (client_line W env line k w rt) = sh"
    by (simp add: client_line_def served client_defs Let_def split: client_mode.split)
  moreover have "sh = rt_shared rt \<or> (\<exists>req resp. dispatch env req (rt_shared rt) = (resp, sh))"
    using served
    by (fastforce simp: serve_line_def Let_def case_prod_beta split: if_splits sum.splits option.splits
        intro: prod_eqI)
  ultimately show ?thesis using Commanded [OF assms] by metis
qed

text \<open>A step of the runtime is a step of the daemon's state or leaves that state alone.\<close>
lemma runtime_step_shared:
  assumes "runtime_step W rt rt'"
  shows "rt_shared rt' = rt_shared rt \<or> daemon_step (rt_shared rt) (rt_shared rt')"
  using assms
proof cases
  case (Line k w env line)
  show ?thesis unfolding Line(1) by (rule client_line_shared [OF Line(3)])
next
  case (Told ctrl_c sigterm ord)
  then show ?thesis using ShuttingDown [of ord "rt_shared rt"] by (simp add: wind_down_def)
qed (simp_all add: client_defs client_woken_def unwind_def exit_process_def split: sum.split)

theorem runtime_keeps_the_daemon:
  assumes "runtime_reachable W rt"
  shows "daemon_reachable (rt_shared rt) \<and>
    rt_tokens rt = card (dom (rt_clients rt)) + of_bool (rt_accepting rt) \<and>
    (rt_shutting rt \<longleftrightarrow> rt_phase rt \<noteq> Ready)"
proof -
  have "daemon_reachable (rt_shared rt')" if "runtime_runs W r rt'" "daemon_reachable (rt_shared r)" for r rt'
    using that by (induction rule: runtime_runs.induct) (use runtime_step_shared Stepped in \<open>metis+\<close>)
  then have "daemon_reachable (rt_shared rt)"
    using assms by (fastforce simp: runtime_reachable_def runtime_start_def)
  then show ?thesis using runtime_reachable_ok [OF assms] by (simp add: runtime_ok_def tokens_match_def phase_ok_def)
qed

section \<open>How the daemon ends\<close>

text \<open>Where the main task can be once it was told to stop at \<open>t\<close>.  While a task holds a token it waits
  as long as it may.\<close>
definition winding :: "nat \<Rightarrow> ('p, 'w) runtime \<Rightarrow> bool" where
  "winding t rt = (case rt_phase rt of
      Ready \<Rightarrow> False
    | LettingGo d \<Rightarrow> d = t + shutdown_grace
    | Unwinding d \<Rightarrow> d \<le> t + 2 * shutdown_grace \<and> (rt_tokens rt \<noteq> 0 \<longrightarrow> d = t + 2 * shutdown_grace)
    | Gone \<Rightarrow> True)"

lemma holder_keeps_token: "tokens_match rt \<Longrightarrow> rt_clients rt k \<noteq> None \<or> rt_accepting rt \<Longrightarrow> rt_tokens rt \<noteq> 0"
  by (auto simp: tokens_match_def card_eq_0_iff)

lemma winding_client:
  assumes "winding t rt" "runtime_ok rt" "rt_clients rt k \<noteq> None" "rt_phase rt' = rt_phase rt"
  shows "winding t rt'"
  using assms holder_keeps_token by (fastforce simp: winding_def runtime_ok_def split: phase.splits)

lemma winding_step:
  assumes "runtime_step W rt rt'" "runtime_ok rt" "winding t rt"
  shows "winding t rt'"
  using assms(1)
proof cases
  case (Line k w env line)
  show ?thesis unfolding Line(1) using Line(2) by (intro winding_client [OF assms(3,2), of k]) simp_all
next
  case (HangsUp k w)
  show ?thesis unfolding HangsUp(1) using HangsUp(2)
    by (intro winding_client [OF assms(3,2), of k]) (simp_all add: client_ends_def)
next
  case (Woken k s env wake)
  show ?thesis unfolding Woken(1) client_woken_def using Woken(2)
    by (intro winding_client [OF assms(3,2), of k]) simp_all
next
  case (Accepts accepted)
  then show ?thesis using assms(2,3) holder_keeps_token [of rt]
    by (auto simp: winding_def client_defs runtime_ok_def split: phase.splits sum.splits)
next
  case LetGo
  then show ?thesis using assms(2,3)
    by (auto simp: winding_def down_defs runtime_ok_def phase_ok_def split: phase.splits)
next
  case (Told ctrl_c sigterm ord)
  then show ?thesis using assms(3) by (simp add: winding_def)
qed (use assms(3) in \<open>auto simp: winding_def client_defs exit_process_def split: phase.splits\<close>)

lemma winding_runs: "runtime_runs W rt rt' \<Longrightarrow> runtime_ok rt \<Longrightarrow> winding t rt \<Longrightarrow> winding t rt'"
  by (induction rule: runtime_runs.induct) (auto intro: winding_step runtime_ok_runs)

lemma tick_to: "t = rt_now rt + n \<Longrightarrow> may_pass n rt \<Longrightarrow> runtime_runs W rt (rt \<lparr> rt_now := t \<rparr>)"
  using runs_one [OF Tick [of n rt]] by simp

lemma gone_has_no_clients: "runtime_ok rt \<Longrightarrow> rt_phase rt = Gone \<Longrightarrow> rt_clients rt = Map.empty"
  by (simp add: runtime_ok_def phase_ok_def)

text \<open>Once told to stop, the daemon can exit without anyone's help, and by the time it may take.\<close>
lemma winding_exits:
  assumes "runtime_ok rt" "winding t rt" "rt_phase rt \<noteq> Gone"
  shows "\<exists>rt'. runtime_runs W rt rt' \<and> rt_phase rt' = Gone \<and> rt_now rt' \<le> t + 2 * shutdown_grace"
proof -
  have exits: "\<exists>rt'. runtime_runs W r rt' \<and> rt_phase rt' = Gone \<and> rt_now rt' \<le> t + 2 * shutdown_grace"
    if "rt_phase r = Unwinding d" "rt_now r \<le> t + 2 * shutdown_grace" for r d
    using runs_one [OF Exits [OF that(1)], of W] that(2) by (intro exI [of _ "exit_process r"]) (simp add: exit_process_def)
  show ?thesis
  proof (cases "rt_phase rt")
    case (LettingGo d)
    let ?late = "rt \<lparr> rt_now := d \<rparr>"
    have d: "rt_now rt \<le> d" "d = t + shutdown_grace"
      using assms(1,2) LettingGo by (simp_all add: runtime_ok_def phase_ok_def winding_def)
    have "runtime_runs W rt ?late"
      using d(1) LettingGo by (intro tick_to [of _ _ "d - rt_now rt"]) (simp_all add: may_pass_def)
    moreover have "runtime_step W ?late (unwind ?late)" using LettingGo by (intro LetGo) (simp add: let_go_def)
    ultimately have run: "runtime_runs W rt (unwind ?late)" by (rule Moves)
    obtain rt' where "runtime_runs W (unwind ?late) rt'" "rt_phase rt' = Gone" "rt_now rt' \<le> t + 2 * shutdown_grace"
      using exits [of "unwind ?late"] d(2) by (auto simp: unwind_def)
    then show ?thesis using runs_trans [OF _ run] by blast
  next
    case (Unwinding d)
    then have "rt_now rt \<le> t + 2 * shutdown_grace"
      using assms(1,2) by (fastforce simp: runtime_ok_def phase_ok_def winding_def)
    then show ?thesis by (rule exits [OF Unwinding])
  qed (use assms(2,3) in \<open>simp_all add: winding_def\<close>)
qed

section \<open>Subscriptions and askers\<close>

text \<open>Every subscription ends once it sees that the daemon is on its way down, without time passing.\<close>
definition only_watching :: "('p, 'w) runtime \<Rightarrow> bool" where
  "only_watching rt \<longleftrightarrow> (\<forall>k c. rt_clients rt k = Some c \<longrightarrow> (\<exists>s. c = Watching s))"

lemma woken_by_shutdown:
  assumes "rt_clients rt k = Some (Watching s)" "rt_shutting rt"
  shows "runtime_step W rt (client_ends k rt)"
  using Woken [OF assms(1), where wake = ShutdownBegan and W = W and env = undefined] assms(2)
  by (simp add: client_woken_def stream_step_def keep_stream_def)

lemma watchers_leave:
  assumes "runtime_ok rt" "rt_shutting rt" "only_watching rt" "\<not> rt_accepting rt"
  shows "\<exists>rt'. runtime_runs W rt rt' \<and> rt_tokens rt' = 0 \<and> rt_now rt' = rt_now rt \<and> rt_phase rt' = rt_phase rt"
  using assms
proof (induction "card (dom (rt_clients rt))" arbitrary: rt)
  case 0
  then have "rt_tokens rt = 0" by (simp add: runtime_ok_def tokens_match_def)
  then show ?case using Stays by blast
next
  case (Suc n)
  have fin: "finite (dom (rt_clients rt))" using Suc.prems(1) by (simp add: runtime_ok_def tokens_match_def)
  obtain k c where k: "rt_clients rt k = Some c" using Suc.hyps(2) by (metis card.empty dom_empty nat.distinct(1) not_None_eq ext)
  then obtain s where s: "rt_clients rt k = Some (Watching s)" using Suc.prems(3) unfolding only_watching_def by blast
  note stp = woken_by_shutdown [OF s Suc.prems(2), of W]
  let ?rt = "client_ends k rt"
  have "card (dom (rt_clients ?rt)) = n" using Suc.hyps(2) k fin by (simp add: client_ends_def domIff)
  moreover have "runtime_ok ?rt" by (rule runtime_ok_step [OF stp Suc.prems(1)])
  moreover have "only_watching ?rt" using Suc.prems(3) by (auto simp: only_watching_def client_ends_def)
  ultimately obtain rt' where "runtime_runs W ?rt rt'" "rt_tokens rt' = 0" "rt_now rt' = rt_now ?rt" "rt_phase rt' = rt_phase ?rt"
    using Suc.hyps(1) [of ?rt] Suc.prems(2,4) by (auto simp: client_ends_def)
  then show ?case using runs_trans [OF _ runs_one [OF stp]] by (fastforce simp: client_ends_def)
qed

text \<open>Clients that only watch do not hold the daemon up: it can stop waiting at once.\<close>
theorem subscriptions_let_go:
  assumes "runtime_reachable W rt" "rt_phase rt = LettingGo d" "only_watching rt"
  shows "\<exists>rt'. runtime_runs W rt rt' \<and> rt_phase rt' = Unwinding (rt_now rt + shutdown_grace)"
proof -
  have ok: "runtime_ok rt" and sd: "rt_shutting rt"
    using runtime_reachable_ok [OF assms(1)] assms(2) by (simp_all add: runtime_ok_def phase_ok_def)
  obtain r where r: "runtime_runs W rt r" "\<not> rt_accepting r" "rt_clients r = rt_clients rt" "rt_phase r = LettingGo d"
    "rt_now r = rt_now rt" "rt_shutting r"
  proof (cases "rt_accepting rt")
    case True
    from runs_one [OF AcceptTold [OF True sd], of W] show ?thesis
      by (rule that) (simp_all add: accept_told_def assms(2) sd)
  next
    case False
    then show ?thesis by (intro that [OF Stays]) (simp_all add: assms(2) sd)
  qed
  have "only_watching r" using assms(3) by (simp add: only_watching_def r(3))
  with runtime_ok_runs [OF r(1) ok] obtain r' where r': "runtime_runs W r r'" "rt_tokens r' = 0"
    "rt_now r' = rt_now rt" "rt_phase r' = LettingGo d"
    using watchers_leave [of r W] r(2,4,5,6) by fastforce
  have "runtime_step W r' (unwind r')" using r'(2,4) by (intro LetGo) (simp add: let_go_def)
  then have "runtime_runs W rt (unwind r')" using r'(1) runs_trans [OF _ r(1)] Moves by blast
  then show ?thesis using r'(3) by (intro exI [of _ "unwind r'"]) (simp add: unwind_def)
qed

text \<open>A client that only watches, and one that asks and stays, when the daemon is told to stop.\<close>
lemma subscription_never_opens_late:
  "rt_shutting rt \<Longrightarrow> \<not> stream_open (stream_begin ser write (rt_shutting rt) env sh w)"
  by (simp add: stream_begin_def)

section \<open>After a failed accept\<close>

text \<open>Nobody can ask for anything any more: no client, no request to stop, no task that lets one in.\<close>
definition unheard :: "('p, 'w) runtime \<Rightarrow> bool" where
  "unheard rt \<longleftrightarrow> rt_clients rt = Map.empty \<and> \<not> rt_accepting rt \<and> \<not> rt_permit rt"

lemma unheard_step:
  assumes "runtime_step W rt rt'" "unheard rt"
  shows "unheard rt'"
  using assms(1)
proof cases
  case (Accepts accepted)
  then show ?thesis using assms(2) by (simp add: unheard_def)
qed (use assms(2) in \<open>auto simp: unheard_def accept_told_def unwind_def exit_process_def wind_down_def\<close>)

theorem failed_accept_ends_the_channel:
  assumes "runtime_reachable W rt" "rt_accepting rt" "rt_clients rt = Map.empty" "\<not> rt_permit rt"
    and "runtime_runs W (accept_turn (Inl e) rt) rt'"
  shows "runtime_reachable W rt' \<and> rt_clients rt' = Map.empty \<and> \<not> rt_accepting rt' \<and> \<not> wait_for_shutdown (Installed False) (Installed False) rt'"
proof -
  have "unheard rt'" if "runtime_runs W r rt'" "unheard r" for r
    using that by (induction rule: runtime_runs.induct) (auto intro: unheard_step)
  moreover have "unheard (accept_turn (Inl e) rt)" using assms(3,4) by (simp add: unheard_def accept_turn_def)
  ultimately have "unheard rt'" using assms(5) by blast
  moreover have "runtime_reachable W rt'"
    using runtime_reachable_runs [OF runtime_reachable_step [OF assms(1) Accepts [OF assms(2)]] assms(5)] .
  ultimately show ?thesis by (simp add: unheard_def wait_for_shutdown_def interrupt_def terminate_signal_def)
qed

lemma failed_accept_ends_the_channel_witness:
  "let rt = accept_turn (Inl ''EMFILE'') (runtime_start demo_home 0 :: (mock_clipboard, string) runtime)
   in rt_phase rt = Ready \<and> rt_clients (rt \<lparr> rt_now := 86400000 \<rparr>) = Map.empty \<and>
      \<not> wait_for_shutdown (Installed False) (Installed False) (rt \<lparr> rt_now := 86400000 \<rparr>)"
proof -
  let ?W = "\<lparr> wire_parse = \<lambda>_. Inl [], wire_ser = \<lambda>_. None, wire_event = \<lambda>_. None, wire_write = take_all_bytes,
    wire_flush = \<lambda>w. w \<rparr>"
  let ?rt = "runtime_start demo_home 0 :: (mock_clipboard, string) runtime"
  have "runtime_runs ?W (accept_turn (Inl ''EMFILE'') ?rt) (accept_turn (Inl ''EMFILE'') ?rt \<lparr> rt_now := 86400000 \<rparr>)"
    by (intro tick_to [of _ _ 86400000]) (simp_all add: accept_turn_def runtime_start_def may_pass_def)
  from failed_accept_ends_the_channel [OF runtime_reachable_start [OF demo_home_reachable] _ _ _ this]
  show ?thesis by (simp add: runtime_start_def accept_turn_def Let_def)
qed

section \<open>Properties\<close>

text \<open>A request to stop counts only once its answer has been written to the client and flushed.\<close>
theorem stop_is_answered_first:
  assumes "rt_clients rt k = Some (Asking w)" "\<not> rt_permit rt" "rt_permit (client_line W env line k w rt)"
  shows "wire_parse W line = Inr ReqStop \<and>
    (\<exists>payload w'. wire_ser W (fst (dispatch env ReqStop (rt_shared rt))) = Some payload \<and>
       wire_write W (payload @ [CHR 0x0A]) w = (True, w') \<and>
       rt_clients (client_line W env line k w rt) k = Some (Asking (wire_flush W w')))"
proof -
  obtain mode stop w' sh where served:
    "serve_line (wire_parse W) (wire_ser W) (wire_write W) (wire_flush W) env line w (rt_shared rt) = (mode, stop, w', sh)"
    by (cases "serve_line (wire_parse W) (wire_ser W) (wire_write W) (wire_flush W) env line w (rt_shared rt)"
        rule: prod_cases4) simp
  have stop using assms(2,3) unfolding client_line_def served
    by (auto simp: Let_def client_defs keep_stream_def split: client_mode.splits if_splits)
  then have *: "mode = Serving" "wire_parse W line = Inr ReqStop"
    "\<exists>payload w''. wire_ser W (fst (dispatch env ReqStop (rt_shared rt))) = Some payload \<and>
       wire_write W (payload @ [CHR 0x0A]) w = (True, w'') \<and> w' = wire_flush W w''"
    using served by (auto simp: serve_line_def Let_def case_prod_beta prod_eq_iff split: if_splits option.splits)
  then show ?thesis by (auto simp: client_line_def served keep_client_def)
qed

text \<open>C38. Once the daemon has been told to stop, by a request or by a signal, it is gone four seconds later,
  whatever its clients and peers do; while a client is still connected it uses the whole time it gives
  them; and at every moment until then it can finish without anybody's help, leaving no client connected.\<close>
theorem shutdown_is_bounded:
  assumes "runtime_reachable W rt" "rt_phase rt = Ready" "wait_for_shutdown ctrl_c sigterm rt"
    and "iterates ord (plinks (rt_shared rt))" "runtime_runs W (wind_down ord rt) rt'"
  shows "rt_phase rt' = Gone \<and> rt_clients rt' = Map.empty \<or>
    rt_now rt' \<le> rt_now rt + 4000 \<and>
    (\<forall>d. rt_phase rt' = Unwinding d \<and> rt_clients rt' \<noteq> Map.empty \<longrightarrow> d = rt_now rt + 4000) \<and>
    (\<exists>rt''. runtime_runs W rt' rt'' \<and> rt_phase rt'' = Gone \<and> rt_clients rt'' = Map.empty \<and> rt_now rt'' \<le> rt_now rt + 4000)"
proof -
  note told = Told [OF assms(2-4), of W]
  have ok0: "runtime_ok (wind_down ord rt)"
    using runtime_ok_step [OF told] runtime_reachable_ok [OF assms(1)] by blast
  have "winding (rt_now rt) (wind_down ord rt)" by (simp add: winding_def wind_down_def)
  then have w: "winding (rt_now rt) rt'" by (rule winding_runs [OF assms(5) ok0])
  have ok: "runtime_ok rt'" by (rule runtime_ok_runs [OF assms(5) ok0])
  show ?thesis
  proof (cases "rt_phase rt' = Gone")
    case False
    then have "rt_now rt' \<le> rt_now rt + 4000"
      using w ok by (fastforce simp: winding_def runtime_ok_def phase_ok_def shutdown_grace_def split: phase.splits)
    moreover have "d = rt_now rt + 4000" if "rt_phase rt' = Unwinding d" "rt_clients rt' \<noteq> Map.empty" for d
    proof -
      obtain k where "rt_clients rt' k \<noteq> None" using \<open>rt_clients rt' \<noteq> Map.empty\<close> by fastforce
      then have "rt_tokens rt' \<noteq> 0" using holder_keeps_token ok by (auto simp: runtime_ok_def)
      then show ?thesis using w that(1) by (simp add: winding_def shutdown_grace_def)
    qed
    moreover obtain rt'' where "runtime_runs W rt' rt''" "rt_phase rt'' = Gone" "rt_now rt'' \<le> rt_now rt + 4000"
      using winding_exits [OF ok w False, of W] by (auto simp: shutdown_grace_def)
    moreover have "rt_clients rt'' = Map.empty" by (rule gone_has_no_clients [OF runtime_ok_runs [OF _ ok]]) fact+
    ultimately show ?thesis by metis
  qed (simp add: gone_has_no_clients [OF ok])
qed

text \<open>A daemon with one idle client, interrupted.\<close>
lemma shutdown_is_bounded_witness:
  "\<exists>(rt :: (mock_clipboard, string) runtime) (rt' :: (mock_clipboard, string) runtime). rt_clients rt' 0 = Some (Asking []) \<and> rt_now rt' = rt_now rt + 2000 \<and>
     rt_phase rt' = Unwinding (rt_now rt + 4000)"
proof -
  let ?W = "\<lparr> wire_parse = \<lambda>_. Inl [], wire_ser = \<lambda>_. None, wire_event = \<lambda>_. None, wire_write = take_all_bytes,
    wire_flush = \<lambda>w. w \<rparr>"
  define rt where "rt = accept_turn (Inr []) (runtime_start demo_home 0 :: (mock_clipboard, string) runtime)"
  define down where "down = wind_down [] rt"
  have "runtime_reachable ?W (runtime_start demo_home 0 :: (mock_clipboard, string) runtime)"
    by (rule runtime_reachable_start [OF demo_home_reachable])
  then have r: "runtime_reachable ?W rt" unfolding rt_def
    by (rule runtime_reachable_step [OF _ Accepts]) (simp add: runtime_start_def)
  have late: "runtime_runs ?W down (down \<lparr> rt_now := 2000 \<rparr>)"
    by (intro tick_to [of _ _ 2000])
      (simp_all add: down_def rt_def accept_turn_def runtime_start_def wind_down_def may_pass_def shutdown_grace_def)
  have "let_go (down \<lparr> rt_now := 2000 \<rparr>)"
    by (simp add: down_def rt_def accept_turn_def runtime_start_def wind_down_def let_go_def shutdown_grace_def)
  then have run: "runtime_runs ?W (wind_down [] rt) (unwind (down \<lparr> rt_now := 2000 \<rparr>))"
    using late unfolding down_def [symmetric] by (intro Moves [OF late] LetGo)
  have "iterates [] (plinks (rt_shared rt))"
    by (simp add: rt_def accept_turn_def runtime_start_def iterates_def demo_home_fields)
  from shutdown_is_bounded [OF r _ _ this run, of "Installed True" "Installed False"]
  have "rt_phase (unwind (down \<lparr> rt_now := 2000 \<rparr>)) = Unwinding (rt_now rt + 4000)"
    by (auto simp: rt_def down_def accept_turn_def runtime_start_def wait_for_shutdown_def interrupt_def unwind_def wind_down_def fun_eq_iff
        split: if_splits)
  moreover have "rt_clients (unwind (down \<lparr> rt_now := 2000 \<rparr>)) 0 = Some (Asking [])"
    and "rt_now (unwind (down \<lparr> rt_now := 2000 \<rparr>)) = rt_now rt + 2000"
    by (simp_all add: rt_def down_def accept_turn_def runtime_start_def unwind_def wind_down_def)
  ultimately show ?thesis by blast
qed

end
