(* ===== verification/Spec2Isabelle.thy ===== *)
theory Spec2Isabelle
  imports AppShell Handles Handover Handshake Keymaps Platform Scroll Updater WindDown
begin

text \<open>
  Omnipresent lets several machines share one keyboard and mouse.  Each machine runs a daemon that
  captures the local input, keeps a virtual desktop of its own screen and those of the machines it
  has sessions with, and sends the input to the machine the cursor is on.  This development models
  the Rust crates under \<^verbatim>\<open>src/crates\<close> that carry this logic, and proves what they promise.

  \<^bold>\<open>The parts and their theories.\<close>

  \<^item> \<open>Prelude\<close>: the integer types of the code as words, strings as the code trims and lowers
    them, and the theorem collections.
  \<^item> \<open>Protocol\<close> (\<^verbatim>\<open>omni-protocol\<close>): identifiers, input events, modifier sets as bit masks,
    modifier relabelling (\<^verbatim>\<open>remap.rs\<close>), control messages, clipboard payloads with their
    validation, and the wire messages.  The codec of \<^verbatim>\<open>wire.rs\<close> is the library postcard, hence a
    parameter; what is relied on is that decoding undoes encoding (\<open>postcard_law\<close>).
  \<^item> \<open>Geometry\<close> and \<open>Layout\<close> (\<^verbatim>\<open>omni-topology\<close>): rescaling a movement between screens, and the
    virtual desktop.  \<open>virtual_layout\<close> has the two hash maps of \<^verbatim>\<open>VirtualLayout\<close> as partial maps;
    \<open>advance\<close> is \<^verbatim>\<open>VirtualLayout::advance\<close>, with a value of its own for the panic of \<^verbatim>\<open>clamp\<close> on an
    empty screen.
  \<^item> \<open>Session\<close> (\<^verbatim>\<open>omni-session\<close>): the manager of sessions, its event sink a parameter behind the
    locale \<open>session_sink\<close>.
  \<^item> \<open>Security\<close> (\<^verbatim>\<open>omni-security\<close>): the trust policy over the port \<^verbatim>\<open>TrustStore\<close>, which is the
    locale \<open>trust_store\<close>, interpreted on the in-memory store (its reading half \<open>trust_reader\<close> also on the
    trust file).
  \<^item> \<open>TrustFile\<close>, \<open>RateLimit\<close>, \<open>Config\<close> (\<^verbatim>\<open>omni-runtime\<close>): the remembered peers, the token
    bucket, and the settings.  A file is its contents or the error reading it gives.
  \<^item> \<open>Clipboard\<close> (\<^verbatim>\<open>omni-clipboard\<close>): the clipboard manager over its port, the locale
    \<open>clipboard_port\<close>.  The poll is two steps, because the code reads before it locks.
  \<^item> \<open>Scroll\<close> and \<open>Keymaps\<close> (\<^verbatim>\<open>omni-input\<close>): scroll accumulation, desktop coordinates and the
    key tables of the three platforms, entry by entry.
  \<^item> \<open>Transport\<close>, \<open>Quic\<close> and \<open>Tls\<close> (\<^verbatim>\<open>omni-transport\<close>): messages over a channel of datagrams, which is
    the locale \<open>datagram_link\<close>, interpreted on both ends of the loopback channel; the length-prefixed
    frames of the control and bulk streams, with the task that sends clipboard payloads; what the two
    certificate verifiers accept.  Reading and writing a stream are arguments, and what is relied on is
    that a stream gives back what was written (\<open>stream_law\<close>, \<open>write_law\<close>, \<open>uni_law\<close>).
  \<^item> \<open>InputPorts\<close> (\<^verbatim>\<open>port.rs\<close>, \<^verbatim>\<open>memory.rs\<close>): the contract of a source of input, the locale
    \<open>input_source\<close>, interpreted on the in-memory source and on the source of each platform.
  \<^item> \<open>LinuxInput\<close>, \<open>WindowsInput\<close> and \<open>MacInput\<close>: the adapter of each platform.  A source is the state
    that the capturing thread or hook shares with \<^verbatim>\<open>poll\<close>, changed by the events the system delivers; a
    sink is its own state together with the state of the system, which the calls of the platform change.
  \<^item> \<open>Platform\<close>: what the adapters hold of the system: the hooks and the timer of the Windows hook thread, the
    X11 display, pixmap and cursor of a hidden cursor, the uinput device; the texts of their errors, and each
    platform's checks for \<^verbatim>\<open>omni doctor\<close>.
  \<^item> \<open>Relay\<close>: what is captured on one machine and injected on another.
  \<^item> \<open>Capture\<close>: \<^verbatim>\<open>run_capture\<close>, the thread that applies suppression, polls and routes.  What it needs of a
    source is the locale \<open>capture_source\<close>, which extends \<open>input_source\<close> and is interpreted on all three
    platforms.
  \<^item> \<open>Daemon\<close> and \<open>Routing\<close> (\<^verbatim>\<open>daemon.rs\<close>): the record \<open>shared\<close> is the struct \<^verbatim>\<open>Shared\<close> with the
    \<^verbatim>\<open>State\<close> under its lock; each handler is a function on it.  A queue of commands for a peer is
    the list \<open>link_commands\<close> of its link; what the input sink did is the list \<open>sh_sink\<close>.
  \<^item> \<open>PeerTask\<close>: \<^verbatim>\<open>run_peer\<close>, one function for each arm of its \<^verbatim>\<open>select!\<close>, and the loop over a
    sequence of events.
  \<^item> \<open>Connect\<close>: \<^verbatim>\<open>handle_incoming\<close> and \<^verbatim>\<open>do_connect\<close>, split where they wait for the other side or
    for the user.
  \<^item> \<open>Requests\<close>: \<^verbatim>\<open>dispatch\<close> and the handlers of the requests of the \<^verbatim>\<open>omni\<close> tool.
  \<^item> \<open>Service\<close>: what surrounds the handlers in \<^verbatim>\<open>daemon.rs\<close>: the start with what it can fail at, the
    lines of one client, subscriptions, and the loop that polls the clipboard.
  \<^item> \<open>WindDown\<close>: the tasks around the state: the one that accepts clients, the one of each client, and the
    main one with its three reasons to stop and its two periods of grace, two seconds each.  A step of
    \<open>runtime_step\<close> is a step of \<open>daemon_step\<close> or leaves the daemon's state alone.
  \<^item> \<open>System\<close>: the daemon's tasks interleave at the state lock, so the daemon is the transition
    relation \<open>daemon_step\<close> with one step for each critical section.
  \<^item> \<open>Handover\<close>: two daemons and the messages in flight between them.
  \<^item> \<open>Client\<close> (\<^verbatim>\<open>omni-cli\<close>, \<^verbatim>\<open>doctor.rs\<close>): one exchange with the daemon, on a channel that is an argument and in
    the theorems the daemon itself (\<open>daemon_link\<close>), and every command of the \<^verbatim>\<open>omni\<close> tool with what it prints and
    its exit code.  \<open>Updater\<close>: what an update does, and in which order.
  \<^item> \<open>Desktop\<close> (\<^verbatim>\<open>src/omni/src-tauri\<close>): the desktop application's commands, subscription, tray, notifications,
    the supervisor of the daemon it embeds, and its diagnostics.  \<open>AppShell\<close>: the application as a process, the
    relation \<open>shell_step\<close>: its setup, its window, the clicks on its tray and how it ends; and one request of the
    window with its deadline.
  \<^item> \<open>LocalState\<close> (\<^verbatim>\<open>identity.rs\<close>, \<^verbatim>\<open>secure.rs\<close>, \<^verbatim>\<open>config.rs\<close>, \<^verbatim>\<open>ipc_transport.rs\<close>): the identity and the file of
    its key on a file system with permissions, the names in the state directory, and the local channel.
  \<^item> \<open>Handshake\<close> (\<^verbatim>\<open>tls.rs\<close>, \<^verbatim>\<open>quic.rs\<close>): the configurations of both sides, the endpoint, and what a completed
    handshake tells either side of the other, down to the session it is filed under.  The handshake is an
    argument with the laws \<open>tls_law\<close> and \<open>signature_law\<close>; the other side need not run this program.
  \<^item> \<open>Handles\<close>: what is held of the operating system: the owner-only descriptor and the instances of the Windows
    pipe (\<^verbatim>\<open>pipe_security.rs\<close>, \<^verbatim>\<open>ipc_transport.rs\<close>), the clipboard's handle (\<^verbatim>\<open>adapter.rs\<close>), and the tap of macOS.

  \<^bold>\<open>What the lemmas show.\<close>  Every state the daemon can reach keeps \<open>daemon_inv\<close>: links, sessions and
  their index describe the same peers, the cursor is where control is, and input is withheld from
  this machine exactly while it steers another.  The properties of routing say who gets a captured
  event, on every branch of a movement; those of the hand-over say what the two ends of a crossing do,
  that control is never held by both or lost by both while the messages of one movement arrive before
  the next one starts, and that it can be lost by both when they cross.  The properties of sessions
  say that nobody is served without being trusted or approved, what an approval or a dial leaves
  behind on each way it can end, and that ending a session brings control home.  The movement of the
  cursor is a refinement of an abstract specification (\<open>moves_well\<close>), the session manager one of
  its event log, coalescing one of replaying the commands.  The rate limiter bounds what one peer can
  make this machine inject.  Those of the transport say that framed messages arrive whole and in order
  and that a certificate other than the pinned one is refused, so that nobody without the key of the machine that was
  accepted stands in for it or comes in unasked; those of the adapters say that captured
  keys carry the modifiers really held, that the sinks put right what was lost on the way and nothing
  else, that movement and scrolling are neither lost nor made up, and that local input is withheld
  exactly while a peer is driven.  A command of the tool is one request, handled and reported as it was answered;
  a request is announced once and decided as the tray shows it; one daemon is embedded at a time; the identity
  stays and its fresh key is the owner's alone; and what waits for another process ends within the rounds that are
  counted.  Each property is followed by a witness, the same theorem on concrete
  data.

  \<^bold>\<open>Conventions.\<close>  Integers have the width of the code; a sum or product that the code computes in
  \<^verbatim>\<open>i64\<close> is an integer with a lemma that it fits.  Errors are the left of a sum, a panic is a value
  of its own.  A \<^verbatim>\<open>HashMap\<close> is a partial map, and where the code visits one, the order of the visit
  is an argument, required only to list the keys once (\<open>iterates\<close>).  Time is a real number of
  seconds.  A text is the list of its UTF-8 bytes.  No function needs fuel: every loop of the code
  is structural, over a list that the state holds, over the events of a task, or over the rounds of a wait, each
  with the time its clock shows; that the rounds come to an end is proved from the pauses between them.

  \<^bold>\<open>Not modelled.\<close>  The third-party packages (quinn, rustls, rcgen, postcard, serde, arboard, tokio, clap,
  tauri) and the interfaces of the operating systems (evdev, uinput, Win32, Core Graphics) are parameters: what
  they compute is not in this repository.  A TLS session that resumes an earlier one asks no verifier again and
  is left out.  Of the code itself there is left: starting the log and the tokio runtime, the flags that
  detach a process on Windows, the texts that are only logged, accessors that return a field, implementations
  of Debug and Error, and the user interface in TypeScript.  A poisoned lock is not followed further than the
  panic that causes it, and of the clipboard's lock, than the error it gives.
\<close>

end
